(* ===== verification/Prelude.thy ===== *)
theory Prelude
  imports Main "HOL-Library.Word"
begin

text \<open>
  What the components share: the machine types of the 32-bit x86 target (\<open>BYTE\<close>, \<open>WORD\<close>,
  \<open>DWORD\<close>, pointers; MimicOS/include/sys/types.h), a byte-addressed memory with the
  \<open>memset\<close>, \<open>memcpy\<close> and little-endian 32-bit accesses the code uses, the log of calls
  that leave the modelled code (locks, interrupts, ports, panics), and the generic lemmas about
  them.
\<close>

unbundle bit_operations_syntax

named_theorems mem_simps \<open>reads of an updated memory\<close>
named_theorems wrap_simps \<open>unsigned values of wrapping operations\<close>

section \<open>Machine types\<close>

type_synonym u8 = "8 word"
type_synonym u16 = "16 word"
type_synonym u32 = "32 word"

abbreviation (input) NULL :: u32 where "NULL \<equiv> 0"

definition SUCCESS :: int where "SUCCESS = 0"
definition FAIL :: int where "FAIL = -1"

lemma success_not_fail [simp]: "SUCCESS \<noteq> FAIL" "FAIL \<noteq> SUCCESS"
  by (simp_all add: SUCCESS_def FAIL_def)

section \<open>Calls that leave the modelled code\<close>

text \<open>
  The mutex, the interrupt flag, the panic routine and the port instructions are declared by the
  repository but implemented elsewhere (mutex.h is empty, the others are assembly). The model
  records each call in a log, in program order; a property about locking or about the order of
  port writes is a property of the log.
\<close>

datatype lock = physical_bitmapLock | paging_lock | mm_kmallocLock

datatype event =
    mutex_init lock
  | mutex_lock lock
  | mutex_unlock lock
  | interrupt_disableAll
  | interrupt_enableAll
  | kernel_panic string
  | port_outb u16 u8

text \<open>
  The locks held after a log, from the locks held before it: \<^term>\<open>None\<close> when the log takes
  a lock that is already held (a deadlock of the only thread) or releases one that is not.
\<close>

fun lock_run :: "lock set \<Rightarrow> event list \<Rightarrow> lock set option" where
  "lock_run H [] = Some H"
| "lock_run H (mutex_lock l # es) = (if l \<in> H then None else lock_run (insert l H) es)"
| "lock_run H (mutex_unlock l # es) = (if l \<in> H then lock_run (H - {l}) es else None)"
| "lock_run H (_ # es) = lock_run H es"

lemma lock_run_append:
  "lock_run H (es @ fs) = (case lock_run H es of None \<Rightarrow> None | Some H' \<Rightarrow> lock_run H' fs)"
  by (induction H es rule: lock_run.induct) auto

section \<open>Memory\<close>

type_synonym memory = "u32 \<Rightarrow> u8"

definition memset :: "memory \<Rightarrow> u32 \<Rightarrow> u8 \<Rightarrow> nat \<Rightarrow> memory" where
  "memset m a v n = (\<lambda>x. if unat (x - a) < n then v else m x)"

definition memcpy :: "memory \<Rightarrow> u32 \<Rightarrow> memory \<Rightarrow> u32 \<Rightarrow> nat \<Rightarrow> memory" where
  "memcpy dm d sm s n = (\<lambda>x. if unat (x - d) < n then sm (s + (x - d)) else dm x)"

definition load32 :: "memory \<Rightarrow> u32 \<Rightarrow> u32" where
  "load32 m a = ucast (m a) OR push_bit 8 (ucast (m (a + 1)))
     OR push_bit 16 (ucast (m (a + 2))) OR push_bit 24 (ucast (m (a + 3)))"

definition store32 :: "memory \<Rightarrow> u32 \<Rightarrow> u32 \<Rightarrow> memory" where
  "store32 m a v = m(a := ucast v, a + 1 := ucast (drop_bit 8 v),
     a + 2 := ucast (drop_bit 16 v), a + 3 := ucast (drop_bit 24 v))"

lemma memset_in [mem_simps]: "unat (x - a) < n \<Longrightarrow> memset m a v n x = v"
  by (simp add: memset_def)

lemma memset_out [mem_simps]: "n \<le> unat (x - a) \<Longrightarrow> memset m a v n x = m x"
  by (simp add: memset_def)


section \<open>C integers, strings and structures in bytes\<close>

type_synonym bytes = "u8 list"

text \<open>\<open>int\<close> arithmetic wraps at 32 bits.\<close>

definition wrap32 :: "int \<Rightarrow> int" where
  "wrap32 x = signed_take_bit 31 x"

definition str :: "string \<Rightarrow> bytes" where
  "str s = map of_char s"

text \<open>The string a buffer holds: what stands before its first null byte.\<close>

definition cstr :: "bytes \<Rightarrow> bytes" where
  "cstr bs = takeWhile (\<lambda>b. b \<noteq> 0) bs"

text \<open>
  A structure in memory is the list of its bytes; its fields are little-endian numbers in them.
\<close>

definition bytes_at :: "memory \<Rightarrow> u32 \<Rightarrow> nat \<Rightarrow> bytes" where
  "bytes_at m a n = map (\<lambda>i. m (a + of_nat i)) [0..<n]"

definition put_bytes :: "memory \<Rightarrow> u32 \<Rightarrow> bytes \<Rightarrow> memory" where
  "put_bytes m a bs = (\<lambda>x. if unat (x - a) < length bs then bs ! unat (x - a) else m x)"

fun le :: "bytes \<Rightarrow> nat" where
  "le [] = 0"
| "le (b # bs) = unat b + 256 * le bs"

fun le_bytes :: "nat \<Rightarrow> nat \<Rightarrow> bytes" where
  "le_bytes 0 v = []"
| "le_bytes (Suc n) v = of_nat (v mod 256) # le_bytes n (v div 256)"

text \<open>A 32-bit load reads back what a 32-bit store wrote, and sees no store four or more bytes away.\<close>

lemma load32_store32_same [mem_simps]: "load32 (store32 m a v) a = v"
proof (rule bit_word_eqI)
  have ne: "a \<noteq> a + 1" "a \<noteq> a + 2" "a \<noteq> a + 3" "a + 1 \<noteq> a + 2" "a + 1 \<noteq> a + 3" "a + 2 \<noteq> a + 3"
    by simp_all
  fix n :: nat
  assume "n < LENGTH(32)"
  then consider "n < 8" | "8 \<le> n \<and> n < 16" | "16 \<le> n \<and> n < 24" | "24 \<le> n \<and> n < 32"
    by fastforce
  then show "bit (load32 (store32 m a v) a) n \<longleftrightarrow> bit v n"
    unfolding load32_def store32_def using ne
    by cases (auto simp: bit_or_iff bit_push_bit_iff bit_ucast_iff bit_drop_bit_eq)
qed

lemma load32_store32_other [mem_simps]:
  assumes "4 \<le> unat (b - a)" "4 \<le> unat (a - b)"
  shows "load32 (store32 m a v) b = load32 m b"
proof -
  have ne: "b + i \<noteq> a + j" if "i \<in> {0, 1, 2, 3}" "j \<in> {0, 1, 2, 3}" for i j
  proof
    assume "b + i = a + j"
    then have "b - a = j - i" "a - b = i - j" by (simp_all add: algebra_simps)
    with assms that show False by auto
  qed
  show ?thesis
    unfolding load32_def store32_def
    using ne[of 0 0] ne[of 0 1] ne[of 0 2] ne[of 0 3] ne[of 1 0] ne[of 1 1] ne[of 1 2] ne[of 1 3]
      ne[of 2 0] ne[of 2 1] ne[of 2 2] ne[of 2 3] ne[of 3 0] ne[of 3 1] ne[of 3 2] ne[of 3 3]
    by simp
qed

section \<open>Words: the bits of a byte promoted to int, and sums that do not wrap\<close>

text \<open>
  C promotes a \<open>char\<close> to \<open>int\<close> (sign extension on this target) before \<open>&\<close>, \<open>|\<close> and
  \<open>~\<close>, and truncates when the result is stored back. On the eight low bits this is the test, the
  setting and the clearing of one bit.
\<close>

lemma bit_scast_byte:
  "n < 8 \<Longrightarrow> bit (scast (b :: u8) :: u32) n \<longleftrightarrow> bit b n"
  by (cases "n = 7") (auto simp: bit_simps min_def)

lemma byte_test_bit:
  assumes "k < 8"
  shows "(scast (b :: u8) :: u32) AND push_bit k 1 \<noteq> 0 \<longleftrightarrow> bit b k"
proof
  assume "bit b k"
  then have "bit ((scast b :: u32) AND push_bit k 1) k"
    using assms by (simp add: bit_and_iff bit_exp_iff bit_scast_byte)
  then show "(scast b :: u32) AND push_bit k 1 \<noteq> 0" by auto
next
  assume "(scast b :: u32) AND push_bit k 1 \<noteq> 0"
  then obtain n where "bit ((scast b :: u32) AND push_bit k 1) n"
    by (auto simp: bit_eq_iff)
  then have "n = k" and "bit (scast b :: u32) k"
    using assms by (auto simp: bit_and_iff bit_exp_iff)
  then show "bit b k" using assms by (simp add: bit_scast_byte)
qed

lemma byte_set_bit:
  "k < 8 \<Longrightarrow> n < 8 \<Longrightarrow>
    bit (ucast ((scast (b :: u8) :: u32) OR push_bit k 1) :: u8) n \<longleftrightarrow> n = k \<or> bit b n"
  by (auto simp: bit_ucast_iff bit_or_iff bit_exp_iff bit_scast_byte)

lemma byte_clear_bit:
  "k < 8 \<Longrightarrow> n < 8 \<Longrightarrow>
    bit (ucast ((scast (b :: u8) :: u32) AND NOT (push_bit k 1)) :: u8) n \<longleftrightarrow> n \<noteq> k \<and> bit b n"
  by (auto simp: bit_ucast_iff bit_and_iff bit_not_iff bit_exp_iff bit_scast_byte)

lemma unat_add_nowrap [wrap_simps]:
  "unat (a :: u32) + unat b < 2 ^ 32 \<Longrightarrow> unat (a + b) = unat a + unat b"
  by (simp add: unat_word_ariths)

lemma unat_sub_nowrap [wrap_simps]:
  "unat (b :: u32) \<le> unat a \<Longrightarrow> unat (a - b) = unat a - unat b"
  by (simp add: unat_sub word_le_nat_alt)

lemma unat_mult_nowrap [wrap_simps]:
  "unat (a :: u32) * unat b < 2 ^ 32 \<Longrightarrow> unat (a * b) = unat a * unat b"
  by (simp add: unat_word_ariths)

lemma unat_u32_bound: "unat (a :: u32) < 4294967296"
  using unsigned_less [of a] by simp

lemma unat_diff: "unat (x - p) = (if unat p \<le> unat x then unat x - unat p else 4294967296 + unat x - unat p)"
  for x p :: u32
  using unat_sub_if_size [of x p] by (auto simp: word_le_nat_alt word_size)

lemma unat_drop_bit_div: "unat (drop_bit k x) = unat x div 2 ^ k" for x :: u32
proof -
  have "unat (drop_bit k x) = drop_bit k (unat x)" by (rule unat_drop_bit_eq)
  then show ?thesis by (simp only: drop_bit_eq_div)
qed

lemma unat_and_mask: "unat (a AND mask k) = unat a mod 2 ^ k" for a :: u32
proof -
  have "unat (take_bit k a) = take_bit k (unat a)" by (rule unsigned_take_bit_eq)
  then show ?thesis by (simp add: take_bit_eq_mask [symmetric] take_bit_eq_mod)
qed

lemma unat_and_not_mask: "unat (x AND NOT (mask k)) = unat x div 2 ^ k * 2 ^ k" for x :: u32
proof -
  have x: "x AND NOT (mask k) = push_bit k (drop_bit k x)"
    by (rule bit_word_eqI) (auto simp: bit_simps)
  have "unat x div 2 ^ k * 2 ^ k \<le> unat x" by simp
  also have "\<dots> < 2 ^ 32" using unat_u32_bound [of x] by simp
  finally show ?thesis
    unfolding x unsigned_push_bit_eq unat_drop_bit_div by (simp add: push_bit_eq_mult take_bit_nat_eq_self)
qed

lemma page_split:
  fixes x :: nat
  obtains q r where "x = q * 4096 + r" "r < 4096" "x div 4096 = q" "x mod 4096 = r"
  by (rule that [of "x div 4096" "x mod 4096"]) simp_all

end
