(* ===== verification/PageAllocator.thy ===== *)
theory PageAllocator
  imports Prelude
begin

text \<open>
  The contract of a physical page allocator, as the paging code and the kernel heap rely on it:
  an allocation returns the address of a whole page that was not taken and takes it, or \<open>NULL\<close>;
  a release gives exactly that page back. Physical.thy interprets the contract on
  \<open>physical_pageAlloc\<close> and \<open>physical_pageFree\<close>.
\<close>

definition page :: "u32 \<Rightarrow> nat" where
  "page a = unat a div 4096"

lemma page_bound: "page a < 1048576"
  using unat_u32_bound [of a] by (simp add: page_def)

fun alloc_n :: "('s \<Rightarrow> (u32 \<times> 's) option) \<Rightarrow> nat \<Rightarrow> 's \<Rightarrow> (u32 list \<times> 's) option" where
  "alloc_n alloc 0 s = Some ([], s)"
| "alloc_n alloc (Suc n) s =
     Option.bind (alloc s) (\<lambda>(a, s). Option.bind (alloc_n alloc n s) (\<lambda>(as, s). Some (a # as, s)))"

fun free_all :: "(u32 \<Rightarrow> 's \<Rightarrow> 's) \<Rightarrow> u32 list \<Rightarrow> 's \<Rightarrow> 's" where
  "free_all free [] s = s"
| "free_all free (a # as) s = free_all free as (free a s)"

locale page_allocator =
  fixes alloc :: "'s \<Rightarrow> (u32 \<times> 's) option"
    and free :: "u32 \<Rightarrow> 's \<Rightarrow> 's"
    and taken :: "'s \<Rightarrow> nat set"
    and pages :: "'s \<Rightarrow> nat"
    and ok :: "'s \<Rightarrow> bool"
  assumes alloc_total: "ok s \<Longrightarrow> \<exists>a s'. alloc s = Some (a, s')"
    and alloc_ok: "ok s \<Longrightarrow> alloc s = Some (a, s') \<Longrightarrow> ok s' \<and> pages s' = pages s"
    and alloc_page: "ok s \<Longrightarrow> alloc s = Some (a, s') \<Longrightarrow> a \<noteq> NULL \<Longrightarrow>
      unat a mod 4096 = 0 \<and> page a < pages s \<and> page a \<notin> taken s \<and> taken s' = insert (page a) (taken s)"
    and alloc_fail: "ok s \<Longrightarrow> alloc s = Some (a, s') \<Longrightarrow> a = NULL \<Longrightarrow> taken s' = taken s"
    and free_ok: "ok s \<Longrightarrow> ok (free a s) \<and> pages (free a s) = pages s"
    and free_page: "ok s \<Longrightarrow> taken (free a s) = (if a = NULL then taken s else taken s - {page a})"
begin

lemma alloc_n_total: "ok s \<Longrightarrow> \<exists>as s'. alloc_n alloc n s = Some (as, s')"
proof (induction n arbitrary: s)
  case 0
  then show ?case by simp
next
  case (Suc n)
  obtain a s1 where a: "alloc s = Some (a, s1)" using alloc_total [OF Suc.prems] by blast
  then have "ok s1" using alloc_ok Suc.prems by blast
  with Suc.IH obtain as s' where "alloc_n alloc n s1 = Some (as, s')" by blast
  with a show ?case by simp
qed

text \<open>\<open>n\<close> allocations in a row hand out \<open>n\<close> different pages, none of them taken before.\<close>

lemma alloc_n_pages:
  assumes "ok s" "alloc_n alloc n s = Some (as, s')"
  shows "ok s' \<and> pages s' = pages s \<and> length as = n
    \<and> distinct (map page (filter (\<lambda>a. a \<noteq> NULL) as))
    \<and> page ` {a \<in> set as. a \<noteq> NULL} \<inter> taken s = {}
    \<and> taken s' = taken s \<union> page ` {a \<in> set as. a \<noteq> NULL}"
  using assms
proof (induction n arbitrary: s as)
  case 0
  then show ?case by simp
next
  case (Suc n)
  from Suc.prems(2) obtain a s1 bs where
    a: "alloc s = Some (a, s1)" and bs: "alloc_n alloc n s1 = Some (bs, s')" and as: "as = a # bs"
    by (auto split: Option.bind_splits)
  have ok1: "ok s1" "pages s1 = pages s" using alloc_ok Suc.prems(1) a by blast+
  note IH = Suc.IH [OF ok1(1) bs]
  show ?case
  proof (cases "a = NULL")
    case True
    have "{x. (x = a \<or> x \<in> set bs) \<and> x \<noteq> NULL} = {x \<in> set bs. x \<noteq> NULL}" using True by auto
    then show ?thesis using True IH ok1 as alloc_fail [OF Suc.prems(1) a True] by simp
  next
    case False
    have "{x. (x = a \<or> x \<in> set bs) \<and> x \<noteq> NULL} = insert a {x \<in> set bs. x \<noteq> NULL}" using False by auto
    then show ?thesis using False IH ok1 as alloc_page [OF Suc.prems(1) a False] by auto
  qed
qed

lemma free_all_pages:
  "ok s \<Longrightarrow> ok (free_all free as s)
    \<and> taken (free_all free as s) = taken s - page ` {a \<in> set as. a \<noteq> NULL}"
proof (induction as arbitrary: s)
  case Nil
  then show ?case by simp
next
  case (Cons a as)
  have "{x. (x = a \<or> x \<in> set as) \<and> x \<noteq> NULL} = (if a = NULL then {} else {a}) \<union> {x \<in> set as. x \<noteq> NULL}"
    by auto
  with Cons.IH [of "free a s"] free_ok [OF Cons.prems, of a] free_page [OF Cons.prems, of a]
  show ?case by auto
qed

text \<open>Giving back what was handed out restores the taken pages.\<close>

lemma alloc_free_restores:
  assumes "ok s" "alloc_n alloc n s = Some (as, s')"
  shows "taken (free_all free as s') = taken s"
  using alloc_n_pages [OF assms] free_all_pages [of s' as] by auto

end

end
