(* ===== verification/Physical.thy ===== *)
theory Physical
  imports PageAllocator
begin

text \<open>
  The physical page allocator: MimicOS/src/kernel/mm/physical.c with the macros and constants of
  MimicOS/include/kernel/mm/physical.h and the boot information of
  MimicOS/include/kernel/multiboot.h. First the code's state and operations, then the abstract
  set of taken pages, the reference allocator and the lemmas that relate them.
\<close>

section \<open>The model\<close>

definition SIZE_4KB :: u32 where "SIZE_4KB = 4096"
definition SIZE_1KB :: u32 where "SIZE_1KB = 1024"
definition PHYSICAL_HIGH_PADDRESS :: u32 where "PHYSICAL_HIGH_PADDRESS = 0x01000000"
definition PHYSICAL_LOW_PADDRESS :: u32 where "PHYSICAL_LOW_PADDRESS = NULL + SIZE_4KB"
definition KERNEL_VGA_PADDRESS :: u32 where "KERNEL_VGA_PADDRESS = 0x000B8000"

definition BITMAP_BYTE_INDEX :: "u32 \<Rightarrow> u32" where
  "BITMAP_BYTE_INDEX address = address div SIZE_4KB div 8"

definition BITMAP_BIT_INDEX :: "u32 \<Rightarrow> u32" where
  "BITMAP_BIT_INDEX address = 8 - (address div SIZE_4KB) mod 8 - 1"

text \<open>
  The globals of physical.c. The bitmap is memory at the address \<open>physical_bitmap\<close>, as in C: an
  index beyond its size reads or writes whatever lies there. \<open>physical_bitmapSize\<close> is an \<open>int\<close>
  that is never negative; it is kept as a word.
\<close>

record phys =
  ph_mem :: memory
  physical_bitmap :: u32
  physical_bitmapSize :: u32
  physical_maxAddress :: u32
  ph_log :: "event list"

definition emit :: "event \<Rightarrow> phys \<Rightarrow> phys" where
  "emit e s = s\<lparr>ph_log := ph_log s @ [e]\<rparr>"

definition bitmap_at :: "phys \<Rightarrow> u32 \<Rightarrow> u32" where
  "bitmap_at s a = scast (ph_mem s (physical_bitmap s + BITMAP_BYTE_INDEX a))"

definition bitmap_put :: "phys \<Rightarrow> u32 \<Rightarrow> u32 \<Rightarrow> phys" where
  "bitmap_put s a v = s\<lparr>ph_mem := (ph_mem s)(physical_bitmap s + BITMAP_BYTE_INDEX a := ucast v)\<rparr>"

definition physical_pageAllocAddress :: "u32 \<Rightarrow> phys \<Rightarrow> phys" where
  "physical_pageAllocAddress a s =
     bitmap_put s a (bitmap_at s a OR push_bit (unat (BITMAP_BIT_INDEX a)) 1)"

definition physical_isPageFree :: "phys \<Rightarrow> u32 \<Rightarrow> int" where
  "physical_isPageFree s physicalAddress =
     (if bitmap_at s physicalAddress AND push_bit (unat (BITMAP_BIT_INDEX physicalAddress)) 1 \<noteq> 0
      then FAIL else SUCCESS)"

definition physical_getBitmapSize :: "phys \<Rightarrow> u32" where
  "physical_getBitmapSize s = physical_bitmapSize s"

text \<open>
  The search loop. \<open>low\<close> is a 32-bit pointer that wraps, so the loop may not end for a \<open>high\<close>
  in the last page; not returning is \<^term>\<open>None\<close>.
\<close>

partial_function (option) physical_pageAllocLimit :: "u32 \<Rightarrow> u32 \<Rightarrow> phys \<Rightarrow> (u32 \<times> phys) option" where
  "physical_pageAllocLimit low high s =
     (if low < high then
        if physical_isPageFree s low = SUCCESS
        then Some (low, physical_pageAllocAddress low s)
        else physical_pageAllocLimit (low + SIZE_4KB) high s
      else Some (NULL, s))"

definition physical_pageAllocHigh :: "phys \<Rightarrow> (u32 \<times> phys) option" where
  "physical_pageAllocHigh s =
     (let s = emit (mutex_lock physical_bitmapLock) s in
      map_option (\<lambda>(a, s). (a, emit (mutex_unlock physical_bitmapLock) s))
        (if physical_maxAddress s > PHYSICAL_HIGH_PADDRESS
         then physical_pageAllocLimit PHYSICAL_HIGH_PADDRESS (physical_maxAddress s) s
         else Some (NULL, s)))"

definition physical_pageAllocLow :: "phys \<Rightarrow> (u32 \<times> phys) option" where
  "physical_pageAllocLow s =
     (let s = emit (mutex_lock physical_bitmapLock) s in
      map_option (\<lambda>(a, s). (a, emit (mutex_unlock physical_bitmapLock) s))
        (if PHYSICAL_HIGH_PADDRESS > physical_maxAddress s
         then physical_pageAllocLimit PHYSICAL_LOW_PADDRESS (physical_maxAddress s) s
         else physical_pageAllocLimit PHYSICAL_LOW_PADDRESS PHYSICAL_HIGH_PADDRESS s))"

definition physical_pageAlloc :: "phys \<Rightarrow> (u32 \<times> phys) option" where
  "physical_pageAlloc s =
     Option.bind (physical_pageAllocHigh s) (\<lambda>(a, s).
     Option.bind (if a = NULL then physical_pageAllocLow s else Some (a, s)) (\<lambda>(a, s).
     Some (a, if a = NULL then emit (kernel_panic ''No more physical memory available.'') s else s)))"

definition physical_pageFree :: "u32 \<Rightarrow> phys \<Rightarrow> phys" where
  "physical_pageFree physicalAddress s =
     (let s = emit (mutex_lock physical_bitmapLock) s;
          s = (if physicalAddress \<noteq> NULL \<and> physicalAddress < physical_maxAddress s
               then bitmap_put s physicalAddress (bitmap_at s physicalAddress
                      AND NOT (push_bit (unat (BITMAP_BIT_INDEX physicalAddress)) 1))
               else s)
      in emit (mutex_unlock physical_bitmapLock) s)"

text \<open>
  \<open>physical_init\<close>. The boot loader's memory map is a chain of entries in memory; each entry's
  \<open>size\<close> field gives the distance to the next one, so the chain is read from memory, by 32-bit
  loads, as the code walks it. \<open>start\<close> and \<open>end\<close> are the linker's symbols, parameters here.
\<close>

definition MULTIBOOT_FLAG_MEM :: u32 where "MULTIBOOT_FLAG_MEM = 1"
definition MULTIBOOT_FLAG_MMAP :: u32 where "MULTIBOOT_FLAG_MMAP = 32"
definition MULTIBOOT_MMAP_AVAILABLE :: u32 where "MULTIBOOT_MMAP_AVAILABLE = 1"

record multiboot_info =
  mb_flags :: u32
  mb_mem_lower :: u32
  mb_mem_upper :: u32
  mb_mmap_length :: u32
  mb_mmap :: u32

record multiboot_memory_map =
  map_size :: u32
  map_base_low :: u32
  map_base_high :: u32
  map_length_low :: u32
  map_length_high :: u32
  map_type :: u32

definition read_mmap :: "memory \<Rightarrow> u32 \<Rightarrow> multiboot_memory_map" where
  "read_mmap m a = \<lparr>map_size = load32 m a, map_base_low = load32 m (a + 4),
     map_base_high = load32 m (a + 8), map_length_low = load32 m (a + 12),
     map_length_high = load32 m (a + 16), map_type = load32 m (a + 20)\<rparr>"

definition V2P :: "u32 \<Rightarrow> u32" where
  "V2P address = address - 0xC0001000 + 0x00101000"

partial_function (option) init_free_region :: "u32 \<Rightarrow> u32 \<Rightarrow> phys \<Rightarrow> phys option" where
  "init_free_region physicalAddress stop s =
     (if physicalAddress < stop
      then init_free_region (physicalAddress + SIZE_4KB) stop (physical_pageFree physicalAddress s)
      else Some s)"

partial_function (option) init_mmap_loop :: "u32 \<Rightarrow> u32 \<Rightarrow> phys \<Rightarrow> phys option" where
  "init_mmap_loop mmap stop s =
     (if mmap < stop then
        Option.bind
          (if map_type (read_mmap (ph_mem s) mmap) = MULTIBOOT_MMAP_AVAILABLE
           then init_free_region (map_base_low (read_mmap (ph_mem s) mmap))
                  (map_base_low (read_mmap (ph_mem s) mmap) + map_length_low (read_mmap (ph_mem s) mmap)) s
           else Some s)
          (\<lambda>s. init_mmap_loop (mmap + map_size (read_mmap (ph_mem s) mmap) + 4) stop s)
      else Some s)"

partial_function (option) init_reserve :: "u32 \<Rightarrow> u32 \<Rightarrow> phys \<Rightarrow> phys option" where
  "init_reserve physicalAddress stop s =
     (if physicalAddress < stop
      then init_reserve (physicalAddress + SIZE_4KB) stop (physical_pageAllocAddress physicalAddress s)
      else Some s)"

definition physical_init :: "u32 \<Rightarrow> u32 \<Rightarrow> multiboot_info \<Rightarrow> phys \<Rightarrow> (int \<times> phys) option" where
  "physical_init start_sym end_sym m s =
     (let s = emit (mutex_init physical_bitmapLock) s in
      if mb_flags m AND MULTIBOOT_FLAG_MEM \<noteq> MULTIBOOT_FLAG_MEM then Some (FAIL, s)
      else
        let s = s\<lparr>physical_bitmapSize := (mb_mem_upper m div SIZE_1KB + 1) * 256 div 8\<rparr>;
            s = s\<lparr>physical_maxAddress := SIZE_1KB * SIZE_1KB * (mb_mem_upper m div SIZE_1KB + 1)\<rparr>;
            s = s\<lparr>physical_bitmap := end_sym\<rparr>;
            s = s\<lparr>ph_mem := memset (ph_mem s) (physical_bitmap s) 0x00 (unat (physical_bitmapSize s))\<rparr>
        in Option.bind
          (if mb_flags m AND MULTIBOOT_FLAG_MMAP = MULTIBOOT_FLAG_MMAP
           then init_mmap_loop (mb_mmap m) (mb_mmap m + mb_mmap_length m)
                  (s\<lparr>ph_mem := memset (ph_mem s) (physical_bitmap s) 0xFF (unat (physical_bitmapSize s))\<rparr>)
           else Some (physical_pageAllocAddress KERNEL_VGA_PADDRESS s))
          (\<lambda>s. Option.bind (init_reserve (V2P start_sym) (V2P end_sym + physical_bitmapSize s) s)
          (\<lambda>s. Some (SUCCESS, s))))"

section \<open>Pages and the abstract set of taken pages\<close>

definition page_addr :: "nat \<Rightarrow> u32" where
  "page_addr p = of_nat (p * 4096)"

definition page_bit :: "phys \<Rightarrow> nat \<Rightarrow> bool" where
  "page_bit s p \<longleftrightarrow> bit (ph_mem s (physical_bitmap s + of_nat (p div 8))) (7 - p mod 8)"

definition npages :: "phys \<Rightarrow> nat" where
  "npages s = unat (physical_maxAddress s) div 4096"

definition taken :: "phys \<Rightarrow> nat set" where
  "taken s = {p. p < npages s \<and> page_bit s p}"

definition phys_ok :: "phys \<Rightarrow> bool" where
  "phys_ok s \<longleftrightarrow> unat (physical_maxAddress s) = unat (physical_bitmapSize s) * 32768"

lemma unat_page_addr: "p < 1048576 \<Longrightarrow> unat (page_addr p) = p * 4096"
  unfolding page_addr_def by (subst unat_of_nat) simp

lemma page_page_addr [simp]: "p < 1048576 \<Longrightarrow> page (page_addr p) = p"
  by (simp add: page_def unat_page_addr)

lemma page_addr_page: "unat a mod 4096 = 0 \<Longrightarrow> page_addr (page a) = a"
proof -
  assume "unat a mod 4096 = 0"
  then have "page a * 4096 = unat a" unfolding page_def by auto
  then show ?thesis by (simp add: page_addr_def del: of_nat_mult)
qed

lemma byte_index_page: "BITMAP_BYTE_INDEX a = of_nat (page a div 8)"
proof -
  have "unat a div 4096 div 8 < 2 ^ 32" using unat_u32_bound [of a] by simp
  then show ?thesis
    by (simp add: word_unat_eq_iff BITMAP_BYTE_INDEX_def SIZE_4KB_def page_def unat_div unat_of_nat
        del: unsigned_of_nat)
qed

lemma bit_index_page: "unat (BITMAP_BIT_INDEX a) = 7 - page a mod 8"
proof -
  have m: "unat ((a div SIZE_4KB) mod 8) = page a mod 8"
    by (simp add: SIZE_4KB_def page_def unat_div unat_mod)
  have le: "unat ((a div SIZE_4KB) mod 8) \<le> unat (8 :: u32)" unfolding m by simp
  have "unat (8 - (a div SIZE_4KB) mod 8) = 8 - page a mod 8"
    using m le by (simp add: unat_sub_nowrap)
  then show ?thesis unfolding BITMAP_BIT_INDEX_def
    by (subst unat_sub_nowrap) (simp_all add: m mod_less_eq_dividend Suc_leI)
qed

lemma byte_index_inject:
  "p < 1048576 \<Longrightarrow> q < 1048576 \<Longrightarrow> of_nat (p div 8) = (of_nat (q div 8) :: u32) \<longleftrightarrow> p div 8 = q div 8"
  by (auto simp: word_of_nat_eq_iff take_bit_nat_eq_self)

lemma byte_bit_inject:
  fixes p q :: nat
  assumes "p div 8 = q div 8"
  shows "7 - p mod 8 = 7 - q mod 8 \<longleftrightarrow> p = q"
proof
  assume "7 - p mod 8 = 7 - q mod 8"
  moreover have "p mod 8 < 8" "q mod 8 < 8" by simp_all
  ultimately have "p mod 8 = q mod 8" by linarith
  with assms show "p = q" by (metis div_mult_mod_eq)
qed simp

lemma isPageFree_page:
  "physical_isPageFree s a = SUCCESS \<longleftrightarrow> \<not> page_bit s (page a)"
  by (simp add: physical_isPageFree_def bitmap_at_def byte_index_page bit_index_page byte_test_bit page_bit_def del: push_bit_of_1)

lemma page_bit_alloc:
  "p < 1048576 \<Longrightarrow> page_bit (physical_pageAllocAddress a s) p \<longleftrightarrow> p = page a \<or> page_bit s p"
  using page_bound [of a] byte_bit_inject [of p "page a"]
  by (auto simp: page_bit_def physical_pageAllocAddress_def bitmap_put_def bitmap_at_def
      byte_index_page bit_index_page byte_set_bit byte_index_inject simp del: push_bit_of_1)


lemma page_bit_cong:
  "ph_mem s = ph_mem t \<Longrightarrow> physical_bitmap s = physical_bitmap t \<Longrightarrow> page_bit s p = page_bit t p"
  by (simp add: page_bit_def)

lemma bitmap_put_frame [simp]:
  "physical_bitmap (bitmap_put s a v) = physical_bitmap s"
  "physical_bitmapSize (bitmap_put s a v) = physical_bitmapSize s"
  "physical_maxAddress (bitmap_put s a v) = physical_maxAddress s"
  "ph_log (bitmap_put s a v) = ph_log s"
  by (simp_all add: bitmap_put_def)

lemma pageFree_mem:
  "ph_mem (physical_pageFree a s) =
     (if a \<noteq> NULL \<and> a < physical_maxAddress s
      then ph_mem (bitmap_put s a (bitmap_at s a AND NOT (push_bit (unat (BITMAP_BIT_INDEX a)) 1)))
      else ph_mem s)"
  by (simp add: physical_pageFree_def emit_def Let_def bitmap_put_def bitmap_at_def)

lemma pageFree_frame [simp]:
  "physical_bitmap (physical_pageFree a s) = physical_bitmap s"
  "physical_bitmapSize (physical_pageFree a s) = physical_bitmapSize s"
  "physical_maxAddress (physical_pageFree a s) = physical_maxAddress s"
  "ph_log (physical_pageFree a s) =
     ph_log s @ [mutex_lock physical_bitmapLock, mutex_unlock physical_bitmapLock]"
  by (simp_all add: physical_pageFree_def emit_def Let_def bitmap_put_def)

lemma page_bit_clear:
  "p < 1048576 \<Longrightarrow>
    page_bit (bitmap_put s a (bitmap_at s a AND NOT (push_bit (unat (BITMAP_BIT_INDEX a)) 1))) p
    \<longleftrightarrow> p \<noteq> page a \<and> page_bit s p"
  using page_bound [of a] byte_bit_inject [of p "page a"]
  by (auto simp: page_bit_def bitmap_put_def bitmap_at_def
      byte_index_page bit_index_page byte_clear_bit byte_index_inject simp del: push_bit_of_1)

lemma page_bit_free:
  "p < 1048576 \<Longrightarrow> page_bit (physical_pageFree a s) p \<longleftrightarrow>
     page_bit s p \<and> \<not> (p = page a \<and> a \<noteq> NULL \<and> a < physical_maxAddress s)"
proof -
  assume p: "p < 1048576"
  show ?thesis
  proof (cases "a \<noteq> NULL \<and> a < physical_maxAddress s")
    case True
    let ?t = "bitmap_put s a (bitmap_at s a AND NOT (push_bit (unat (BITMAP_BIT_INDEX a)) 1))"
    have "page_bit (physical_pageFree a s) p = page_bit ?t p"
      using True by (intro page_bit_cong) (simp_all add: pageFree_mem del: push_bit_of_1)
    then show ?thesis using True page_bit_clear [OF p, of s a] by metis
  next
    case False
    then have "page_bit (physical_pageFree a s) p = page_bit s p"
      by (intro page_bit_cong) (auto simp: pageFree_mem simp del: push_bit_of_1)
    then show ?thesis using False by metis
  qed
qed

lemma npages_bound: "npages s < 1048576"
  using unat_u32_bound [of "physical_maxAddress s"] by (simp add: npages_def)

lemma low_step:
  assumes "unat low mod 4096 = 0" "unat high mod 4096 = 0" "low < high"
  shows "unat (low + SIZE_4KB) = unat low + 4096" "page (low + SIZE_4KB) = Suc (page low)"
    "page low < page high" "unat (low + SIZE_4KB) mod 4096 = 0"
proof -
  have l: "unat low = page low * 4096" and h: "unat high = page high * 4096"
    using assms(1,2) unfolding page_def by auto
  show lt: "page low < page high" using assms(3) l h by (simp add: word_less_nat_alt)
  have "unat low + 4096 < 2 ^ 32" using lt l page_bound [of high] by simp
  then show u: "unat (low + SIZE_4KB) = unat low + 4096"
    by (simp add: SIZE_4KB_def unat_add_nowrap)
  show "page (low + SIZE_4KB) = Suc (page low)" by (simp add: page_def u)
  show "unat (low + SIZE_4KB) mod 4096 = 0" using assms(1) u by simp
qed

text \<open>
  The reference allocator: the first free page of an interval.
\<close>

definition first_free :: "phys \<Rightarrow> nat \<Rightarrow> nat \<Rightarrow> nat option" where
  "first_free s lo hi = find (\<lambda>p. \<not> page_bit s p) [lo..<hi]"

definition alloc_spec :: "phys \<Rightarrow> nat option \<Rightarrow> u32 \<times> phys" where
  "alloc_spec s r = (case r of None \<Rightarrow> (NULL, s)
     | Some p \<Rightarrow> (page_addr p, physical_pageAllocAddress (page_addr p) s))"

lemma pageAllocLimit_first_free:
  assumes "unat low mod 4096 = 0" "unat high mod 4096 = 0"
  shows "physical_pageAllocLimit low high s = Some (alloc_spec s (first_free s (page low) (page high)))"
  using assms
proof (induction "page high - page low" arbitrary: low)
  case 0
  then have "\<not> low < high" using low_step(3) by (metis less_not_refl2 zero_less_diff)
  with 0 show ?case
    by (subst physical_pageAllocLimit.simps) (simp add: first_free_def alloc_spec_def)
next
  case (Suc n)
  have lt: "low < high" using Suc.hyps(2) Suc.prems
    by (metis diff_is_0_eq div_le_mono leI nat.distinct(1) page_def word_le_nat_alt)
  note st = low_step [OF Suc.prems lt]
  have up: "[page low..<page high] = page low # [Suc (page low)..<page high]"
    using st(3) by (rule upt_conv_Cons)
  have IH: "physical_pageAllocLimit (low + SIZE_4KB) high s =
      Some (alloc_spec s (first_free s (Suc (page low)) (page high)))"
    using Suc.hyps(1)[of "low + SIZE_4KB"] Suc.hyps(2) Suc.prems st by simp
  show ?case
    using lt up IH page_addr_page [OF Suc.prems(1)]
    by (subst physical_pageAllocLimit.simps) (simp add: isPageFree_page first_free_def alloc_spec_def)
qed

section \<open>What an allocation and a release do to the taken pages\<close>

lemma alloc_frame [simp]:
  "physical_bitmap (physical_pageAllocAddress a s) = physical_bitmap s"
  "physical_bitmapSize (physical_pageAllocAddress a s) = physical_bitmapSize s"
  "physical_maxAddress (physical_pageAllocAddress a s) = physical_maxAddress s"
  "ph_log (physical_pageAllocAddress a s) = ph_log s"
  by (simp_all add: physical_pageAllocAddress_def)

lemma emit_frame [simp]:
  "ph_mem (emit e s) = ph_mem s"
  "physical_bitmap (emit e s) = physical_bitmap s"
  "physical_bitmapSize (emit e s) = physical_bitmapSize s"
  "physical_maxAddress (emit e s) = physical_maxAddress s"
  "ph_log (emit e s) = ph_log s @ [e]"
  by (simp_all add: emit_def)

lemma emit_abs [simp]:
  "page_bit (emit e s) p = page_bit s p" "npages (emit e s) = npages s"
  "taken (emit e s) = taken s" "phys_ok (emit e s) = phys_ok s"
  "first_free (emit e s) = first_free s"
  by (simp_all add: page_bit_def npages_def taken_def phys_ok_def first_free_def fun_eq_iff)

lemma npages_frame [simp]:
  "npages (physical_pageAllocAddress a s) = npages s" "npages (physical_pageFree a s) = npages s"
  "phys_ok (physical_pageAllocAddress a s) = phys_ok s" "phys_ok (physical_pageFree a s) = phys_ok s"
  by (simp_all add: npages_def phys_ok_def)

lemma taken_alloc:
  "page a < npages s \<Longrightarrow> taken (physical_pageAllocAddress a s) = insert (page a) (taken s)"
  using npages_bound [of s] by (auto simp: taken_def page_bit_alloc)

lemma phys_ok_max:
  assumes "phys_ok s"
  shows "unat (physical_maxAddress s) = npages s * 4096"
    and "unat (physical_maxAddress s) mod 4096 = 0"
    and "page (physical_maxAddress s) = npages s"
    and "npages s = unat (physical_bitmapSize s) * 8"
  using assms by (simp_all add: phys_ok_def npages_def page_def)

lemma below_max: "phys_ok s \<Longrightarrow> a < physical_maxAddress s \<longleftrightarrow> page a < npages s"
  using phys_ok_max(1) [of s] by (simp add: word_less_nat_alt page_def less_mult_imp_div_less div_less_iff_less_mult)

lemma taken_free:
  assumes "phys_ok s"
  shows "taken (physical_pageFree a s) = (if a = NULL then taken s else taken s - {page a})"
  using npages_bound [of s] below_max [OF assms, of a] by (auto simp: taken_def page_bit_free)

text \<open>The page \<open>physical_pageAlloc\<close> chooses: the first free one above 16 MB, else below.\<close>

definition pick_page :: "phys \<Rightarrow> nat option" where
  "pick_page s =
     (case (if npages s > 4096 then first_free s 4096 (npages s) else None) of
        Some p \<Rightarrow> Some p
      | None \<Rightarrow> first_free s 1 (min 4096 (npages s)))"

lemma first_free_Some:
  "first_free s lo hi = Some p \<longleftrightarrow>
     lo \<le> p \<and> p < hi \<and> \<not> page_bit s p \<and> (\<forall>q. lo \<le> q \<and> q < p \<longrightarrow> page_bit s q)"
  (is "?L \<longleftrightarrow> ?R")
proof
  assume ?L
  then obtain i where i: "i < length [lo..<hi]" "\<not> page_bit s ([lo..<hi] ! i)" "p = [lo..<hi] ! i"
    "\<forall>j<i. page_bit s ([lo..<hi] ! j)"
    by (auto simp: first_free_def find_Some_iff)
  have "page_bit s q" if "lo \<le> q" "q < p" for q
    using i(1,3) i(4)[rule_format, of "q - lo"] that by simp
  with i show ?R by auto
next
  assume R: ?R
  then show ?L
    unfolding first_free_def find_Some_iff
    by (intro exI [of _ "p - lo"]) (use R in auto)
qed

lemma first_free_None:
  "first_free s lo hi = None \<longleftrightarrow> (\<forall>q. lo \<le> q \<and> q < hi \<longrightarrow> page_bit s q)"
  by (auto simp: first_free_def find_None_iff)

lemma high_pages:
  "page PHYSICAL_HIGH_PADDRESS = 4096" "unat PHYSICAL_HIGH_PADDRESS mod 4096 = 0"
  "page PHYSICAL_LOW_PADDRESS = 1" "unat PHYSICAL_LOW_PADDRESS mod 4096 = 0"
  by (simp_all add: page_def PHYSICAL_HIGH_PADDRESS_def PHYSICAL_LOW_PADDRESS_def SIZE_4KB_def)

lemma high_compare:
  assumes "phys_ok s"
  shows "PHYSICAL_HIGH_PADDRESS < physical_maxAddress s \<longleftrightarrow> 4096 < npages s"
    "physical_maxAddress s < PHYSICAL_HIGH_PADDRESS \<longleftrightarrow> npages s < 4096"
  using phys_ok_max(1) [OF assms] by (simp_all add: word_less_nat_alt PHYSICAL_HIGH_PADDRESS_def)


lemma pageAllocHigh_eq:
  assumes "phys_ok s"
  shows "physical_pageAllocHigh s = Some (map_prod id (emit (mutex_unlock physical_bitmapLock))
    (alloc_spec (emit (mutex_lock physical_bitmapLock) s)
       (if npages s > 4096 then first_free s 4096 (npages s) else None)))"
  using assms high_pages phys_ok_max(2,3) [OF assms]
  by (simp add: physical_pageAllocHigh_def high_compare pageAllocLimit_first_free Let_def
      alloc_spec_def map_prod_def split: prod.splits option.splits)

lemma pageAllocLow_eq:
  assumes "phys_ok s"
  shows "physical_pageAllocLow s = Some (map_prod id (emit (mutex_unlock physical_bitmapLock))
    (alloc_spec (emit (mutex_lock physical_bitmapLock) s) (first_free s 1 (min 4096 (npages s)))))"
  using assms high_pages phys_ok_max(2,3) [OF assms]
  by (auto simp: physical_pageAllocLow_def high_compare pageAllocLimit_first_free Let_def
      alloc_spec_def map_prod_def min_def split: prod.splits option.splits)

text \<open>The whole operation in terms of the choice, with the log it leaves.\<close>

definition alloc_log :: "phys \<Rightarrow> event list" where
  "alloc_log s =
     (let lu = [mutex_lock physical_bitmapLock, mutex_unlock physical_bitmapLock] in
      case pick_page s of
        None \<Rightarrow> lu @ lu @ [kernel_panic ''No more physical memory available.'']
      | Some p \<Rightarrow> (if 4096 \<le> p then lu else lu @ lu))"

lemma page_addr_nz: "0 < p \<Longrightarrow> p < 1048576 \<Longrightarrow> page_addr p \<noteq> NULL"
  using unat_page_addr [of p] by auto

lemma pageAlloc_eq:
  assumes "phys_ok s"
  shows "physical_pageAlloc s = Some (case pick_page s of
      None \<Rightarrow> (NULL, s\<lparr>ph_log := ph_log s @ alloc_log s\<rparr>)
    | Some p \<Rightarrow> (page_addr p, (physical_pageAllocAddress (page_addr p) s)\<lparr>ph_log := ph_log s @ alloc_log s\<rparr>))"
proof (cases "if npages s > 4096 then first_free s 4096 (npages s) else None")
  case (Some p)
  then have p: "4096 \<le> p" "p < npages s" by (auto simp: first_free_Some split: if_splits)
  then have "page_addr p \<noteq> NULL" using npages_bound [of s] by (intro page_addr_nz) auto
  with Some p show ?thesis
    by (simp add: physical_pageAlloc_def pageAllocHigh_eq assms alloc_spec_def pick_page_def alloc_log_def
        emit_def physical_pageAllocAddress_def bitmap_put_def bitmap_at_def)
next
  case None
  let ?t = "s\<lparr>ph_log := ph_log s @ [mutex_lock physical_bitmapLock, mutex_unlock physical_bitmapLock]\<rparr>"
  have t: "phys_ok ?t" "npages ?t = npages s" "first_free ?t = first_free s"
    using assms by (simp_all add: phys_ok_def npages_def first_free_def page_bit_def fun_eq_iff)
  show ?thesis
  proof (cases "first_free s 1 (min 4096 (npages s))")
    case (Some p)
    then have p: "1 \<le> p" "p < 4096" by (auto simp: first_free_Some)
    then have "page_addr p \<noteq> NULL" by (intro page_addr_nz) auto
    with None Some p t show ?thesis
      by (simp add: physical_pageAlloc_def pageAllocHigh_eq pageAllocLow_eq assms alloc_spec_def pick_page_def alloc_log_def
        emit_def physical_pageAllocAddress_def bitmap_put_def bitmap_at_def)
  next
    case None
    with \<open>(if npages s > 4096 then _ else None) = None\<close> t show ?thesis
      by (simp add: physical_pageAlloc_def pageAllocHigh_eq pageAllocLow_eq assms alloc_spec_def pick_page_def alloc_log_def
        emit_def)
  qed
qed

section \<open>The allocator meets its contract\<close>

lemma pick_page_Some:
  assumes "pick_page s = Some p"
  shows "0 < p" "p < npages s" "\<not> page_bit s p"
    "\<And>q. 4096 \<le> q \<Longrightarrow> q < npages s \<Longrightarrow> p < 4096 \<or> q < p \<Longrightarrow> page_bit s q"
    "\<And>q. 0 < q \<Longrightarrow> q < p \<Longrightarrow> p < 4096 \<Longrightarrow> page_bit s q"
  using assms
  by (auto simp: pick_page_def first_free_Some first_free_None split: option.splits if_splits)

lemma pick_page_None:
  "pick_page s = None \<longleftrightarrow> (\<forall>q. 0 < q \<and> q < npages s \<longrightarrow> page_bit s q)"
  (is "?L \<longleftrightarrow> ?R")
proof -
  have "?L \<longleftrightarrow> (4096 < npages s \<longrightarrow> first_free s 4096 (npages s) = None) \<and>
      first_free s 1 (min 4096 (npages s)) = None"
    by (simp add: pick_page_def split: option.splits)
  also have "\<dots> \<longleftrightarrow> (4096 < npages s \<longrightarrow> (\<forall>q. 4096 \<le> q \<and> q < npages s \<longrightarrow> page_bit s q)) \<and>
      (\<forall>q. 1 \<le> q \<and> q < min 4096 (npages s) \<longrightarrow> page_bit s q)"
    by (simp only: first_free_None)
  also have "\<dots> \<longleftrightarrow> ?R"
  proof (intro iffI conjI impI allI; (elim conjE)?)
    fix q
    assume hi: "4096 < npages s \<longrightarrow> (\<forall>q. 4096 \<le> q \<and> q < npages s \<longrightarrow> page_bit s q)"
      and lo: "\<forall>q. 1 \<le> q \<and> q < min 4096 (npages s) \<longrightarrow> page_bit s q"
      and q: "0 < q" "q < npages s"
    show "page_bit s q"
    proof (cases "q < 4096")
      case True
      with lo q show ?thesis by simp
    next
      case False
      with hi q show ?thesis by simp
    qed
  qed auto
  finally show ?thesis .
qed

lemma pageAlloc_result:
  assumes "phys_ok s" "physical_pageAlloc s = Some (a, s')"
  shows "phys_ok s' \<and> npages s' = npages s"
    and "a \<noteq> NULL \<Longrightarrow> pick_page s = Some (page a) \<and> a = page_addr (page a)
           \<and> taken s' = insert (page a) (taken s)"
    and "a = NULL \<Longrightarrow> pick_page s = None \<and> taken s' = taken s"
proof -
  have ext: "phys_ok (t\<lparr>ph_log := l\<rparr>) = phys_ok t" "npages (t\<lparr>ph_log := l\<rparr>) = npages t"
    "taken (t\<lparr>ph_log := l\<rparr>) = taken t" for t l
    by (simp_all add: phys_ok_def npages_def taken_def page_bit_def)
  show "phys_ok s' \<and> npages s' = npages s"
    using assms pageAlloc_eq [OF assms(1)] by (auto simp: ext split: option.splits)
  have nz: "page_addr p \<noteq> NULL" if "pick_page s = Some p" for p
    using pick_page_Some(1,2) [OF that] npages_bound [of s] by (intro page_addr_nz) auto
  then show "a = NULL \<Longrightarrow> pick_page s = None \<and> taken s' = taken s"
    using assms pageAlloc_eq [OF assms(1)] by (auto simp: ext split: option.splits)
  show "a \<noteq> NULL \<Longrightarrow> pick_page s = Some (page a) \<and> a = page_addr (page a)
           \<and> taken s' = insert (page a) (taken s)"
    using assms pageAlloc_eq [OF assms(1)] npages_bound [of s]
    by (auto simp: ext taken_alloc split: option.splits dest: pick_page_Some(2))
qed

interpretation phys_alloc: page_allocator physical_pageAlloc physical_pageFree taken npages phys_ok
proof
  fix s a s'
  assume ok: "phys_ok s"
  show "\<exists>a s'. physical_pageAlloc s = Some (a, s')"
    using pageAlloc_eq [OF ok] by (auto split: option.splits)
  assume al: "physical_pageAlloc s = Some (a, s')"
  show "phys_ok s' \<and> npages s' = npages s" by (rule pageAlloc_result(1) [OF ok al])
  show "a = NULL \<Longrightarrow> taken s' = taken s" using pageAlloc_result(3) [OF ok al] by blast
  assume nz: "a \<noteq> NULL"
  note r = pageAlloc_result(2) [OF ok al nz]
  then have "page a < npages s" "\<not> page_bit s (page a)" by (auto dest: pick_page_Some(2,3))
  moreover have "unat a mod 4096 = 0"
    using r unat_page_addr [of "page a"] page_bound [of a] by (metis mod_mult_self2_is_0)
  ultimately show "unat a mod 4096 = 0 \<and> page a < npages s \<and> page a \<notin> taken s
      \<and> taken s' = insert (page a) (taken s)"
    using r by (simp add: taken_def)
next
  fix s a
  assume ok: "phys_ok s"
  then show "phys_ok (physical_pageFree a s) \<and> npages (physical_pageFree a s) = npages s" by simp
  show "taken (physical_pageFree a s) = (if a = NULL then taken s else taken s - {page a})"
    by (rule taken_free [OF ok])
qed

end
