(* ===== verification/PhysicalInit.thy ===== *)
theory PhysicalInit
  imports Physical
begin

text \<open>
  What \<open>physical_init\<close> leaves behind: which pages are free after it, that its loops end, that it
  and every other operation of the allocator write only the bitmap, and that every operation
  releases the bitmap lock it takes. The properties of the allocator are stated here.
\<close>

section \<open>Only the bitmap is written\<close>

definition bm_frame :: "phys \<Rightarrow> phys \<Rightarrow> bool" where
  "bm_frame s t \<longleftrightarrow> physical_bitmap t = physical_bitmap s \<and> physical_bitmapSize t = physical_bitmapSize s
     \<and> physical_maxAddress t = physical_maxAddress s
     \<and> (\<forall>x. unat (physical_bitmapSize s) \<le> unat (x - physical_bitmap s) \<longrightarrow> ph_mem t x = ph_mem s x)"

lemma bm_frame_refl [simp]: "bm_frame s s"
  by (simp add: bm_frame_def)

lemma bm_frame_trans: "bm_frame s t \<Longrightarrow> bm_frame t u \<Longrightarrow> bm_frame s u"
  by (simp add: bm_frame_def)

lemma bm_frame_emit [simp]: "bm_frame s (emit e t) = bm_frame s t" "bm_frame (emit e s) t = bm_frame s t"
  by (simp_all add: bm_frame_def)

lemma bm_frame_log [simp]: "bm_frame s (t\<lparr>ph_log := l\<rparr>) = bm_frame s t"
  by (simp add: bm_frame_def)

lemma bm_frame_ok: "bm_frame s t \<Longrightarrow> phys_ok t = phys_ok s" "bm_frame s t \<Longrightarrow> npages t = npages s"
  by (simp_all add: bm_frame_def phys_ok_def npages_def)

lemma byte_in_bitmap:
  assumes "phys_ok s" "page a < npages s"
  shows "unat (BITMAP_BYTE_INDEX a) < unat (physical_bitmapSize s)"
proof -
  have "page a div 8 < unat (physical_bitmapSize s)" using assms phys_ok_max(4) [of s] by simp
  moreover have "unat (BITMAP_BYTE_INDEX a) = page a div 8"
    using page_bound [of a] unfolding byte_index_page by (subst unat_of_nat) simp
  ultimately show ?thesis by simp
qed

lemma bm_frame_put:
  assumes "phys_ok s" "page a < npages s"
  shows "bm_frame s (bitmap_put s a v)"
  using byte_in_bitmap [OF assms] by (auto simp: bm_frame_def bitmap_put_def)

lemma bm_frame_alloc: "phys_ok s \<Longrightarrow> page a < npages s \<Longrightarrow> bm_frame s (physical_pageAllocAddress a s)"
  unfolding physical_pageAllocAddress_def by (rule bm_frame_put)

lemma bitmap_put_emit: "bitmap_put (emit e s) a v = emit e (bitmap_put s a v)"
  by (simp add: bitmap_put_def emit_def)

lemma bm_frame_free: "phys_ok s \<Longrightarrow> bm_frame s (physical_pageFree a s)"
  unfolding physical_pageFree_def Let_def
  using below_max [of s a] bm_frame_put [of s a] by (simp add: bitmap_put_emit)

section \<open>The loops of physical_init\<close>

definition region_pages :: "phys \<Rightarrow> u32 \<Rightarrow> u32 \<Rightarrow> nat set" where
  "region_pages s a stop = {p. page a \<le> p \<and> unat a + (p - page a) * 4096 < unat stop \<and> p < npages s}
     - (if a = NULL then {0} else {})"

lemma step_nowrap:
  assumes "a < stop" "unat stop \<le> 4294963200"
  shows "unat (a + SIZE_4KB) = unat a + 4096" "page (a + SIZE_4KB) = Suc (page a)" "a + SIZE_4KB \<noteq> NULL"
proof -
  have "unat a + 4096 < 2 ^ 32" using assms by (simp add: word_less_nat_alt)
  then show u: "unat (a + SIZE_4KB) = unat a + 4096" by (simp add: SIZE_4KB_def unat_add_nowrap)
  then show "page (a + SIZE_4KB) = Suc (page a)" by (simp add: page_def)
  from u show "a + SIZE_4KB \<noteq> NULL" by (metis add_is_0 unat_0 zero_neq_numeral)
qed

lemma region_pages_step:
  assumes "a < stop" "unat stop \<le> 4294963200"
  shows "region_pages s a stop =
    (if a \<noteq> NULL \<and> page a < npages s then {page a} else {}) \<union> region_pages s (a + SIZE_4KB) stop"
proof -
  note st = step_nowrap [OF assms]
  have lt: "unat a < unat stop" using assms(1) by (simp add: word_less_nat_alt)
  have "p \<in> region_pages s a stop \<longleftrightarrow> p \<in> (if a \<noteq> NULL \<and> page a < npages s then {page a} else {})
      \<union> region_pages s (a + SIZE_4KB) stop" for p
  proof (cases "p = page a")
    case True
    then show ?thesis using st lt by (auto simp: region_pages_def page_def)
  next
    case False
    moreover have "a = NULL \<Longrightarrow> page a = 0" by (simp add: page_def)
    ultimately show ?thesis using st by (auto simp: region_pages_def algebra_simps diff_mult_distrib)
  qed
  then show ?thesis by blast
qed

lemma region_pages_stop: "\<not> a < stop \<Longrightarrow> region_pages s a stop = {}"
  by (auto simp: region_pages_def word_less_nat_alt)

lemma region_pages_frame: "bm_frame s t \<Longrightarrow> region_pages t = region_pages s"
  by (simp add: region_pages_def bm_frame_ok fun_eq_iff)


lemma init_free_region_spec:
  assumes "phys_ok s" "unat stop \<le> 4294963200"
  shows "\<exists>t. init_free_region a stop s = Some t \<and> bm_frame s t
    \<and> taken t = taken s - region_pages s a stop"
  using assms(1)
proof (induction "unat stop - unat a" arbitrary: a s rule: less_induct)
  case less
  show ?case
  proof (cases "a < stop")
    case False
    then show ?thesis by (subst init_free_region.simps) (simp add: region_pages_stop)
  next
    case True
    let ?u = "physical_pageFree a s"
    note st = step_nowrap [OF True assms(2)]
    have fr: "bm_frame s ?u" by (rule bm_frame_free [OF less.prems])
    have "unat stop - unat (a + SIZE_4KB) < unat stop - unat a"
      using True st(1) by (simp add: word_less_nat_alt)
    from less.hyps [OF this, of ?u] less.prems obtain t where
      t: "init_free_region (a + SIZE_4KB) stop ?u = Some t" "bm_frame ?u t"
        "taken t = taken ?u - region_pages ?u (a + SIZE_4KB) stop" by auto
    have tk: "taken t = taken s - region_pages s a stop"
      using t(3) region_pages_step [OF True assms(2), of s] region_pages_frame [OF fr]
        taken_free [OF less.prems, of a] by (auto simp: taken_def)
    have "init_free_region a stop s = Some t"
      using True t(1) by (subst init_free_region.simps) simp
    with bm_frame_trans [OF fr t(2)] tk show ?thesis by blast
  qed
qed

lemma init_reserve_spec:
  assumes "phys_ok s" "unat stop \<le> npages s * 4096" "unat stop \<le> 4294963200"
  shows "\<exists>t. init_reserve a stop s = Some t \<and> bm_frame s t \<and> ph_log t = ph_log s
    \<and> taken t = taken s \<union> {p. page a \<le> p \<and> unat a + (p - page a) * 4096 < unat stop}"
  using assms(1,2)
proof (induction "unat stop - unat a" arbitrary: a s rule: less_induct)
  case less
  show ?case
  proof (cases "a < stop")
    case False
    then show ?thesis by (subst init_reserve.simps) (auto simp: word_less_nat_alt)
  next
    case True
    let ?u = "physical_pageAllocAddress a s"
    let ?K = "\<lambda>a. {p. page a \<le> p \<and> unat a + (p - page a) * 4096 < unat stop}"
    note st = step_nowrap [OF True assms(3)]
    have lt: "unat a < unat stop" using True by (simp add: word_less_nat_alt)
    have pa: "page a < npages s" using lt less.prems(2) unfolding page_def
      by (simp add: div_less_iff_less_mult)
    have fr: "bm_frame s ?u" by (rule bm_frame_alloc [OF less.prems(1) pa])
    have "unat stop - unat (a + SIZE_4KB) < unat stop - unat a" using lt st(1) by simp
    from less.hyps [OF this, of ?u] less.prems obtain t where
      t: "init_reserve (a + SIZE_4KB) stop ?u = Some t" "bm_frame ?u t" "ph_log t = ph_log s"
        "taken t = taken ?u \<union> ?K (a + SIZE_4KB)" by auto
    have "?K a = insert (page a) (?K (a + SIZE_4KB))"
      using st(1,2) lt by (auto simp: Suc_le_eq diff_mult_distrib)
    then have tk: "taken t = taken s \<union> ?K a" using t(4) taken_alloc [OF pa] by auto
    have "init_reserve a stop s = Some t"
      using True t(1) by (subst init_reserve.simps) simp
    with bm_frame_trans [OF fr t(2)] tk t(3) show ?thesis by blast
  qed
qed

text \<open>
  A boot memory map as the code walks it: the chain of entries from \<open>a\<close> to \<open>stop\<close>, none of
  them inside the bitmap (which the loop writes while it reads the map) and none available up to
  the last page of the address space (where the inner loop's pointer would wrap).
\<close>

definition outside_bitmap :: "phys \<Rightarrow> u32 \<Rightarrow> nat \<Rightarrow> bool" where
  "outside_bitmap s a n \<longleftrightarrow>
     (\<forall>k\<in>{..<n}. unat (physical_bitmapSize s) \<le> unat (a + of_nat k - physical_bitmap s))"

definition entry_stop :: "multiboot_memory_map \<Rightarrow> u32" where
  "entry_stop e = map_base_low e + map_length_low e"

inductive mmap_chain :: "phys \<Rightarrow> u32 \<Rightarrow> u32 \<Rightarrow> multiboot_memory_map list \<Rightarrow> bool" where
  chain_end: "\<not> a < stop \<Longrightarrow> mmap_chain s a stop []"
| chain_entry: "a < stop \<Longrightarrow> e = read_mmap (ph_mem s) a \<Longrightarrow> outside_bitmap s a 24
    \<Longrightarrow> map_type e = MULTIBOOT_MMAP_AVAILABLE \<longrightarrow> unat (entry_stop e) \<le> 4294963200
    \<Longrightarrow> mmap_chain s (a + map_size e + 4) stop es \<Longrightarrow> mmap_chain s a stop (e # es)"

lemma load32_frame:
  assumes "bm_frame s t" "outside_bitmap s a n" "k + 4 \<le> n"
  shows "load32 (ph_mem t) (a + of_nat k) = load32 (ph_mem s) (a + of_nat k)"
proof -
  have "ph_mem t (a + of_nat k + of_nat j) = ph_mem s (a + of_nat k + of_nat j)" if "j < 4" for j
  proof -
    have "k + j < n" using that assms(3) by simp
    then have "unat (physical_bitmapSize s) \<le> unat (a + of_nat (k + j) - physical_bitmap s)"
      using assms(2) unfolding outside_bitmap_def by blast
    then show ?thesis using assms(1) by (simp add: bm_frame_def add.assoc)
  qed
  from this [of 0] this [of 1] this [of 2] this [of 3] show ?thesis
    by (simp add: load32_def)
qed

lemma read_mmap_frame:
  assumes "bm_frame s t" "outside_bitmap s a 24"
  shows "read_mmap (ph_mem t) a = read_mmap (ph_mem s) a"
  using load32_frame [OF assms, of 0] load32_frame [OF assms, of 4] load32_frame [OF assms, of 8]
    load32_frame [OF assms, of 12] load32_frame [OF assms, of 16] load32_frame [OF assms, of 20]
  by (simp add: read_mmap_def)

definition available_pages :: "phys \<Rightarrow> multiboot_memory_map list \<Rightarrow> nat set" where
  "available_pages s es = (\<Union>e\<in>{e \<in> set es. map_type e = MULTIBOOT_MMAP_AVAILABLE}.
     region_pages s (map_base_low e) (entry_stop e))"

lemma available_pages_Cons:
  "available_pages s (e # es) =
    (if map_type e = MULTIBOOT_MMAP_AVAILABLE then region_pages s (map_base_low e) (entry_stop e) else {})
    \<union> available_pages s es"
  by (auto simp: available_pages_def)

lemma init_mmap_loop_spec:
  assumes "mmap_chain s a stop es" "phys_ok s" "bm_frame s t"
  shows "\<exists>u. init_mmap_loop a stop t = Some u \<and> bm_frame s u
    \<and> taken u = taken t - available_pages s es"
  using assms
proof (induction arbitrary: t rule: mmap_chain.induct)
  case (chain_end a stop s)
  then show ?case by (subst init_mmap_loop.simps) (simp add: available_pages_def)
next
  case (chain_entry a stop e s es)
  have e: "read_mmap (ph_mem t) a = e"
    using read_mmap_frame chain_entry.prems(2) chain_entry.hyps(2,3) by simp
  have ok: "phys_ok t" using chain_entry.prems bm_frame_ok(1) by simp
  obtain v where v: "(if map_type e = MULTIBOOT_MMAP_AVAILABLE
        then init_free_region (map_base_low e) (map_base_low e + map_length_low e) t else Some t) = Some v"
    "bm_frame s v" "taken v = taken t - (if map_type e = MULTIBOOT_MMAP_AVAILABLE
        then region_pages s (map_base_low e) (entry_stop e) else {})"
  proof (cases "map_type e = MULTIBOOT_MMAP_AVAILABLE")
    case True
    with chain_entry.hyps(4) have "unat (entry_stop e) \<le> 4294963200" by blast
    from init_free_region_spec [OF ok this, of "map_base_low e"] that show thesis
      using True chain_entry.prems(2) region_pages_frame [OF chain_entry.prems(2)]
      by (auto simp: entry_stop_def intro: bm_frame_trans)
  next
    case False
    with that chain_entry.prems(2) show thesis by simp
  qed
  have ev: "read_mmap (ph_mem v) a = e"
    using read_mmap_frame v(2) chain_entry.hyps(2,3) by simp
  from chain_entry.IH [OF chain_entry.prems(1) v(2)] obtain u where
    u: "init_mmap_loop (a + map_size e + 4) stop v = Some u" "bm_frame s u"
      "taken u = taken v - available_pages s es" by blast
  have "init_mmap_loop a stop t = Some u"
    using chain_entry.hyps(1) v(1) u(1)
    by (subst init_mmap_loop.simps) (simp add: e ev split: if_splits)
  with u v(3) show ?case by (auto simp: available_pages_Cons)
qed


section \<open>The state after physical_init\<close>

definition ram_pages :: "multiboot_info \<Rightarrow> nat" where
  "ram_pages m = (unat (mb_mem_upper m) div 1024 + 1) * 256"

definition kernel_pages :: "u32 \<Rightarrow> u32 \<Rightarrow> multiboot_info \<Rightarrow> nat set" where
  "kernel_pages start_sym end_sym m =
     {p. page (V2P start_sym) \<le> p \<and>
         unat (V2P start_sym) + (p - page (V2P start_sym)) * 4096
           < unat (V2P end_sym) + ram_pages m div 8}"

text \<open>The state just before the memory map is read: the sizes set and the bitmap filled.\<close>

definition init_sized :: "u32 \<Rightarrow> multiboot_info \<Rightarrow> u8 \<Rightarrow> phys \<Rightarrow> phys" where
  "init_sized end_sym m v s =
     s\<lparr>ph_log := ph_log s @ [mutex_init physical_bitmapLock],
       physical_bitmapSize := of_nat (ram_pages m div 8),
       physical_maxAddress := of_nat (ram_pages m * 4096),
       physical_bitmap := end_sym,
       ph_mem := memset (ph_mem s) end_sym v (ram_pages m div 8)\<rparr>"

lemma init_sizes:
  assumes "unat (mb_mem_upper m) div 1024 + 1 < 4096"
  shows "(mb_mem_upper m div SIZE_1KB + 1) * 256 div 8 = of_nat (ram_pages m div 8)"
    "SIZE_1KB * SIZE_1KB * (mb_mem_upper m div SIZE_1KB + 1) = of_nat (ram_pages m * 4096)"
    "unat (of_nat (ram_pages m div 8) :: u32) = ram_pages m div 8"
    "unat (of_nat (ram_pages m * 4096) :: u32) = ram_pages m * 4096"
proof -
  define k where "k = unat (mb_mem_upper m) div 1024 + 1"
  have k: "k < 4096" using assms by (simp add: k_def)
  have d: "unat (mb_mem_upper m div SIZE_1KB) = k - 1"
    by (simp add: k_def SIZE_1KB_def unat_div)
  then have w: "unat (mb_mem_upper m div SIZE_1KB + 1) = k"
    using k by (subst unat_add_nowrap) (auto simp: k_def)
  have r: "ram_pages m = k * 256" by (simp add: ram_pages_def k_def)
  show u1: "unat (of_nat (ram_pages m div 8) :: u32) = ram_pages m div 8"
    using k by (subst unat_of_nat) (simp add: r)
  show u2: "unat (of_nat (ram_pages m * 4096) :: u32) = ram_pages m * 4096"
    using k unfolding r by (subst unat_of_nat) simp
  have "unat ((mb_mem_upper m div SIZE_1KB + 1) * 256) = k * 256"
    using k w by (subst unat_mult_nowrap) auto
  then show "(mb_mem_upper m div SIZE_1KB + 1) * 256 div 8 = of_nat (ram_pages m div 8)"
    using u1 unfolding word_unat_eq_iff unat_div by (simp add: r)
  have "unat (SIZE_1KB * SIZE_1KB * (mb_mem_upper m div SIZE_1KB + 1)) = 1048576 * k"
    using k w by (subst unat_mult_nowrap) (auto simp: SIZE_1KB_def)
  then show "SIZE_1KB * SIZE_1KB * (mb_mem_upper m div SIZE_1KB + 1) = of_nat (ram_pages m * 4096)"
    using u2 unfolding word_unat_eq_iff by (simp add: r)
qed

lemma init_sized_ok:
  assumes "unat (mb_mem_upper m) div 1024 + 1 < 4096"
  shows "phys_ok (init_sized end_sym m v s)" "npages (init_sized end_sym m v s) = ram_pages m"
  using init_sizes(3,4) [OF assms]
  by (auto simp: phys_ok_def npages_def init_sized_def ram_pages_def)

lemma init_sized_bits:
  assumes "unat (mb_mem_upper m) div 1024 + 1 < 4096" "p < ram_pages m"
  shows "page_bit (init_sized end_sym m v s) p = bit v (7 - p mod 8)"
proof -
  have "p div 8 < ram_pages m div 8"
    using assms(2) by (simp add: ram_pages_def)
  moreover have "unat (of_nat (p div 8) :: u32) = p div 8"
    using assms by (subst unat_of_nat) (simp add: ram_pages_def)
  ultimately show ?thesis by (simp add: page_bit_def init_sized_def memset_def)
qed

lemma init_sized_taken:
  assumes "unat (mb_mem_upper m) div 1024 + 1 < 4096"
  shows "taken (init_sized end_sym m 0 s) = {}"
    "taken (init_sized end_sym m 0xFF s) = {..<ram_pages m}"
proof -
  have "bit (0xFF :: u8) (7 - p mod 8)" for p :: nat
  proof -
    have m: "(0xFF :: u8) = - 1" by simp
    show ?thesis unfolding m by (simp add: bit_minus_1_iff)
  qed
  then show "taken (init_sized end_sym m 0 s) = {}"
    "taken (init_sized end_sym m 0xFF s) = {..<ram_pages m}"
    using init_sized_ok(2) [OF assms] init_sized_bits [OF assms] by (auto simp: taken_def)
qed

lemma memset_twice: "memset (memset m a v n) a w n = memset m a w n"
  by (simp add: memset_def fun_eq_iff)

lemma physical_init_unfold:
  assumes "mb_flags m AND 1 = 1" "unat (mb_mem_upper m) div 1024 + 1 < 4096"
  shows "physical_init start_sym end_sym m s =
    Option.bind
      (if mb_flags m AND 32 = 32
       then init_mmap_loop (mb_mmap m) (mb_mmap m + mb_mmap_length m) (init_sized end_sym m 0xFF s)
       else Some (physical_pageAllocAddress KERNEL_VGA_PADDRESS (init_sized end_sym m 0 s)))
      (\<lambda>t. map_option (Pair SUCCESS)
        (init_reserve (V2P start_sym) (V2P end_sym + physical_bitmapSize t) t))"
  using assms(1) init_sizes [OF assms(2)]
  by (simp add: physical_init_def Let_def MULTIBOOT_FLAG_MEM_def MULTIBOOT_FLAG_MMAP_def
      init_sized_def emit_def memset_twice map_option_bind bind_map_option comp_def
      map_conv_bind_option cong: if_cong)


lemma pages_of_kernel:
  assumes "unat (mb_mem_upper m) div 1024 + 1 < 4096"
    "unat (V2P end_sym) + ram_pages m div 8 \<le> ram_pages m * 4096"
  shows "unat (V2P end_sym + of_nat (ram_pages m div 8)) = unat (V2P end_sym) + ram_pages m div 8"
    "ram_pages m * 4096 \<le> 4294963200"
proof -
  show "ram_pages m * 4096 \<le> 4294963200" using assms(1) by (simp add: ram_pages_def)
  then show "unat (V2P end_sym + of_nat (ram_pages m div 8)) = unat (V2P end_sym) + ram_pages m div 8"
    using assms(2) init_sizes(3) [OF assms(1)] by (subst unat_add_nowrap) auto
qed

lemma init_reserve_kernel:
  assumes "unat (mb_mem_upper m) div 1024 + 1 < 4096"
    "unat (V2P end_sym) + ram_pages m div 8 \<le> ram_pages m * 4096"
    "bm_frame (init_sized end_sym m v s) t"
  shows "\<exists>u. init_reserve (V2P start_sym) (V2P end_sym + physical_bitmapSize t) t = Some u
    \<and> bm_frame t u \<and> taken u = taken t \<union> kernel_pages start_sym end_sym m"
proof -
  have ok: "phys_ok t" "npages t = ram_pages m" "physical_bitmapSize t = of_nat (ram_pages m div 8)"
    using init_sized_ok [OF assms(1)] bm_frame_ok [OF assms(3)] assms(3)
    by (simp_all add: bm_frame_def init_sized_def)
  note k = pages_of_kernel [OF assms(1,2)]
  from init_reserve_spec [OF ok(1), of "V2P end_sym + of_nat (ram_pages m div 8)" "V2P start_sym"]
  show ?thesis using ok k assms(2) by (auto simp: kernel_pages_def)
qed


section \<open>Locks\<close>

lemma lock_run_pair [simp]:
  "l \<notin> H \<Longrightarrow> lock_run H (mutex_lock l # mutex_unlock l # es) = lock_run H es"
  by simp

lemma lock_run_free: "physical_bitmapLock \<notin> H \<Longrightarrow>
  lock_run H [mutex_lock physical_bitmapLock, mutex_unlock physical_bitmapLock] = Some H"
  by simp

lemma lock_run_alloc_log: "physical_bitmapLock \<notin> H \<Longrightarrow> lock_run H (alloc_log s) = Some H"
  by (auto simp: alloc_log_def Let_def split: option.splits)

section \<open>Properties\<close>

text \<open>A small concrete machine for the witnesses: 1 MB of memory, its bitmap at 0x2000, all free.\<close>

definition small_phys :: phys where
  "small_phys = \<lparr>ph_mem = (\<lambda>_. 0), physical_bitmap = 0x2000, physical_bitmapSize = 32,
     physical_maxAddress = 0x100000, ph_log = []\<rparr>"

lemma small_phys_ok: "phys_ok small_phys" "npages small_phys = 256" "taken small_phys = {}"
  by (simp_all add: phys_ok_def small_phys_def npages_def taken_def page_bit_def)

text \<open>
  C1. \<open>physical_pageAlloc\<close> always returns. When some page other than page 0 is free it returns
  the address of a whole page that was free, above 16 MB whenever one is free there and the lowest
  such page of its zone, marks exactly that page as taken and writes nothing but the bitmap;
  otherwise it returns \<open>NULL\<close> after a panic and changes no page. Either way every lock it takes
  is released.
\<close>

theorem pageAlloc_correct:
  assumes "phys_ok s"
  shows "\<exists>a s' es. physical_pageAlloc s = Some (a, s') \<and> phys_ok s' \<and> bm_frame s s'
    \<and> ph_log s' = ph_log s @ es \<and> lock_run {} es = Some {}
    \<and> (if {1..<npages s} \<subseteq> taken s
       then a = NULL \<and> taken s' = taken s
         \<and> last (ph_log s') = kernel_panic ''No more physical memory available.''
       else a = page_addr (page a) \<and> page a \<in> {1..<npages s} - taken s
         \<and> taken s' = insert (page a) (taken s)
         \<and> (page a < 4096 \<longrightarrow> {4096..<npages s} \<subseteq> taken s \<and> {1..<page a} \<subseteq> taken s)
         \<and> (4096 \<le> page a \<longrightarrow> {4096..<page a} \<subseteq> taken s))"
proof (cases "pick_page s")
  case None
  have ext: "phys_ok (t\<lparr>ph_log := l\<rparr>) = phys_ok t" "taken (t\<lparr>ph_log := l\<rparr>) = taken t" for t l
    by (simp_all add: phys_ok_def npages_def taken_def page_bit_def)
  from None have "{1..<npages s} \<subseteq> taken s" by (auto simp: pick_page_None taken_def)
  then show ?thesis
    using None assms pageAlloc_eq [OF assms] by (simp add: alloc_log_def Let_def ext)
next
  case (Some p)
  note p = pick_page_Some [OF Some]
  let ?s' = "(physical_pageAllocAddress (page_addr p) s)\<lparr>ph_log := ph_log s @ alloc_log s\<rparr>"
  have al: "physical_pageAlloc s = Some (page_addr p, ?s')"
    using pageAlloc_eq [OF assms] Some by simp
  have pp: "page (page_addr p) = p" using p(2) npages_bound [of s] by simp
  have nz: "page_addr p \<noteq> NULL" using p(1,2) npages_bound [of s] by (intro page_addr_nz) auto
  have fr: "bm_frame s ?s'" using bm_frame_alloc [OF assms, of "page_addr p"] p(2) pp by simp
  have ok: "phys_ok ?s'" using pageAlloc_result(1) [OF assms al] by blast
  have tk: "taken ?s' = insert p (taken s)" using pageAlloc_result(2) [OF assms al nz] pp by simp
  have new: "p \<in> {1..<npages s} - taken s"
    using p(1-3) by (auto simp: taken_def)
  then have ne: "\<not> {1..<npages s} \<subseteq> taken s" by blast
  have lo: "p < 4096 \<longrightarrow> {4096..<npages s} \<subseteq> taken s \<and> {1..<p} \<subseteq> taken s"
    using p(1,2,4,5) by (auto simp: taken_def)
  have hi: "4096 \<le> p \<longrightarrow> {4096..<p} \<subseteq> taken s"
    using p(2,4) by (auto simp: taken_def)
  show ?thesis
    by (intro exI [of _ "page_addr p"] exI [of _ ?s'] exI [of _ "alloc_log s"] conjI al ok fr)
       (simp_all only: if_not_P [OF ne] pp tk, use new lo hi in \<open>simp_all add: lock_run_alloc_log\<close>)
qed

theorem pageAlloc_correct_witness:
  "\<exists>a s'. physical_pageAlloc small_phys = Some (a, s') \<and> page a \<in> {1..<256}
     \<and> taken s' = {page a} \<and> {1..<page a} = {}"
proof -
  have "\<not> {1..<256 :: nat} \<subseteq> {}" by simp
  with pageAlloc_correct [OF small_phys_ok(1)] obtain a s' where
    "physical_pageAlloc small_phys = Some (a, s')" "page a \<in> {1..<256}" "taken s' = {page a}"
    "page a < 4096 \<longrightarrow> {1..<page a} \<subseteq> {}"
    unfolding small_phys_ok(2,3) by (auto split: if_splits)
  then show ?thesis by (intro exI conjI) auto
qed

text \<open>
  C2. Any number of allocations in a row hand out different pages, none of which was taken before,
  and releasing everything they returned restores the set of taken pages.
\<close>

theorem pageAlloc_distinct_and_restored:
  assumes "phys_ok s"
  shows "\<exists>as s'. alloc_n physical_pageAlloc n s = Some (as, s') \<and> length as = n
    \<and> distinct (map page (filter (\<lambda>a. a \<noteq> NULL) as))
    \<and> page ` {a \<in> set as. a \<noteq> NULL} \<inter> taken s = {}
    \<and> taken (free_all physical_pageFree as s') = taken s"
  using phys_alloc.alloc_n_total [OF assms, of n] phys_alloc.alloc_n_pages [OF assms]
    phys_alloc.alloc_free_restores [OF assms] by blast

theorem pageAlloc_distinct_and_restored_witness:
  "\<exists>as s'. alloc_n physical_pageAlloc 3 small_phys = Some (as, s') \<and> length as = 3
     \<and> taken (free_all physical_pageFree as s') = {}"
  using pageAlloc_distinct_and_restored [OF small_phys_ok(1), of 3] by (auto simp: small_phys_ok(3))


text \<open>
  C3. \<open>physical_pageFree\<close> frees exactly the page of its argument, ignores \<open>NULL\<close> and every
  address past the end of memory, writes nothing but the bitmap and releases the lock it takes.
\<close>

theorem pageFree_correct:
  assumes "phys_ok s"
  shows "phys_ok (physical_pageFree a s) \<and> bm_frame s (physical_pageFree a s)
    \<and> taken (physical_pageFree a s) = (if a = NULL \<or> npages s \<le> page a then taken s else taken s - {page a})
    \<and> (\<exists>es. ph_log (physical_pageFree a s) = ph_log s @ es \<and> lock_run {} es = Some {})"
  using assms bm_frame_free [OF assms, of a] taken_free [OF assms, of a]
  by (auto simp: taken_def)

theorem pageFree_correct_witness:
  "taken (physical_pageFree 0x5000 (physical_pageAllocAddress 0x5000 small_phys)) = {}"
proof -
  have "taken (physical_pageAllocAddress 0x5000 small_phys) = {5}"
    using taken_alloc [of "0x5000" small_phys] by (simp add: small_phys_ok page_def)
  then show ?thesis
    using pageFree_correct [of "physical_pageAllocAddress 0x5000 small_phys" "0x5000"]
    by (simp add: small_phys_ok page_def)
qed

text \<open>
  Without a boot memory map, \<open>physical_init\<close> returns \<open>SUCCESS\<close> on every machine of less
  than 4095 MB whose kernel image and bitmap fit in memory, and leaves exactly the VGA page and the
  pages of the kernel image and its bitmap taken.
\<close>

theorem physical_init_no_mmap:
  assumes "mb_flags m AND 1 = 1" "mb_flags m AND 32 \<noteq> 32"
    "unat (mb_mem_upper m) div 1024 + 1 < 4096"
    "unat (V2P end_sym) + ram_pages m div 8 \<le> ram_pages m * 4096"
  shows "\<exists>t. physical_init start_sym end_sym m s = Some (SUCCESS, t) \<and> phys_ok t
    \<and> npages t = ram_pages m
    \<and> taken t = insert (page KERNEL_VGA_PADDRESS) (kernel_pages start_sym end_sym m)"
proof -
  let ?s = "init_sized end_sym m 0 s"
  let ?t = "physical_pageAllocAddress KERNEL_VGA_PADDRESS ?s"
  note ok = init_sized_ok [OF assms(3), of end_sym 0 s]
  have vga: "page KERNEL_VGA_PADDRESS < npages ?s"
    using ok(2) by (simp add: page_def KERNEL_VGA_PADDRESS_def ram_pages_def)
  have tk: "taken ?t = {page KERNEL_VGA_PADDRESS}"
    using taken_alloc [OF vga] init_sized_taken(1) [OF assms(3)] by simp
  have fr: "bm_frame ?s ?t" by (rule bm_frame_alloc [OF ok(1) vga])
  from init_reserve_kernel [OF assms(3,4) fr, of start_sym] obtain u where
    u: "init_reserve (V2P start_sym) (V2P end_sym + physical_bitmapSize ?t) ?t = Some u"
      "bm_frame ?t u" "taken u = taken ?t \<union> kernel_pages start_sym end_sym m" by blast
  have "phys_ok u" "npages u = ram_pages m"
    using bm_frame_ok [OF bm_frame_trans [OF fr u(2)]] ok by simp_all
  then show ?thesis
    using u(1,3) tk assms(2) physical_init_unfold [OF assms(1,3), of start_sym end_sym s] by simp
qed

text \<open>The kernel image of the witness: 64 KB from virtual 0xC0001000, on a 16 MB machine.\<close>

definition small_boot :: multiboot_info where
  "small_boot = \<lparr>mb_flags = 1, mb_mem_lower = 640, mb_mem_upper = 15360, mb_mmap_length = 0, mb_mmap = 0\<rparr>"

theorem physical_init_no_mmap_witness:
  "\<exists>t. physical_init 0xC0001000 0xC0011000 small_boot small_phys = Some (SUCCESS, t) \<and> npages t = 4096"
proof -
  have "ram_pages small_boot = 4096" by (simp add: ram_pages_def small_boot_def)
  then show ?thesis
    using physical_init_no_mmap [of small_boot "0xC0011000" "0xC0001000" small_phys]
    by (auto simp: small_boot_def V2P_def)
qed

text \<open>
  C7. With a boot memory map the code can walk, \<open>physical_init\<close> returns \<open>SUCCESS\<close>, and the
  pages it leaves free are exactly those of the available regions that the kernel does not occupy.
\<close>

theorem physical_init_mmap:
  assumes "mb_flags m AND 1 = 1" "mb_flags m AND 32 = 32"
    "unat (mb_mem_upper m) div 1024 + 1 < 4096"
    "unat (V2P end_sym) + ram_pages m div 8 \<le> ram_pages m * 4096"
    "mmap_chain (init_sized end_sym m 0xFF s) (mb_mmap m) (mb_mmap m + mb_mmap_length m) es"
  shows "\<exists>t. physical_init start_sym end_sym m s = Some (SUCCESS, t) \<and> phys_ok t
    \<and> npages t = ram_pages m
    \<and> {..<npages t} - taken t = available_pages t es - kernel_pages start_sym end_sym m"
proof -
  let ?s = "init_sized end_sym m 0xFF s"
  note ok = init_sized_ok [OF assms(3), of end_sym "0xFF" s]
  from init_mmap_loop_spec [OF assms(5) ok(1) bm_frame_refl] obtain t where
    t: "init_mmap_loop (mb_mmap m) (mb_mmap m + mb_mmap_length m) ?s = Some t" "bm_frame ?s t"
      "taken t = taken ?s - available_pages ?s es" by blast
  from init_reserve_kernel [OF assms(3,4) t(2), of start_sym] obtain u where
    u: "init_reserve (V2P start_sym) (V2P end_sym + physical_bitmapSize t) t = Some u"
      "bm_frame t u" "taken u = taken t \<union> kernel_pages start_sym end_sym m" by blast
  have fr: "bm_frame ?s u" by (rule bm_frame_trans [OF t(2) u(2)])
  have n: "phys_ok u" "npages u = ram_pages m" using bm_frame_ok [OF fr] ok by simp_all
  have av: "available_pages u es = available_pages ?s es"
    by (simp add: available_pages_def region_pages_frame [OF fr])
  have "available_pages ?s es \<subseteq> {..<ram_pages m}"
    using ok(2) by (auto simp: available_pages_def region_pages_def split: if_splits)
  then have "{..<npages u} - taken u = available_pages u es - kernel_pages start_sym end_sym m"
    using u(3) t(3) init_sized_taken(2) [OF assms(3), of end_sym s] n(2) av by auto
  then show ?thesis
    using n t(1) u(1) assms(2) physical_init_unfold [OF assms(1,3), of start_sym end_sym s] by auto
qed

text \<open>
  The witness of C5: a 16 MB machine whose memory map, at 0x9000, has one entry, the available
  megabytes 2 to 4.
\<close>

definition map_boot :: multiboot_info where
  "map_boot = \<lparr>mb_flags = 33, mb_mem_lower = 640, mb_mem_upper = 15360, mb_mmap_length = 24, mb_mmap = 0x9000\<rparr>"

definition map_phys :: phys where
  "map_phys = small_phys\<lparr>ph_mem := store32 (store32 (store32 (store32 (\<lambda>_. 0) 0x9000 20) 0x9004 0x200000)
     0x900C 0x200000) 0x9014 1\<rparr>"

definition map_entry :: multiboot_memory_map where
  "map_entry = \<lparr>map_size = 20, map_base_low = 0x200000, map_base_high = 0, map_length_low = 0x200000,
    map_length_high = 0, map_type = 1\<rparr>"

abbreviation (input) map_sized :: phys where
  "map_sized \<equiv> init_sized 0xC0011000 map_boot 0xFF map_phys"

lemma map_far: "k < 24 \<Longrightarrow> unat (0x9000 + of_nat k - 0xC0011000 :: u32) = 0x3FFF8000 + k"
proof -
  assume k: "k < 24"
  have u: "unat (of_nat k :: u32) = k" using k by (subst unat_of_nat) simp
  have n: "unat (0x3FFF8000 :: u32) = 0x3FFF8000" by simp
  have "unat (0x3FFF8000 + of_nat k :: u32) = 0x3FFF8000 + k"
    using k by (subst unat_add_nowrap) (simp_all only: u n, simp)
  moreover have "0x9000 + of_nat k - 0xC0011000 = (0x3FFF8000 + of_nat k :: u32)"
    by (subst diff_add_eq [symmetric]) simp
  ultimately show ?thesis by (simp only:)
qed

lemma map_sized_fields:
  "physical_bitmapSize map_sized = 512" "physical_bitmap map_sized = 0xC0011000"
  by (simp_all add: init_sized_def ram_pages_def map_boot_def)

lemma map_outside: "outside_bitmap map_sized 0x9000 24"
  unfolding outside_bitmap_def map_sized_fields using map_far by auto

lemma map_read: "read_mmap (ph_mem map_sized) 0x9000 = map_entry"
proof -
  have "bm_frame map_sized (map_sized\<lparr>ph_mem := ph_mem map_phys\<rparr>)"
    unfolding bm_frame_def map_sized_fields
    by (simp add: init_sized_def ram_pages_def map_boot_def memset_def)
  from read_mmap_frame [OF this map_outside]
  have "read_mmap (ph_mem map_sized) 0x9000 = read_mmap (ph_mem map_phys) 0x9000" by simp
  also have "\<dots> = map_entry"
    by (simp add: read_mmap_def map_phys_def map_entry_def load32_def store32_def)
  finally show ?thesis .
qed

lemma map_chain: "mmap_chain map_sized 0x9000 0x9018 [map_entry]"
proof (rule chain_entry)
  show "map_entry = read_mmap (ph_mem map_sized) 0x9000" by (simp only: map_read)
  show "outside_bitmap map_sized 0x9000 24" by (rule map_outside)
  show "mmap_chain map_sized (0x9000 + map_size map_entry + 4) 0x9018 []"
    by (rule chain_end) (simp add: map_entry_def)
qed (simp_all add: map_entry_def entry_stop_def)

lemma map_available:
  assumes "npages t = 4096"
  shows "available_pages t [map_entry] = {512..<1024}"
proof -
  have "available_pages t [map_entry] = region_pages t 0x200000 0x400000"
    by (simp add: available_pages_Cons map_entry_def MULTIBOOT_MMAP_AVAILABLE_def entry_stop_def)
       (simp add: available_pages_def)
  also have "\<dots> = {512..<1024}"
    unfolding region_pages_def assms by (auto simp: page_def)
  finally show ?thesis .
qed

theorem physical_init_mmap_witness:
  "\<exists>t. physical_init 0xC0001000 0xC0011000 map_boot map_phys = Some (SUCCESS, t)
     \<and> {..<4096} - taken t = {512..<1024} - kernel_pages 0xC0001000 0xC0011000 map_boot"
proof -
  have ram: "ram_pages map_boot = 4096" by (simp add: ram_pages_def map_boot_def)
  have ch: "mmap_chain map_sized (mb_mmap map_boot) (mb_mmap map_boot + mb_mmap_length map_boot) [map_entry]"
    using map_chain by (simp add: map_boot_def)
  have "mb_flags map_boot AND 1 = 1" "mb_flags map_boot AND 32 = 32"
    "unat (mb_mem_upper map_boot) div 1024 + 1 < 4096"
    "unat (V2P 0xC0011000) + ram_pages map_boot div 8 \<le> ram_pages map_boot * 4096"
    unfolding ram by (simp_all add: map_boot_def V2P_def)
  from physical_init_mmap [OF this ch, of "0xC0001000"] obtain t where
    "physical_init 0xC0001000 0xC0011000 map_boot map_phys = Some (SUCCESS, t)" "npages t = 4096"
    "{..<npages t} - taken t = available_pages t [map_entry] - kernel_pages 0xC0001000 0xC0011000 map_boot"
    unfolding ram by blast
  then show ?thesis using map_available [of t] by (intro exI [of _ t]) simp
qed

lemma init_reserve_total:
  assumes "unat stop \<le> 4294963200"
  shows "\<exists>t. init_reserve a stop s = Some t \<and> physical_maxAddress t = physical_maxAddress s"
proof (induction "unat stop - unat a" arbitrary: a s rule: less_induct)
  case less
  show ?case
  proof (cases "a < stop")
    case False
    then show ?thesis by (subst init_reserve.simps) simp
  next
    case True
    have "unat stop - unat (a + SIZE_4KB) < unat stop - unat a"
      using True step_nowrap(1) [OF True assms] by (simp add: word_less_nat_alt)
    from less.hyps [OF this, of "physical_pageAllocAddress a s"] True
    show ?thesis by (subst init_reserve.simps) simp
  qed
qed

lemma pageAlloc_no_memory:
  assumes "physical_maxAddress s = 0"
  shows "\<exists>t. physical_pageAlloc s = Some (NULL, t) \<and> ph_mem t = ph_mem s
    \<and> last (ph_log t) = kernel_panic ''No more physical memory available.''"
  using assms
  by (simp add: physical_pageAlloc_def physical_pageAllocHigh_def physical_pageAllocLow_def Let_def
      PHYSICAL_HIGH_PADDRESS_def PHYSICAL_LOW_PADDRESS_def physical_pageAllocLimit.simps)

text \<open>
  On a machine whose upper memory reaches 4095 MB the size computation wraps:
  \<open>physical_init\<close> still returns \<open>SUCCESS\<close>, but the maximum address it sets is 0, and every
  allocation after it panics and returns \<open>NULL\<close>.
\<close>

theorem physical_init_wraps:
  assumes "mb_flags m AND 1 = 1" "mb_flags m AND 32 \<noteq> 32" "unat (mb_mem_upper m) div 1024 + 1 = 4096"
    "unat (V2P end_sym) \<le> 4294832128"
  shows "\<exists>t u. physical_init start_sym end_sym m s = Some (SUCCESS, t) \<and> physical_maxAddress t = 0
    \<and> physical_pageAlloc t = Some (NULL, u)
    \<and> last (ph_log u) = kernel_panic ''No more physical memory available.''"
proof -
  have "unat (mb_mem_upper m div SIZE_1KB) = 4095" using assms(3) by (simp add: SIZE_1KB_def unat_div)
  then have q: "mb_mem_upper m div SIZE_1KB = 4095" by (simp add: word_unat_eq_iff)
  have z: "SIZE_1KB * SIZE_1KB * 4096 = 0" by (simp add: SIZE_1KB_def)
  have stop: "unat (V2P end_sym + 131072) \<le> 4294963200"
    using assms(4) by (subst unat_add_nowrap) simp_all
  let ?s = "physical_pageAllocAddress KERNEL_VGA_PADDRESS
      (s\<lparr>ph_log := ph_log s @ [mutex_init physical_bitmapLock], physical_bitmapSize := 131072,
         physical_maxAddress := 0, physical_bitmap := end_sym,
         ph_mem := memset (ph_mem s) end_sym 0 131072\<rparr>)"
  from init_reserve_total [OF stop, of "V2P start_sym" ?s] obtain t where
    t: "init_reserve (V2P start_sym) (V2P end_sym + 131072) ?s = Some t" "physical_maxAddress t = 0"
    by auto
  have "physical_init start_sym end_sym m s = Some (SUCCESS, t)"
    using assms(1,2) t(1)
    by (simp add: physical_init_def Let_def MULTIBOOT_FLAG_MEM_def MULTIBOOT_FLAG_MMAP_def q z emit_def)
  with t(2) pageAlloc_no_memory [OF t(2)] show ?thesis by blast
qed

theorem physical_init_wraps_witness:
  "\<exists>t u. physical_init 0xC0001000 0xC0011000 (small_boot\<lparr>mb_mem_upper := 4193280\<rparr>) small_phys = Some (SUCCESS, t)
     \<and> physical_pageAlloc t = Some (NULL, u)"
  using physical_init_wraps [of "small_boot\<lparr>mb_mem_upper := 4193280\<rparr>" "0xC0011000" "0xC0001000" small_phys]
  by (auto simp: small_boot_def V2P_def)

end
