(* ===== verification/Dma.thy ===== *)
theory Dma
  imports Prelude
begin

text \<open>
  The DMA controller driver: MimicOS/src/kernel/mm/dma.c and include/kernel/mm/dma.h. Its only
  effect is the sequence of interrupt and port operations it performs, so the operations return
  that sequence; an index past the end of a port table (undefined in C) is \<^term>\<open>None\<close>.
\<close>

section \<open>The model\<close>

definition dma_maskreg :: "u8 list" where
  "dma_maskreg = [0x0A, 0x0A, 0x0A, 0x0A, 0xD4, 0xD4, 0xD4, 0xD4]"
definition dma_modereg :: "u8 list" where
  "dma_modereg = [0x0B, 0x0B, 0x0B, 0x0B, 0xD6, 0xD6, 0xD6, 0xD6]"
definition dma_clearreg :: "u8 list" where
  "dma_clearreg = [0x0C, 0x0C, 0x0C, 0x0C, 0xD8, 0xD8, 0xD8, 0xD8]"
definition dma_pageport :: "u8 list" where
  "dma_pageport = [0x87, 0x83, 0x81, 0x82, 0x8F, 0x8B, 0x89, 0x8A]"
definition dma_addressport :: "u8 list" where
  "dma_addressport = [0x00, 0x02, 0x04, 0x06, 0xC0, 0xC4, 0xC8, 0xCC]"
definition dma_countport :: "u8 list" where
  "dma_countport = [0x01, 0x03, 0x05, 0x07, 0xC2, 0xC6, 0xCA, 0xCE]"

text \<open>
  The two bit-field structures, least significant field first. \<open>MODE\<close> is a union of
  \<open>MODE_BITS\<close> and a byte: writing a field is writing those bits of the byte.
\<close>

record MRC_BITS =
  mrc_channel :: "2 word"
  mrc_setclear :: "1 word"
  mrc_unused :: "5 word"

record MODE_BITS =
  md_channel :: "2 word"
  md_transfertype :: "2 word"
  md_autoinit :: "1 word"
  md_addressincrement :: "1 word"
  md_modeselect :: "2 word"

definition MRC_of_byte :: "u8 \<Rightarrow> MRC_BITS" where
  "MRC_of_byte b = \<lparr>mrc_channel = ucast b, mrc_setclear = ucast (drop_bit 2 b), mrc_unused = ucast (drop_bit 3 b)\<rparr>"

definition MODE_data :: "MODE_BITS \<Rightarrow> u8" where
  "MODE_data m = ucast (md_channel m) OR push_bit 2 (ucast (md_transfertype m))
     OR push_bit 4 (ucast (md_autoinit m)) OR push_bit 5 (ucast (md_addressincrement m))
     OR push_bit 6 (ucast (md_modeselect m))"

definition MODE_bits :: "u8 \<Rightarrow> MODE_BITS" where
  "MODE_bits b = \<lparr>md_channel = ucast b, md_transfertype = ucast (drop_bit 2 b),
     md_autoinit = ucast (drop_bit 4 b), md_addressincrement = ucast (drop_bit 5 b),
     md_modeselect = ucast (drop_bit 6 b)\<rparr>"

definition DMA_CLEARMASK :: "1 word" where "DMA_CLEARMASK = 0"
definition DMA_SINGLE :: "2 word" where "DMA_SINGLE = 1"
definition DMA_VERIFY :: "2 word" where "DMA_VERIFY = 0"
definition DMA_WRITE :: "2 word" where "DMA_WRITE = 1"
definition DMA_READ :: "2 word" where "DMA_READ = 2"

definition table_at :: "u8 list \<Rightarrow> u8 \<Rightarrow> u16 option" where
  "table_at t channel = (if unat channel < length t then Some (ucast (t ! unat channel)) else None)"

definition dma_transfer :: "u8 \<Rightarrow> u32 \<Rightarrow> u32 \<Rightarrow> u8 \<Rightarrow> event list option" where
  "dma_transfer channel address len mode_data =
     (let page = (ucast (drop_bit 16 address) :: u8);
          offset = address AND 0xFFFF;
          len = len - 1
      in
      Option.bind (table_at dma_maskreg channel) (\<lambda>maskreg.
      Option.bind (table_at dma_clearreg channel) (\<lambda>clearreg.
      Option.bind (table_at dma_modereg channel) (\<lambda>modereg.
      Option.bind (table_at dma_addressport channel) (\<lambda>addressport.
      Option.bind (table_at dma_pageport channel) (\<lambda>pageport.
      Option.bind (table_at dma_countport channel) (\<lambda>countport.
      Some [port_outb maskreg (0x04 OR channel),
            port_outb clearreg 0x00,
            port_outb modereg mode_data,
            port_outb addressport (ucast (offset AND 0x00FF)),
            port_outb addressport (ucast (drop_bit 8 (offset AND 0xFF00))),
            port_outb pageport page,
            port_outb countport (ucast (len AND 0x00FF)),
            port_outb countport (ucast (drop_bit 8 (len AND 0xFF00))),
            port_outb maskreg channel])))))))"

definition dma_read :: "u8 \<Rightarrow> u32 \<Rightarrow> u32 \<Rightarrow> event list option" where
  "dma_read channel address len =
     (let m = MODE_bits 0x00;
          m = m\<lparr>md_modeselect := DMA_SINGLE\<rparr>;
          m = m\<lparr>md_transfertype := DMA_READ\<rparr>;
          m = m\<lparr>md_channel := ucast channel\<rparr>
      in map_option (\<lambda>es. interrupt_disableAll # es @ [interrupt_enableAll])
           (dma_transfer channel address len (MODE_data m)))"

definition dma_write :: "u8 \<Rightarrow> u32 \<Rightarrow> u32 \<Rightarrow> event list option" where
  "dma_write channel address len =
     (let m = MODE_bits 0x00;
          m = m\<lparr>md_modeselect := DMA_SINGLE\<rparr>;
          m = m\<lparr>md_channel := ucast channel\<rparr>
      in map_option (\<lambda>es. interrupt_disableAll # es @ [interrupt_enableAll])
           (dma_transfer channel address len (MODE_data m)))"

section \<open>The union is lossless\<close>

lemma two_bits: "n < LENGTH(2) \<Longrightarrow> n = 0 \<or> n = 1"
  by auto

lemma small_word_bits [simp]: "2 \<le> n \<Longrightarrow> \<not> bit (x :: 2 word) n" "1 \<le> n \<Longrightarrow> \<not> bit (y :: 1 word) n"
  by (auto dest: bit_imp_le_length)

lemma MODE_bits_data: "MODE_bits (MODE_data m) = m"
proof -
  have "md_channel (MODE_bits (MODE_data m)) = md_channel m"
    by (rule bit_word_eqI, drule two_bits, elim disjE) (simp_all add: MODE_bits_def MODE_data_def bit_simps)
  moreover have "md_transfertype (MODE_bits (MODE_data m)) = md_transfertype m"
    by (rule bit_word_eqI, drule two_bits, elim disjE) (simp_all add: MODE_bits_def MODE_data_def bit_simps)
  moreover have "md_autoinit (MODE_bits (MODE_data m)) = md_autoinit m"
    by (rule bit_word_eqI) (simp add: MODE_bits_def MODE_data_def bit_simps)
  moreover have "md_addressincrement (MODE_bits (MODE_data m)) = md_addressincrement m"
    by (rule bit_word_eqI) (simp add: MODE_bits_def MODE_data_def bit_simps)
  moreover have "md_modeselect (MODE_bits (MODE_data m)) = md_modeselect m"
    by (rule bit_word_eqI, drule two_bits, elim disjE) (simp_all add: MODE_bits_def MODE_data_def bit_simps)
  ultimately show ?thesis by (cases m; cases "MODE_bits (MODE_data m)") simp
qed

lemma MODE_data_bits: "MODE_data (MODE_bits b) = b"
proof (rule bit_word_eqI)
  fix n assume "n < LENGTH(8)"
  then have "n = 0 \<or> n = 1 \<or> n = 2 \<or> n = 3 \<or> n = 4 \<or> n = 5 \<or> n = 6 \<or> n = 7" by auto
  then show "bit (MODE_data (MODE_bits b)) n = bit b n"
    by (elim disjE; simp add: MODE_bits_def MODE_data_def bit_simps)
qed


section \<open>What the controller is told\<close>

text \<open>The bytes written to a port, in order, and the values the controller assembles from them.\<close>

fun port_bytes :: "event list \<Rightarrow> u16 \<Rightarrow> u8 list" where
  "port_bytes [] p = []"
| "port_bytes (port_outb q b # es) p = (if q = p then b # port_bytes es p else port_bytes es p)"
| "port_bytes (_ # es) p = port_bytes es p"

definition word_of_bytes :: "u8 list \<Rightarrow> nat option" where
  "word_of_bytes bs = (case bs of [lo, hi] \<Rightarrow> Some (unat lo + 256 * unat hi) | _ \<Rightarrow> None)"

definition controller_address :: "event list \<Rightarrow> nat \<Rightarrow> nat option" where
  "controller_address es c =
     Option.bind (word_of_bytes (port_bytes es (ucast (dma_addressport ! c)))) (\<lambda>off.
     case port_bytes es (ucast (dma_pageport ! c)) of [pg] \<Rightarrow> Some (unat pg * 65536 + off) | _ \<Rightarrow> None)"

definition controller_count :: "event list \<Rightarrow> nat \<Rightarrow> nat option" where
  "controller_count es c = word_of_bytes (port_bytes es (ucast (dma_countport ! c)))"

lemma channel_cases:
  assumes "unat (channel :: u8) < 8"
  shows "channel \<in> {0, 1, 2, 3, 4, 5, 6, 7}"
proof -
  have "channel < 8" using assms by (simp add: word_less_nat_alt)
  then have "unat channel \<in> {0, 1, 2, 3, 4, 5, 6, 7}" using assms by auto
  then show ?thesis by (auto simp: word_unat_eq_iff)
qed

lemma mask_bytes: "(0xFF :: u32) = mask 8" "(0xFFFF :: u32) = mask 16" "(0xFF00 :: u32) = push_bit 8 (mask 8)"
  by (simp_all add: mask_eq_exp_minus_1 push_bit_eq_mult)

lemma low_byte: "ucast (x AND 0x00FF) = (ucast x :: u8)" for x :: u32
  by (rule bit_word_eqI) (simp add: mask_bytes bit_simps)

lemma high_byte: "ucast (drop_bit 8 (x AND 0xFF00)) = (ucast (drop_bit 8 x) :: u8)" for x :: u32
  by (rule bit_word_eqI) (simp add: mask_bytes bit_simps)

lemma offset_bytes:
  "ucast (x AND 0xFFFF) = (ucast x :: u8)" "ucast (drop_bit 8 (x AND 0xFFFF)) = (ucast (drop_bit 8 x) :: u8)"
  for x :: u32
  by (rule bit_word_eqI, simp add: mask_bytes bit_simps)+

lemma unat_bytes: "unat (ucast x :: u8) = unat x mod 256" for x :: u32
  by (simp add: unsigned_ucast_eq take_bit_eq_mod)

lemma dma_transfer_ports:
  assumes "unat channel < 8"
  shows "\<exists>es. dma_transfer channel address len md = Some es
    \<and> port_bytes es (ucast (dma_addressport ! unat channel)) =
        [ucast address, ucast (drop_bit 8 address)]
    \<and> port_bytes es (ucast (dma_pageport ! unat channel)) = [ucast (drop_bit 16 address)]
    \<and> port_bytes es (ucast (dma_countport ! unat channel)) =
        [ucast (len - 1), ucast (drop_bit 8 (len - 1))]
    \<and> port_bytes es (ucast (dma_maskreg ! unat channel)) = [0x04 OR channel, channel]
    \<and> port_bytes es (ucast (dma_modereg ! unat channel)) = [md]"
proof -
  have "\<exists>maskreg clearreg modereg addressport pageport countport.
      table_at dma_maskreg channel = Some maskreg \<and> table_at dma_clearreg channel = Some clearreg
    \<and> table_at dma_modereg channel = Some modereg \<and> table_at dma_addressport channel = Some addressport
    \<and> table_at dma_pageport channel = Some pageport \<and> table_at dma_countport channel = Some countport
    \<and> maskreg = ucast (dma_maskreg ! unat channel) \<and> modereg = ucast (dma_modereg ! unat channel)
    \<and> addressport = ucast (dma_addressport ! unat channel)
    \<and> pageport = ucast (dma_pageport ! unat channel) \<and> countport = ucast (dma_countport ! unat channel)
    \<and> distinct [maskreg, clearreg, modereg, addressport, pageport, countport]"
    using channel_cases [OF assms]
    by (elim insertE) (simp_all add: table_at_def dma_maskreg_def dma_modereg_def
      dma_clearreg_def dma_pageport_def dma_addressport_def dma_countport_def)
  then show ?thesis
    by (elim exE conjE) (auto simp: dma_transfer_def Let_def low_byte high_byte offset_bytes)
qed


section \<open>Properties\<close>

lemma dma_read_log:
  assumes "dma_transfer channel address len (MODE_data \<lparr>md_channel = ucast channel,
      md_transfertype = DMA_READ, md_autoinit = 0, md_addressincrement = 0, md_modeselect = DMA_SINGLE\<rparr>) = Some es"
  shows "dma_read channel address len = Some (interrupt_disableAll # es @ [interrupt_enableAll])"
  using assms by (simp add: dma_read_def Let_def MODE_bits_def)

lemma dma_write_log:
  assumes "dma_transfer channel address len (MODE_data \<lparr>md_channel = ucast channel,
      md_transfertype = DMA_VERIFY, md_autoinit = 0, md_addressincrement = 0, md_modeselect = DMA_SINGLE\<rparr>) = Some es"
  shows "dma_write channel address len = Some (interrupt_disableAll # es @ [interrupt_enableAll])"
  using assms by (simp add: dma_write_def Let_def MODE_bits_def DMA_VERIFY_def)

lemma port_bytes_append: "port_bytes (es @ fs) p = port_bytes es p @ port_bytes fs p"
  by (induction es p rule: port_bytes.induct) auto

lemma controller_frame:
  "controller_address (interrupt_disableAll # es @ [interrupt_enableAll]) c = controller_address es c"
  "controller_count (interrupt_disableAll # es @ [interrupt_enableAll]) c = controller_count es c"
  by (simp_all add: controller_address_def controller_count_def port_bytes_append)

lemma controller_transfer:
  assumes "unat channel < 8" "dma_transfer channel address len md = Some es"
  shows "controller_address es (unat channel) = Some (unat address mod 2 ^ 24)"
    "controller_count es (unat channel) = Some (unat (len - 1) mod 2 ^ 16)"
proof -
  have split16: "n mod 256 + 256 * (n div 2 ^ 8 mod 256) = n mod 2 ^ 16" for n :: nat
    using mod_mult2_eq [of n 256 256] by simp
  have split24: "n div 2 ^ 16 mod 256 * 65536 + n mod 2 ^ 16 = n mod 2 ^ 24" for n :: nat
    using mod_mult2_eq [of n 65536 256] by simp
  show "controller_address es (unat channel) = Some (unat address mod 2 ^ 24)"
    using dma_transfer_ports [OF assms(1), of address len md] assms(2) split24 [of "unat address"]
    by (simp add: controller_address_def word_of_bytes_def unat_bytes unat_drop_bit_div split16 [simplified])
  show "controller_count es (unat channel) = Some (unat (len - 1) mod 2 ^ 16)"
    using dma_transfer_ports [OF assms(1), of address len md] assms(2)
    by (simp add: controller_count_def word_of_bytes_def unat_bytes unat_drop_bit_div split16 [simplified])
qed

text \<open>
  C15. \<open>dma_read\<close> and \<open>dma_write\<close> tell the controller exactly the address and the length
  minus one they were given, on every channel, for a buffer in the first 16 MB of at most 64 KB,
  with interrupts off from before the first port write until after the last. A larger address or
  length is silently truncated to 24 and 16 bits.
\<close>

theorem dma_programs_controller:
  assumes "unat channel < 8" "op \<in> {dma_read, dma_write}"
  shows "\<exists>es. op channel address len = Some (interrupt_disableAll # es @ [interrupt_enableAll])
    \<and> (\<forall>e\<in>set es. \<exists>p b. e = port_outb p b)
    \<and> controller_address es (unat channel) = Some (unat address mod 2 ^ 24)
    \<and> controller_count es (unat channel) = Some (unat (len - 1) mod 2 ^ 16)
    \<and> (unat address < 2 ^ 24 \<longrightarrow> 1 \<le> unat len \<and> unat len \<le> 2 ^ 16 \<longrightarrow>
        controller_address es (unat channel) = Some (unat address)
      \<and> controller_count es (unat channel) = Some (unat len - 1))"
proof -
  obtain md es where op: "op channel address len = Some (interrupt_disableAll # es @ [interrupt_enableAll])"
    and tr: "dma_transfer channel address len md = Some es"
  proof (cases "op = dma_read")
    case True
    then show ?thesis using that dma_transfer_ports [OF assms(1)] dma_read_log by metis
  next
    case False
    then have "op = dma_write" using assms(2) by simp
    then show ?thesis using that dma_transfer_ports [OF assms(1)] dma_write_log by metis
  qed
  have outb: "\<forall>e\<in>set es. \<exists>p b. e = port_outb p b"
    using tr by (auto simp: dma_transfer_def Let_def split: bind_splits)
  have len: "1 \<le> unat len \<Longrightarrow> unat (len - 1) = unat len - 1"
    by (subst unat_sub_nowrap) simp_all
  show ?thesis
    using op outb controller_transfer [OF assms(1) tr] len by (intro exI [of _ es]) auto
qed

theorem dma_programs_controller_witness:
  "\<exists>es. dma_read 2 0x12345 512 = Some (interrupt_disableAll # es @ [interrupt_enableAll])
    \<and> controller_address es 2 = Some 0x12345 \<and> controller_count es 2 = Some 511"
  using dma_programs_controller [of 2 dma_read "0x12345" 512] by auto

text \<open>
  After a transfer is set up the channel's mask register holds the channel number with the mask
  bit clear on channels 0 to 3, so the channel runs; on the 16-bit channels 4 to 7 the last write
  sets the mask bit again, so those channels stay masked.
\<close>

theorem dma_channel_unmasked:
  assumes "unat channel < 8" "dma_transfer channel address len md = Some es"
  shows "\<exists>b. last (port_bytes es (ucast (dma_maskreg ! unat channel))) = b
    \<and> mrc_channel (MRC_of_byte b) = of_nat (unat channel mod 4)
    \<and> (mrc_setclear (MRC_of_byte b) = DMA_CLEARMASK \<longleftrightarrow> unat channel < 4)"
proof -
  have "last (port_bytes es (ucast (dma_maskreg ! unat channel))) = channel"
    using dma_transfer_ports [OF assms(1), of address len md] assms(2) by simp
  moreover have "mrc_channel (MRC_of_byte channel) = of_nat (unat channel mod 4)
      \<and> (mrc_setclear (MRC_of_byte channel) = DMA_CLEARMASK \<longleftrightarrow> unat channel < 4)"
    using channel_cases [OF assms(1)]
    by (elim insertE) (simp_all add: MRC_of_byte_def DMA_CLEARMASK_def)
  ultimately show ?thesis by blast
qed

theorem dma_channel_unmasked_witness:
  "\<exists>es. dma_transfer 5 0x1000 16 0x45 = Some es
    \<and> mrc_setclear (MRC_of_byte (last (port_bytes es 0xD4))) \<noteq> DMA_CLEARMASK"
proof -
  obtain es where es: "dma_transfer 5 0x1000 16 0x45 = Some es"
    using dma_transfer_ports [of 5 "0x1000" 16 "0x45"] by auto
  then show ?thesis
    using dma_channel_unmasked [of 5 "0x1000" 16 "0x45" es] by (auto simp: dma_maskreg_def)
qed

text \<open>
  \<open>dma_read\<close> programs a single-mode read transfer; \<open>dma_write\<close> leaves the transfer type
  zero, so the mode it programs is a single-mode verify, never \<open>DMA_WRITE\<close>.
\<close>

theorem dma_modes:
  assumes "unat channel < 8"
  shows "\<exists>er ew mr mw. dma_read channel address len = Some er \<and> dma_write channel address len = Some ew
    \<and> port_bytes er (ucast (dma_modereg ! unat channel)) = [MODE_data mr]
    \<and> port_bytes ew (ucast (dma_modereg ! unat channel)) = [MODE_data mw]
    \<and> MODE_bits (MODE_data mr) = mr \<and> MODE_bits (MODE_data mw) = mw
    \<and> md_modeselect mr = DMA_SINGLE \<and> md_transfertype mr = DMA_READ
    \<and> md_modeselect mw = DMA_SINGLE \<and> md_transfertype mw = DMA_VERIFY
    \<and> md_channel mr = ucast channel \<and> md_channel mw = ucast channel"
proof -
  let ?m = "\<lambda>t. \<lparr>md_channel = ucast channel, md_transfertype = t, md_autoinit = 0,
    md_addressincrement = 0, md_modeselect = DMA_SINGLE\<rparr>"
  obtain er where er: "dma_transfer channel address len (MODE_data (?m DMA_READ)) = Some er"
    "port_bytes er (ucast (dma_modereg ! unat channel)) = [MODE_data (?m DMA_READ)]"
    using dma_transfer_ports [OF assms] by blast
  obtain ew where ew: "dma_transfer channel address len (MODE_data (?m DMA_VERIFY)) = Some ew"
    "port_bytes ew (ucast (dma_modereg ! unat channel)) = [MODE_data (?m DMA_VERIFY)]"
    using dma_transfer_ports [OF assms] by blast
  show ?thesis
    by (rule exI [of _ "interrupt_disableAll # er @ [interrupt_enableAll]"],
        rule exI [of _ "interrupt_disableAll # ew @ [interrupt_enableAll]"],
        rule exI [of _ "?m DMA_READ"], rule exI [of _ "?m DMA_VERIFY"])
       (simp add: er ew dma_read_log dma_write_log port_bytes_append MODE_bits_data)
qed

theorem dma_modes_witness:
  "\<exists>ew mw. dma_write 2 0x12345 512 = Some ew \<and> port_bytes ew 0x0B = [MODE_data mw]
     \<and> md_transfertype mw \<noteq> DMA_WRITE"
proof -
  obtain ew mw where "dma_write 2 0x12345 512 = Some ew" "port_bytes ew 0x0B = [MODE_data mw]"
    "md_transfertype mw = DMA_VERIFY"
    using dma_modes [of 2 "0x12345" 512] by (auto simp: dma_modereg_def)
  then show ?thesis by (auto simp: DMA_VERIFY_def DMA_WRITE_def)
qed

end
