(* ===== verification/AddressSpace.thy ===== *)
theory AddressSpace
  imports PageAllocator
begin

text \<open>
  The contract of an address space: inserting a mapping makes the page of the virtual address
  translate to the frame of the physical address and changes no other page. Mmu.thy interprets it
  on the two-level tables of mmu.c.
\<close>

definition frame :: "u32 \<Rightarrow> u32" where
  "frame a = a AND NOT (mask 12)"

fun insert_all :: "('s \<Rightarrow> u32 \<Rightarrow> u32 \<Rightarrow> 's option) \<Rightarrow> (u32 \<times> u32) list \<Rightarrow> 's \<Rightarrow> 's option" where
  "insert_all ins [] s = Some s"
| "insert_all ins ((va, pa) # ms) s = Option.bind (ins s va pa) (insert_all ins ms)"

fun last_mapping :: "(u32 \<times> u32) list \<Rightarrow> u32 \<Rightarrow> u32 option" where
  "last_mapping [] va = None"
| "last_mapping ((v, p) # ms) va =
     (case last_mapping ms va of
        Some f \<Rightarrow> Some f
      | None \<Rightarrow> if page v = page va then Some (frame p) else None)"

locale address_space =
  fixes ins :: "'s \<Rightarrow> u32 \<Rightarrow> u32 \<Rightarrow> 's option"
    and lookup :: "'s \<Rightarrow> u32 \<Rightarrow> u32 option"
    and ok :: "'s \<Rightarrow> bool"
  assumes ins_ok: "ok s \<Longrightarrow> ins s va pa = Some s' \<Longrightarrow> ok s'"
    and lookup_ins: "ok s \<Longrightarrow> ins s va pa = Some s' \<Longrightarrow>
      lookup s' va' = (if page va' = page va then Some (frame pa) else lookup s va')"
begin

lemma insert_all_ok: "ok s \<Longrightarrow> insert_all ins ms s = Some s' \<Longrightarrow> ok s'"
  by (induction ms arbitrary: s) (fastforce split: bind_splits dest: ins_ok)+

text \<open>After a sequence of insertions an address translates by the last one for its page.\<close>

lemma lookup_insert_all:
  assumes "ok s" "insert_all ins ms s = Some s'"
  shows "lookup s' va = (case last_mapping ms va of Some f \<Rightarrow> Some f | None \<Rightarrow> lookup s va)"
  using assms
proof (induction ms arbitrary: s)
  case Nil
  then show ?case by simp
next
  case (Cons m ms)
  obtain v p where m: "m = (v, p)" by force
  with Cons.prems obtain s1 where s1: "ins s v p = Some s1" "insert_all ins ms s1 = Some s'"
    by (auto split: bind_splits)
  from Cons.IH [OF ins_ok [OF Cons.prems(1) s1(1)] s1(2)] lookup_ins [OF Cons.prems(1) s1(1), of va]
  show ?case by (auto simp: m split: option.splits)
qed

end

end
