(* ===== verification/PageMem.thy ===== *)
theory PageMem
  imports PageAllocator
begin

text \<open>
  Page-aligned memory of 32-bit entries, as the page tables of mmu.c and paging.c use it: the
  address of entry \<open>i\<close> of the page at \<open>base\<close>, its independence from every other entry, and what
  clearing a page does to the entries.
\<close>

definition aligned4 :: "u32 \<Rightarrow> bool" where
  "aligned4 a \<longleftrightarrow> unat a mod 4 = 0"

definition page_aligned :: "u32 \<Rightarrow> bool" where
  "page_aligned a \<longleftrightarrow> unat a mod 4096 = 0"

lemma aligned4_apart:
  assumes "aligned4 a" "aligned4 b" "a \<noteq> b"
  shows "4 \<le> unat (b - a)"
proof -
  have ne: "unat a \<noteq> unat b" using assms(3) by (simp add: word_unat_eq_iff)
  obtain x y where xy: "unat a = 4 * x" "unat b = 4 * y"
    using assms(1,2) unfolding aligned4_def by (metis mod_0_imp_dvd dvdE)
  show ?thesis
  proof (cases "x \<le> y")
    case True
    then have "x < y" using ne xy by simp
    then show ?thesis using xy by (simp add: unat_diff)
  next
    case False
    then show ?thesis using xy unat_u32_bound [of a] by (simp add: unat_diff)
  qed
qed

lemma load32_store32_aligned [mem_simps]:
  assumes "aligned4 a" "aligned4 b"
  shows "load32 (store32 m a v) b = (if b = a then v else load32 m b)"
  using aligned4_apart [OF assms] aligned4_apart [OF assms(2,1)]
  by (simp add: load32_store32_same load32_store32_other)

lemma same_page:
  assumes "page_aligned p"
  shows "unat (x - p) < 4096 \<longleftrightarrow> page x = page p"
proof -
  obtain q where q: "unat p = 4096 * q" using assms unfolding page_aligned_def by (metis mod_0_imp_dvd dvdE)
  have "q < 1048576" using unat_u32_bound [of p] q by simp
  moreover have "unat x = 4096 * page x + unat x mod 4096" "unat x mod 4096 < 4096"
    by (simp_all add: page_def)
  moreover have "page p = q" using q by (simp add: page_def)
  ultimately show ?thesis using q unat_u32_bound [of x] by (auto simp: unat_diff)
qed

section \<open>Entries\<close>

definition entry_at :: "u32 \<Rightarrow> u32 \<Rightarrow> u32" where
  "entry_at base index = base + 4 * index"

lemma unat_entry_at:
  assumes "page_aligned base" "unat index < 1024"
  shows "unat (entry_at base index) = unat base + 4 * unat index"
proof -
  have m: "unat (4 * index) = 4 * unat index"
    using assms(2) by (subst unat_mult_nowrap) simp_all
  obtain q where q: "unat base = 4096 * q" using assms(1) unfolding page_aligned_def by (metis mod_0_imp_dvd dvdE)
  have "q < 1048576" using unat_u32_bound [of base] q by simp
  then have "unat base + 4 * unat index < 2 ^ 32" using q assms(2) by simp
  then show ?thesis unfolding entry_at_def using m by (subst unat_add_nowrap) simp_all
qed

lemma entry_at_aligned4:
  "page_aligned base \<Longrightarrow> unat index < 1024 \<Longrightarrow> aligned4 (entry_at base index)"
  by (auto simp: aligned4_def unat_entry_at) (auto simp: page_aligned_def mod_eq_0_iff_dvd elim!: dvd_trans [rotated])

lemma entry_at_page:
  assumes "page_aligned base" "unat index < 1024" "k < 4"
  shows "page (entry_at base index + of_nat k) = page base"
proof -
  obtain q where q: "unat base = 4096 * q" using assms(1) unfolding page_aligned_def by (metis mod_0_imp_dvd dvdE)
  have "q < 1048576" using unat_u32_bound [of base] q by simp
  moreover have "unat (of_nat k :: u32) = k" using assms(3) by (subst unat_of_nat) simp
  ultimately have "unat (entry_at base index + of_nat k) = 4096 * q + (4 * unat index + k)"
    using assms(2,3) q unat_entry_at [OF assms(1,2)] by (subst unat_add_nowrap) simp_all
  then show ?thesis using q assms(2,3) by (simp add: page_def)
qed

lemma entry_at_inject:
  assumes "page_aligned b" "page_aligned b'" "unat i < 1024" "unat i' < 1024"
  shows "entry_at b i = entry_at b' i' \<longleftrightarrow> b = b' \<and> i = i'"
proof
  assume eq: "entry_at b i = entry_at b' i'"
  then have p: "page b = page b'"
    using entry_at_page [OF assms(1,3), of 0] entry_at_page [OF assms(2,4), of 0] by simp
  then have "unat b = unat b'"
    using assms(1,2) by (auto simp: page_aligned_def page_def)
  then have b: "b = b'" by (simp add: word_unat_eq_iff)
  with eq have "unat i = unat i'" using unat_entry_at [OF assms(1,3)] unat_entry_at [OF assms(2,4)] by simp
  with b show "b = b' \<and> i = i'" by (simp add: word_unat_eq_iff)
qed simp

text \<open>Clearing a page makes its entries zero and leaves the entries of every other page alone.\<close>

lemma load32_cleared_page:
  assumes "page_aligned p" "page_aligned base" "unat index < 1024"
  shows "load32 (memset m p 0 4096) (entry_at base index) = (if base = p then 0 else load32 m (entry_at base index))"
proof -
  have pb: "page base = page p \<longleftrightarrow> base = p"
  proof
    assume "page base = page p"
    then have "unat base = unat p" using assms(1,2) by (auto simp: page_aligned_def page_def)
    then show "base = p" by (simp add: word_unat_eq_iff)
  qed simp
  have "memset m p 0 4096 (entry_at base index + of_nat k) =
      (if base = p then 0 else m (entry_at base index + of_nat k))" if "k < 4" for k
    using same_page [OF assms(1), of "entry_at base index + of_nat k"] entry_at_page [OF assms(2,3) that] pb
    by (simp add: memset_def)
  from this [of 0] this [of 1] this [of 2] this [of 3] show ?thesis
    by (simp add: load32_def)
qed

end
