(* ===== verification/Mmu.thy ===== *)
theory Mmu
  imports AddressSpace PageMem
begin

text \<open>
  The user-space MMU emulator: kernal/mem_management/mm/mmu.c. A page directory is a page of 1024
  32-bit entries in memory. \<open>memalign\<close> is the C library's: the model reads its results from a
  list, the pages it will hand out. A failed \<open>assert\<close> aborts the program and is \<^term>\<open>None\<close>.
\<close>

section \<open>The model\<close>

record mmu =
  mm_mem :: memory
  mm_pool :: "u32 list"

definition page_size :: u32 where "page_size = 4096"
definition page_shift :: nat where "page_shift = 12"

definition page_directory_index :: "u32 \<Rightarrow> u32" where
  "page_directory_index virtual_address = drop_bit 22 virtual_address"

definition page_table_index :: "u32 \<Rightarrow> u32" where
  "page_table_index virtual_address = drop_bit page_shift virtual_address AND 0x3FF"

text \<open>
  The bit fields of a \<open>page_entry\<close>, least significant first: present, rw, us, two unnamed bits,
  a, d (two bits), two unnamed bits, and the 20 bits of the page frame address. Writing a field
  keeps the other bits of the word.
\<close>

definition entry_present :: "u32 \<Rightarrow> bool" where
  "entry_present e = bit e 0"

definition entry_frame :: "u32 \<Rightarrow> u32" where
  "entry_frame e = take_bit 20 (drop_bit 10 e)"

definition set_entry_frame :: "u32 \<Rightarrow> u32 \<Rightarrow> u32" where
  "set_entry_frame e v = (e AND NOT (push_bit 10 (mask 20))) OR push_bit 10 (take_bit 20 v)"

definition set_entry_present :: "u32 \<Rightarrow> u32" where
  "set_entry_present e = e OR 1"

definition allocate_page :: "mmu \<Rightarrow> (u32 \<times> mmu) option" where
  "allocate_page s =
     (let p = (case mm_pool s of [] \<Rightarrow> NULL | q # _ \<Rightarrow> q);
          s = s\<lparr>mm_pool := tl (mm_pool s)\<rparr>
      in if p \<noteq> NULL \<and> p AND (page_size - 1) = 0
         then Some (p, s\<lparr>mm_mem := memset (mm_mem s) p 0 (unat page_size)\<rparr>)
         else None)"

definition set_page_entry :: "u32 \<Rightarrow> u32 \<Rightarrow> mmu \<Rightarrow> mmu" where
  "set_page_entry entry addr s =
     (let s = s\<lparr>mm_mem := store32 (mm_mem s) entry
                 (set_entry_frame (load32 (mm_mem s) entry) (drop_bit page_shift addr))\<rparr>
      in s\<lparr>mm_mem := store32 (mm_mem s) entry (set_entry_present (load32 (mm_mem s) entry))\<rparr>)"

definition get_addr_from_entry :: "u32 \<Rightarrow> mmu \<Rightarrow> u32" where
  "get_addr_from_entry entry s = push_bit page_shift (entry_frame (load32 (mm_mem s) entry))"

definition insert_page_into_address_space :: "u32 \<Rightarrow> mmu \<Rightarrow> u32 \<Rightarrow> u32 \<Rightarrow> mmu option" where
  "insert_page_into_address_space dir s virtual_address physical_address =
     (let dir_entry = entry_at dir (page_directory_index virtual_address) in
      Option.bind
        (if \<not> entry_present (load32 (mm_mem s) dir_entry)
         then Option.bind (allocate_page s) (\<lambda>(page_frame, s).
                Some (page_frame, set_page_entry dir_entry page_frame s))
         else Some (get_addr_from_entry dir_entry s, s))
        (\<lambda>(table, s).
          Some (set_page_entry (entry_at table (page_table_index virtual_address)) physical_address s)))"

definition get_page_from_address_space :: "u32 \<Rightarrow> mmu \<Rightarrow> u32 \<Rightarrow> u32 option" where
  "get_page_from_address_space dir s virtual_address =
     (let dir_entry = entry_at dir (page_directory_index virtual_address) in
      if \<not> entry_present (load32 (mm_mem s) dir_entry) then None
      else
        let table = get_addr_from_entry dir_entry s;
            table_entry = entry_at table (page_table_index virtual_address)
        in if \<not> entry_present (load32 (mm_mem s) table_entry) then None
           else Some (get_addr_from_entry table_entry s))"

text \<open>
  \<open>main\<close>, with the bytes the program reads from the random device (\<^term>\<open>None\<close> when it cannot
  be opened). The two calls of \<open>free\<close> at the end have no effect the program observes.
\<close>

definition mmu_main :: "memory option \<Rightarrow> mmu \<Rightarrow> (int \<times> mmu) option" where
  "mmu_main urandom s =
     Option.bind (allocate_page s) (\<lambda>(cr3, s).
     Option.bind (allocate_page s) (\<lambda>(page_frame, s).
     case urandom of
       None \<Rightarrow> Some (-1, s)
     | Some bytes \<Rightarrow>
         let s = s\<lparr>mm_mem := memcpy (mm_mem s) page_frame bytes 0 (unat page_size)\<rparr> in
         Option.bind (insert_page_into_address_space cr3 s 0x0000F000 page_frame) (\<lambda>s.
         Option.bind (get_page_from_address_space cr3 s 0x0000F000) (\<lambda>got.
         if got = page_frame then Some (0, s) else None))))"

section \<open>Fields of an entry\<close>

lemma entry_field_laws [simp]:
  "entry_frame (set_entry_frame e v) = take_bit 20 v"
  "entry_frame (set_entry_present e) = entry_frame e"
  "entry_present (set_entry_present e)"
  "entry_present (set_entry_frame e v) = entry_present e"
proof -
  show "entry_frame (set_entry_frame e v) = take_bit 20 v"
    by (rule bit_word_eqI) (auto simp: entry_frame_def set_entry_frame_def bit_simps)
  show "entry_frame (set_entry_present e) = entry_frame e"
    by (rule bit_word_eqI) (auto simp: entry_frame_def set_entry_present_def bit_simps)
  show "entry_present (set_entry_present e)" "entry_present (set_entry_frame e v) = entry_present e"
    by (auto simp: entry_present_def set_entry_present_def set_entry_frame_def bit_simps)
qed

lemma entry_zero [simp]: "\<not> entry_present 0"
  by (simp add: entry_present_def)

lemma frame_shift: "push_bit 12 (take_bit 20 (drop_bit 12 a)) = frame a" for a :: u32
  by (rule bit_word_eqI) (auto simp: frame_def bit_simps)

lemma unat_indices:
  "unat (page_directory_index va) = page va div 1024" "unat (page_table_index va) = page va mod 1024"
proof -
  show "unat (page_directory_index va) = page va div 1024"
    by (simp add: page_directory_index_def unat_drop_bit_div page_def div_mult2_eq [symmetric])
  have m: "(0x3FF :: u32) = mask 10" by (simp add: mask_eq_exp_minus_1)
  show "unat (page_table_index va) = page va mod 1024"
    unfolding page_table_index_def page_shift_def m unat_and_mask
    by (simp add: unat_drop_bit_div page_def)
qed

lemma indices_small [simp]: "unat (page_directory_index va) < 1024" "unat (page_table_index va) < 1024"
  using page_bound [of va] by (simp_all add: unat_indices)

lemma same_indices:
  "page_directory_index va = page_directory_index va' \<and> page_table_index va = page_table_index va'
     \<longleftrightarrow> page va = page va'"
  unfolding word_unat_eq_iff unat_indices by (metis div_mult_mod_eq)

section \<open>Well-formed directories\<close>

definition dir_entry_of :: "u32 \<Rightarrow> mmu \<Rightarrow> u32 \<Rightarrow> u32" where
  "dir_entry_of dir s i = load32 (mm_mem s) (entry_at dir i)"

definition table_of :: "u32 \<Rightarrow> mmu \<Rightarrow> u32 \<Rightarrow> u32" where
  "table_of dir s i = push_bit 12 (entry_frame (dir_entry_of dir s i))"

definition has_table :: "u32 \<Rightarrow> mmu \<Rightarrow> u32 \<Rightarrow> bool" where
  "has_table dir s i \<longleftrightarrow> unat i < 1024 \<and> entry_present (dir_entry_of dir s i)"

text \<open>
  The directory and its tables are different pages, and the pages \<open>memalign\<close> will hand out are
  page aligned, different from each other and from all of these.
\<close>

definition mmu_ok :: "u32 \<Rightarrow> mmu \<Rightarrow> bool" where
  "mmu_ok dir s \<longleftrightarrow> page_aligned dir
     \<and> (\<forall>i. has_table dir s i \<longrightarrow> table_of dir s i \<noteq> dir \<and> table_of dir s i \<notin> set (mm_pool s))
     \<and> (\<forall>i j. has_table dir s i \<and> has_table dir s j \<and> table_of dir s i = table_of dir s j \<longrightarrow> i = j)
     \<and> dir \<notin> set (mm_pool s) \<and> distinct (mm_pool s) \<and> (\<forall>p\<in>set (mm_pool s). page_aligned p)"

lemma shifted_aligned [simp]: "page_aligned (push_bit 12 x)"
proof -
  have "push_bit 12 x AND mask 12 = 0" by (rule bit_word_eqI) (auto simp: bit_simps)
  then have "unat (push_bit 12 x) mod 2 ^ 12 = 0" by (metis unat_and_mask unat_0)
  then show ?thesis by (simp add: page_aligned_def)
qed

lemma shifted_frame_page: "page_aligned p \<Longrightarrow> push_bit 12 (take_bit 20 (drop_bit 12 p)) = p"
proof -
  assume "page_aligned p"
  then have "unat (p AND mask 12) = 0" by (simp add: page_aligned_def unat_and_mask)
  then have z: "p AND mask 12 = 0" by (simp add: unat_eq_0)
  have low: "\<not> bit p n" if "n < 12" for n
  proof -
    have "bit (p AND mask 12) n \<longleftrightarrow> bit p n" using that by (simp add: bit_and_iff bit_mask_iff)
    then show ?thesis by (simp add: z)
  qed
  show ?thesis
  proof (rule bit_word_eqI)
    fix n assume n: "n < LENGTH(32)"
    show "bit (push_bit 12 (take_bit 20 (drop_bit 12 p))) n \<longleftrightarrow> bit p n"
      using n low [of n] by (cases "n < 12") (auto simp: bit_simps)
  qed
qed

text \<open>An entry address of this component: a page-aligned base and an index below 1024.\<close>

lemma load_set_page_entry:
  assumes "page_aligned b" "page_aligned b'" "unat i < 1024" "unat i' < 1024"
  shows "load32 (mm_mem (set_page_entry (entry_at b i) a s)) (entry_at b' i') =
    (if b = b' \<and> i = i'
     then set_entry_present (set_entry_frame (load32 (mm_mem s) (entry_at b i)) (drop_bit 12 a))
     else load32 (mm_mem s) (entry_at b' i'))"
  using assms entry_at_aligned4 [OF assms(1,3)] entry_at_aligned4 [OF assms(2,4)]
    entry_at_inject [OF assms]
  by (auto simp: set_page_entry_def Let_def load32_store32_aligned page_shift_def)

lemma pool_set_page_entry [simp]: "mm_pool (set_page_entry e a s) = mm_pool s"
  by (simp add: set_page_entry_def Let_def)

section \<open>Lookup as a partial map\<close>

definition translate :: "u32 \<Rightarrow> mmu \<Rightarrow> u32 \<Rightarrow> u32 option" where
  "translate dir s va =
     (let i = page_directory_index va; e = load32 (mm_mem s) (entry_at (table_of dir s i) (page_table_index va))
      in if has_table dir s i \<and> entry_present e then Some (push_bit 12 (entry_frame e)) else None)"

lemma get_page_translate: "get_page_from_address_space dir s va = translate dir s va"
  by (simp add: get_page_from_address_space_def translate_def has_table_def table_of_def dir_entry_of_def
      get_addr_from_entry_def page_shift_def Let_def)


section \<open>Insertion\<close>

lemma dir_entry_set_table:
  assumes "mmu_ok dir s" "page_aligned t" "t \<noteq> dir" "unat j < 1024" "unat i < 1024"
  shows "dir_entry_of dir (set_page_entry (entry_at t j) a s) i = dir_entry_of dir s i"
  using assms by (simp add: dir_entry_of_def load_set_page_entry mmu_ok_def)

text \<open>Writing an entry of an existing table.\<close>

lemma set_in_table:
  fixes pa :: u32
  assumes ok: "mmu_ok dir s" and ht: "has_table dir s (page_directory_index va)"
  defines "s' \<equiv> set_page_entry (entry_at (table_of dir s (page_directory_index va)) (page_table_index va)) pa s"
  shows "mmu_ok dir s' \<and> translate dir s' va' =
    (if page va' = page va then Some (frame pa) else translate dir s va')"
proof -
  let ?t = "table_of dir s (page_directory_index va)"
  have t: "page_aligned ?t" "?t \<noteq> dir" using ok ht by (auto simp: table_of_def mmu_ok_def)
  have de: "dir_entry_of dir s' i = dir_entry_of dir s i" if "unat i < 1024" for i
    unfolding s'_def by (rule dir_entry_set_table [OF ok t]) (simp_all add: that)
  have hs: "has_table dir s' i = has_table dir s i" for i by (auto simp: has_table_def de)
  have ts: "table_of dir s' i = table_of dir s i" if "has_table dir s i" for i
    using that by (simp add: table_of_def de has_table_def)
  have pool: "mm_pool s' = mm_pool s" by (simp add: s'_def)
  have "mmu_ok dir s'"
    using ok unfolding mmu_ok_def hs pool using ts by (metis (no_types, lifting))
  moreover have "translate dir s' va' = (if page va' = page va then Some (frame pa) else translate dir s va')"
  proof (cases "has_table dir s (page_directory_index va')")
    case False
    then have "page va' \<noteq> page va" using ht same_indices [of va va'] by auto
    with False show ?thesis by (simp add: translate_def Let_def hs)
  next
    case True
    let ?t' = "table_of dir s (page_directory_index va')"
    have t': "page_aligned ?t'" by (simp add: table_of_def)
    have inj: "?t = ?t' \<longleftrightarrow> page_directory_index va = page_directory_index va'"
      using ok ht True unfolding mmu_ok_def by metis
    have ld: "load32 (mm_mem s') (entry_at ?t' (page_table_index va')) =
      (if page va = page va'
       then set_entry_present (set_entry_frame (load32 (mm_mem s) (entry_at ?t (page_table_index va))) (drop_bit 12 pa))
       else load32 (mm_mem s) (entry_at ?t' (page_table_index va')))"
      unfolding s'_def using t(1) t'
      by (subst load_set_page_entry) (simp_all add: inj same_indices)
    show ?thesis using True by (auto simp: translate_def Let_def hs ts ld frame_shift)
  qed
  ultimately show ?thesis by blast
qed

text \<open>Adding an empty table: nothing translates differently.\<close>

lemma add_table:
  fixes p :: u32
  assumes ok: "mmu_ok dir s" and al: "allocate_page s = Some (p, s1)"
    and nt: "\<not> has_table dir s i" and i: "unat i < 1024"
  defines "s2 \<equiv> set_page_entry (entry_at dir i) p s1"
  shows "mmu_ok dir s2 \<and> has_table dir s2 i \<and> table_of dir s2 i = p \<and> translate dir s2 va = translate dir s va"
proof -
  obtain ps where ps: "mm_pool s = p # ps" and s1: "s1 = s\<lparr>mm_pool := ps, mm_mem := memset (mm_mem s) p 0 4096\<rparr>"
    using al by (cases "mm_pool s") (auto simp: allocate_page_def Let_def page_size_def split: if_splits)
  have p: "page_aligned p" "p \<noteq> dir" "p \<notin> set ps" "page_aligned dir"
    using ok ps by (auto simp: mmu_ok_def)
  have d1: "dir_entry_of dir s1 k = dir_entry_of dir s k" if "unat k < 1024" for k
    using p that by (simp add: dir_entry_of_def s1 load32_cleared_page)
  have d2: "dir_entry_of dir s2 k = (if k = i then set_entry_present (set_entry_frame (dir_entry_of dir s i) (drop_bit 12 p))
      else dir_entry_of dir s k)" if "unat k < 1024" for k
    using p(4) i that d1 by (auto simp: s2_def dir_entry_of_def load_set_page_entry)
  have hs: "has_table dir s2 k \<longleftrightarrow> k = i \<or> has_table dir s k" for k
    using d2 i by (auto simp: has_table_def)
  have ts: "table_of dir s2 k = (if k = i then p else table_of dir s k)" if "k = i \<or> has_table dir s k" for k
    using d2 that i p(1) by (auto simp: table_of_def has_table_def shifted_frame_page)
  have pool: "mm_pool s2 = ps" by (simp add: s2_def s1)
  have fresh: "table_of dir s k \<noteq> p \<and> table_of dir s k \<noteq> dir \<and> table_of dir s k \<notin> set ps"
    if "has_table dir s k" for k using ok that unfolding mmu_ok_def ps by auto
  have inj: "k = l" if "has_table dir s k" "has_table dir s l" "table_of dir s k = table_of dir s l" for k l
    using ok that unfolding mmu_ok_def by blast
  have "distinct ps" "dir \<notin> set ps" "\<forall>q\<in>set ps. page_aligned q" using ok unfolding mmu_ok_def ps by auto
  moreover have "table_of dir s2 k \<noteq> dir \<and> table_of dir s2 k \<notin> set ps" if "has_table dir s2 k" for k
    using that p fresh [of k] ts [of k] unfolding hs by (auto split: if_splits)
  moreover have "k = l" if "has_table dir s2 k" "has_table dir s2 l" "table_of dir s2 k = table_of dir s2 l" for k l
    using that fresh inj ts unfolding hs by metis
  ultimately have "mmu_ok dir s2" using p(4) unfolding mmu_ok_def pool by simp
  moreover have "translate dir s2 va = translate dir s va"
  proof (cases "page_directory_index va = i")
    case True
    have "load32 (mm_mem s2) (entry_at p (page_table_index va)) = 0"
      using p i by (simp add: s2_def load_set_page_entry s1 load32_cleared_page)
    then show ?thesis using True nt by (simp add: translate_def Let_def hs ts)
  next
    case False
    have "load32 (mm_mem s2) (entry_at t (page_table_index va)) = load32 (mm_mem s) (entry_at t (page_table_index va))"
      if "page_aligned t" "t \<noteq> dir" "t \<noteq> p" for t
      using that p i by (simp add: s2_def load_set_page_entry s1 load32_cleared_page)
    moreover have "page_aligned (table_of dir s (page_directory_index va))" by (simp add: table_of_def)
    ultimately have ld: "load32 (mm_mem s2) (entry_at (table_of dir s (page_directory_index va)) (page_table_index va)) =
        load32 (mm_mem s) (entry_at (table_of dir s (page_directory_index va)) (page_table_index va))"
      if "has_table dir s (page_directory_index va)" using fresh [OF that] by blast
    show ?thesis
    proof (cases "has_table dir s (page_directory_index va)")
      case True
      then show ?thesis using False ld ts by (simp add: translate_def Let_def hs)
    next
      case no: False
      then show ?thesis using False by (simp add: translate_def Let_def hs)
    qed
  qed
  ultimately show ?thesis using hs ts by simp
qed

lemma insert_spec:
  assumes "mmu_ok dir s" "insert_page_into_address_space dir s va pa = Some s'"
  shows "mmu_ok dir s' \<and> translate dir s' va' = (if page va' = page va then Some (frame pa) else translate dir s va')"
proof (cases "has_table dir s (page_directory_index va)")
  case True
  then have "s' = set_page_entry (entry_at (table_of dir s (page_directory_index va)) (page_table_index va)) pa s"
    using assms(2) by (simp add: insert_page_into_address_space_def has_table_def dir_entry_of_def
        table_of_def get_addr_from_entry_def Let_def page_shift_def)
  with set_in_table [OF assms(1) True] show ?thesis by simp
next
  case False
  then obtain p s1 where p: "allocate_page s = Some (p, s1)"
    "s' = set_page_entry (entry_at p (page_table_index va)) pa (set_page_entry (entry_at dir (page_directory_index va)) p s1)"
    using assms(2) by (auto simp: insert_page_into_address_space_def has_table_def dir_entry_of_def Let_def
        split: bind_splits)
  note a = add_table [OF assms(1) p(1) False indices_small(1)]
  let ?s2 = "set_page_entry (entry_at dir (page_directory_index va)) p s1"
  from set_in_table [of dir ?s2 va pa va'] a p(2) show ?thesis by simp
qed

interpretation mmu_space: address_space
  "\<lambda>s va pa. insert_page_into_address_space dir s va pa" "translate dir" "mmu_ok dir" for dir
  by unfold_locales (auto simp: insert_spec)


section \<open>Properties\<close>

lemma allocate_page_Some:
  assumes "mm_pool s = p # ps" "p \<noteq> NULL" "page_aligned p"
  shows "allocate_page s = Some (p, s\<lparr>mm_pool := ps, mm_mem := memset (mm_mem s) p 0 4096\<rparr>)"
proof -
  have "(page_size - 1) = mask 12" by (simp add: page_size_def mask_eq_exp_minus_1)
  then have "p AND (page_size - 1) = 0"
    using assms(3) unat_and_mask [of p 12] by (simp add: page_aligned_def flip: unat_eq_0)
  then show ?thesis using assms(1,2) by (simp add: allocate_page_def Let_def page_size_def)
qed

lemma empty_directory_ok:
  assumes "page_aligned dir" "\<And>i. unat i < 1024 \<Longrightarrow> dir_entry_of dir s i = 0"
    "dir \<notin> set (mm_pool s)" "distinct (mm_pool s)" "\<forall>p\<in>set (mm_pool s). page_aligned p"
  shows "mmu_ok dir s" "translate dir s va = None"
  using assms by (auto simp: mmu_ok_def has_table_def translate_def Let_def)

lemma insert_total:
  assumes "mmu_ok dir s"
    "has_table dir s (page_directory_index va) \<or> mm_pool s \<noteq> [] \<and> hd (mm_pool s) \<noteq> NULL"
  shows "\<exists>s'. insert_page_into_address_space dir s va pa = Some s'"
proof (cases "has_table dir s (page_directory_index va)")
  case True
  then show ?thesis
    by (simp add: insert_page_into_address_space_def has_table_def dir_entry_of_def Let_def)
next
  case False
  then obtain p ps where "mm_pool s = p # ps" "p \<noteq> NULL"
    using assms(2) by (cases "mm_pool s") auto
  moreover have "page_aligned p" using assms(1) calculation by (simp add: mmu_ok_def)
  ultimately show ?thesis using False
    by (simp add: insert_page_into_address_space_def has_table_def dir_entry_of_def Let_def allocate_page_Some)
qed

text \<open>A concrete machine for the witnesses: zeroed memory, three pages to hand out, directory at 0x1000.\<close>

definition small_mmu :: mmu where
  "small_mmu = \<lparr>mm_mem = (\<lambda>_. 0), mm_pool = [0x8000, 0x9000, 0xA000]\<rparr>"

lemma small_mmu_ok: "mmu_ok 0x1000 small_mmu" "translate 0x1000 small_mmu va = None"
proof -
  have "dir_entry_of 0x1000 small_mmu i = 0" for i
    by (simp add: dir_entry_of_def small_mmu_def load32_def)
  then show "mmu_ok 0x1000 small_mmu" "translate 0x1000 small_mmu va = None"
    by (intro empty_directory_ok; simp add: small_mmu_def page_aligned_def)+
qed

text \<open>
  C16. Inserting a page succeeds whenever the table of the address exists or \<open>memalign\<close> returns a
  page for it, keeps the directory well formed, makes exactly the addresses of that page translate
  to the frame of the physical address, and changes the translation of no other address.
\<close>

theorem insert_page_correct:
  assumes "mmu_ok dir s"
    "has_table dir s (page_directory_index va) \<or> mm_pool s \<noteq> [] \<and> hd (mm_pool s) \<noteq> NULL"
  shows "\<exists>s'. insert_page_into_address_space dir s va pa = Some s' \<and> mmu_ok dir s'
    \<and> (\<forall>va'. get_page_from_address_space dir s' va' =
        (if page va' = page va then Some (frame pa) else get_page_from_address_space dir s va'))"
  using insert_total [OF assms, of pa] insert_spec [OF assms(1)] by (auto simp: get_page_translate)

theorem insert_page_correct_witness:
  "\<exists>s'. insert_page_into_address_space 0x1000 small_mmu 0xF123 0x5ABC = Some s'
     \<and> get_page_from_address_space 0x1000 s' 0xF000 = Some 0x5000
     \<and> get_page_from_address_space 0x1000 s' 0x10000 = None"
proof -
  have "mm_pool small_mmu \<noteq> [] \<and> hd (mm_pool small_mmu) \<noteq> 0" by (simp add: small_mmu_def)
  with insert_page_correct [OF small_mmu_ok(1), of "0xF123" "0x5ABC"] obtain s' where
    s': "insert_page_into_address_space 0x1000 small_mmu 0xF123 0x5ABC = Some s'"
      "\<forall>va'. get_page_from_address_space 0x1000 s' va' = (if page va' = page 0xF123 then Some (frame 0x5ABC)
         else get_page_from_address_space 0x1000 small_mmu va')" by blast
  have "frame 0x5ABC = 0x5000" "page 0xF000 = page 0xF123" "page 0x10000 \<noteq> page 0xF123"
    by (simp_all add: frame_def page_def mask_eq_exp_minus_1)
  with s' show ?thesis by (auto simp: get_page_translate small_mmu_ok(2))
qed

text \<open>
  C17. After any sequence of insertions that succeeds, every address translates by the last
  insertion for its page, and by the original tables when there was none.
\<close>

theorem insert_pages_translate:
  assumes "mmu_ok dir s" "insert_all (insert_page_into_address_space dir) ms s = Some s'"
  shows "mmu_ok dir s' \<and> get_page_from_address_space dir s' va =
    (case last_mapping ms va of Some f \<Rightarrow> Some f | None \<Rightarrow> get_page_from_address_space dir s va)"
  using mmu_space.insert_all_ok [OF assms] mmu_space.lookup_insert_all [OF assms]
  by (simp add: get_page_translate split: option.splits)

theorem insert_pages_translate_witness:
  "\<exists>s'. insert_all (insert_page_into_address_space 0x1000) [(0x4000, 0x7000), (0x4000, 0x6000)] small_mmu = Some s'
     \<and> get_page_from_address_space 0x1000 s' 0x4000 = Some 0x6000"
proof -
  have "mm_pool small_mmu \<noteq> [] \<and> hd (mm_pool small_mmu) \<noteq> 0" by (simp add: small_mmu_def)
  then obtain s1 where s1: "insert_page_into_address_space 0x1000 small_mmu 0x4000 0x7000 = Some s1"
    using insert_total [OF small_mmu_ok(1)] by blast
  have ok1: "mmu_ok 0x1000 s1" using insert_spec [OF small_mmu_ok(1) s1] by blast
  have "translate 0x1000 s1 0x4000 \<noteq> None" using insert_spec [OF small_mmu_ok(1) s1, of "0x4000"] by simp
  then have "has_table 0x1000 s1 (page_directory_index 0x4000)"
    by (auto simp: translate_def Let_def split: if_splits)
  then obtain s2 where s2: "insert_page_into_address_space 0x1000 s1 0x4000 0x6000 = Some s2"
    using insert_total [OF ok1] by blast
  have run: "insert_all (insert_page_into_address_space 0x1000) [(0x4000, 0x7000), (0x4000, 0x6000)] small_mmu = Some s2"
    using s1 s2 by simp
  have "frame 0x6000 = 0x6000" by (simp add: frame_def mask_eq_exp_minus_1)
  then show ?thesis using run insert_pages_translate [OF small_mmu_ok(1) run, of "0x4000"] by auto
qed

text \<open>
  The program's own check never fails: whatever the random page holds, \<open>main\<close> finds the frame
  it mapped and returns 0, provided \<open>memalign\<close> returns three different page-aligned pages.
\<close>

theorem mmu_main_succeeds:
  assumes "mm_pool s = [cr3, fr, tb]" "distinct [0, cr3, fr, tb]"
    "page_aligned cr3" "page_aligned fr" "page_aligned tb"
  shows "\<exists>s'. mmu_main (Some bytes) s = Some (0, s')"
proof -
  define s2 where "s2 = s\<lparr>mm_pool := [tb], mm_mem := memset (memset (mm_mem s) cr3 0 4096) fr 0 4096\<rparr>"
  define s3 where "s3 = s2\<lparr>mm_mem := memcpy (mm_mem s2) fr bytes 0 4096\<rparr>"
  have a1: "allocate_page s = Some (cr3, s\<lparr>mm_pool := [fr, tb], mm_mem := memset (mm_mem s) cr3 0 4096\<rparr>)"
    using assms by (intro allocate_page_Some) auto
  have a2: "allocate_page (s\<lparr>mm_pool := [fr, tb], mm_mem := memset (mm_mem s) cr3 0 4096\<rparr>) = Some (fr, s2)"
    using assms by (subst allocate_page_Some [where p = fr and ps = "[tb]"]) (auto simp: s2_def)
  have z: "dir_entry_of cr3 s3 i = 0" if "unat i < 1024" for i
  proof -
    have "mm_mem s3 (entry_at cr3 i + of_nat k) = mm_mem s2 (entry_at cr3 i + of_nat k)" if "k < 4" for k
    proof -
      have "page cr3 \<noteq> page fr"
        using assms(2-4) by (auto simp: page_aligned_def page_def word_unat_eq_iff)
      then show ?thesis
        using same_page [OF assms(4), of "entry_at cr3 i + of_nat k"] entry_at_page [OF assms(3) \<open>unat i < 1024\<close> that]
        by (simp add: s3_def memcpy_def)
    qed
    from this [of 0] this [of 1] this [of 2] this [of 3]
    have "dir_entry_of cr3 s3 i = dir_entry_of cr3 s2 i" by (simp add: dir_entry_of_def load32_def)
    also have "\<dots> = 0" using that assms(2-4) by (simp add: dir_entry_of_def s2_def load32_cleared_page)
    finally show ?thesis .
  qed
  have ok: "mmu_ok cr3 s3"
    using assms by (intro empty_directory_ok z) (auto simp: s3_def s2_def)
  have "mm_pool s3 \<noteq> [] \<and> hd (mm_pool s3) \<noteq> 0" using assms(2) by (auto simp: s3_def s2_def)
  then obtain s4 where s4: "insert_page_into_address_space cr3 s3 0xF000 fr = Some s4"
    using insert_total [OF ok] by blast
  then have "get_page_from_address_space cr3 s4 0xF000 = Some (frame fr)"
    using insert_spec [OF ok s4, of "0xF000"] by (simp add: get_page_translate)
  moreover have "frame fr = fr" using assms(4) shifted_frame_page [of fr] frame_shift [of fr] by simp
  ultimately show ?thesis using a1 a2 s4
    by (simp add: mmu_main_def Let_def page_size_def s3_def)
qed

theorem mmu_main_succeeds_witness: "\<exists>s'. mmu_main (Some (\<lambda>x. ucast x)) small_mmu = Some (0, s')"
  by (rule mmu_main_succeeds [of _ "0x8000" "0x9000" "0xA000"]) (simp_all add: small_mmu_def page_aligned_def)

end
