(* ===== verification/BlockDev.thy ===== *)
theory BlockDev
  imports Prelude
begin

text \<open>
  The block layer of the simulated disk: kernal/file_system/block.c with the constants of
  simdisk.h. The disk is a host file; its content is a list of bytes, and the position the code
  seeks to before every transfer is an argument of the transfer. The two bitmap allocators
  \<open>get_block\<close> and \<open>get_inode\<close> follow.
\<close>

section \<open>The model\<close>

definition MAX_FILE_NUM :: int where "MAX_FILE_NUM = 10000"
definition MAX_OPEN_FILES :: nat where "MAX_OPEN_FILES = 10"
definition BLOCK_MAP_START :: int where "BLOCK_MAP_START = 1"
definition INODE_MAP_START :: int where "INODE_MAP_START = 14"
definition INODE_TABLE_START :: int where "INODE_TABLE_START = 16"
definition BLOCK_TABLE_START :: int where "BLOCK_TABLE_START = 2516"
definition BLOCKSIZE :: int where "BLOCKSIZE = 1024"

lemmas disk_constants = MAX_FILE_NUM_def MAX_OPEN_FILES_def BLOCK_MAP_START_def INODE_MAP_START_def
  INODE_TABLE_START_def BLOCK_TABLE_START_def BLOCKSIZE_def

text \<open>
  The globals of block.c (the descriptor \<open>f\<close> and the size \<open>devsize\<close>), the content of the file
  \<open>f\<close> refers to, and the globals of simdisk.h (the table of open files and the working
  directory's inode).
\<close>

record simdisk =
  dev_f :: int
  disk_image :: bytes
  devsize :: int
  fd :: "int list"
  cwd_inode :: int

text \<open>
  \<open>int\<close> arithmetic on file offsets wraps at 32 bits. \<open>lseek\<close> to a negative offset, or on a
  descriptor that is not open, fails; \<open>read\<close> returns the bytes there are up to the number asked
  for; \<open>write\<close> overwrites and extends, with zeros before the new bytes if there is a gap.
\<close>

definition lseek_ok :: "simdisk \<Rightarrow> int \<Rightarrow> bool" where
  "lseek_ok s off \<longleftrightarrow> 0 \<le> dev_f s \<and> 0 \<le> off"

definition read_at :: "bytes \<Rightarrow> nat \<Rightarrow> nat \<Rightarrow> bytes" where
  "read_at img off n = take n (drop off img)"

definition write_at :: "bytes \<Rightarrow> nat \<Rightarrow> bytes \<Rightarrow> bytes" where
  "write_at img off bs = take off (img @ replicate (off - length img) 0) @ bs @ drop (off + length bs) img"

text \<open>A transfer into a buffer replaces its first bytes and leaves the others as they were.\<close>

definition fill :: "bytes \<Rightarrow> bytes \<Rightarrow> bytes" where
  "fill buf got = got @ drop (length got) buf"

text \<open>
  \<open>dev_open\<close>: \<open>host path\<close> is what the host finds under the path, the file's content and whether
  \<open>fstat\<close> succeeds on it. The file is opened once; later calls answer the size found then.
\<close>

definition dev_open :: "(bytes \<Rightarrow> (bytes \<times> bool) option) \<Rightarrow> bytes \<Rightarrow> simdisk \<Rightarrow> int \<times> simdisk" where
  "dev_open host path s =
     (if dev_f s < 0 then
        (case host path of
           None \<Rightarrow> (-1, s)
         | Some (content, fstat_ok) \<Rightarrow>
             (let s = s\<lparr>dev_f := 3, disk_image := content\<rparr> in
              if \<not> fstat_ok then (-1, s)
              else (let s = s\<lparr>devsize := int (length content) div BLOCKSIZE\<rparr> in (devsize s, s))))
      else (devsize s, s))"

definition read_block :: "simdisk \<Rightarrow> int \<Rightarrow> bytes \<Rightarrow> int \<times> bytes" where
  "read_block s block_num buf =
     (if block_num \<ge> devsize s then (-1, buf)
      else if \<not> lseek_ok s (wrap32 (block_num * BLOCKSIZE)) then (-1, buf)
      else (let got = read_at (disk_image s) (nat (wrap32 (block_num * BLOCKSIZE))) (nat BLOCKSIZE) in
            (if int (length got) \<noteq> BLOCKSIZE then -1 else 0, fill buf got)))"

definition write_block :: "int \<Rightarrow> bytes \<Rightarrow> simdisk \<Rightarrow> int \<times> simdisk" where
  "write_block block_num buf s =
     (if block_num \<ge> devsize s then (-1, s)
      else if \<not> lseek_ok s (wrap32 (block_num * BLOCKSIZE)) then (-1, s)
      else (0, s\<lparr>disk_image := write_at (disk_image s) (nat (wrap32 (block_num * BLOCKSIZE))) (take (nat BLOCKSIZE) buf)\<rparr>))"

definition inode_offset :: "int \<Rightarrow> int" where
  "inode_offset inum = wrap32 (INODE_TABLE_START * BLOCKSIZE + inum * 256)"

definition read_inode :: "simdisk \<Rightarrow> int \<Rightarrow> bytes \<Rightarrow> int \<times> bytes" where
  "read_inode s inum buf =
     (if inum \<ge> MAX_FILE_NUM \<or> inum = 0 then (-1, buf)
      else if \<not> lseek_ok s (inode_offset inum) then (-1, buf)
      else (let got = read_at (disk_image s) (nat (inode_offset inum)) 256 in
            (if length got \<noteq> 256 then -1 else 0, fill buf got)))"

definition write_inode :: "int \<Rightarrow> bytes \<Rightarrow> simdisk \<Rightarrow> int \<times> simdisk" where
  "write_inode inum buf s =
     (if inum \<ge> devsize s \<or> inum = 0 then (-1, s)
      else if \<not> lseek_ok s (inode_offset inum) then (-1, s)
      else (0, s\<lparr>disk_image := write_at (disk_image s) (nat (inode_offset inum)) (take 256 buf)\<rparr>))"

text \<open>
  The bitmap search. \<open>bits\<close> is an array of \<open>char\<close>, signed on this target, and the comparison
  with \<open>0xff\<close> is one of \<open>int\<close>s. The buffer keeps its content, garbage at first, when a read
  fails. The result is the block index \<open>i\<close>, the byte index \<open>j\<close> and the buffer; \<open>j\<close> is one past
  the end when the search exhausts the maps.
\<close>

fun scan_byte :: "bytes \<Rightarrow> nat \<Rightarrow> nat \<Rightarrow> nat option" where
  "scan_byte bits j 0 = None"
| "scan_byte bits j (Suc n) = (if sint (bits ! j) \<noteq> 0xff then Some j else scan_byte bits (Suc j) n)"

fun scan_maps :: "simdisk \<Rightarrow> int \<Rightarrow> nat \<Rightarrow> bytes \<Rightarrow> int \<times> nat \<times> bytes" where
  "scan_maps s i 0 bits = (i, nat BLOCKSIZE, bits)"
| "scan_maps s i (Suc n) bits =
     (let bits = snd (read_block s i bits) in
      case scan_byte bits 0 (nat BLOCKSIZE) of
        Some j \<Rightarrow> (i, j, bits)
      | None \<Rightarrow> scan_maps s (i + 1) n bits)"

text \<open>
  The first clear bit of a byte, from the most significant. \<open>bitb << k\<close> is an \<open>int\<close>; the answer
  is 8 when there is none.
\<close>

fun first_clear :: "u8 \<Rightarrow> nat \<Rightarrow> nat \<Rightarrow> nat" where
  "first_clear bitb k 0 = k"
| "first_clear bitb k (Suc n) =
     (if NOT (push_bit k (ucast bitb :: u32)) AND 0x80 \<noteq> 0 then k else first_clear bitb (Suc k) n)"

definition set_map_bit :: "bytes \<Rightarrow> int \<Rightarrow> bytes" where
  "set_map_bit bits r =
     bits[nat (r div 8) := ucast ((scast (bits ! nat (r div 8)) :: u32) OR push_bit (nat (8 - 1 - r mod 8)) 1)]"

definition get_block :: "bytes \<Rightarrow> simdisk \<Rightarrow> int \<times> simdisk" where
  "get_block junk s =
     (let (i, j, bits) = scan_maps s BLOCK_MAP_START (nat (INODE_MAP_START - BLOCK_MAP_START)) junk;
          bitb = bits ! j;
          k = first_clear bitb 0 8;
          retval = int k + int j * 8 + (i - BLOCK_MAP_START) * 8192 + BLOCK_TABLE_START
      in if retval \<ge> 102400 then (-1, s)
         else (retval, snd (write_block i (set_map_bit bits retval) s)))"

definition get_inode :: "bytes \<Rightarrow> simdisk \<Rightarrow> int \<times> simdisk" where
  "get_inode junk s =
     (let (i, j, bits) = scan_maps s INODE_MAP_START (nat (INODE_TABLE_START - INODE_MAP_START)) junk;
          bitb = bits ! j;
          k = first_clear bitb 0 8;
          ret = int k + int j * 8 + (i - INODE_MAP_START) * 8192 + INODE_TABLE_START
      in if ret \<ge> MAX_FILE_NUM then (-1, s)
         else (ret, snd (write_block i (set_map_bit bits ret) s)))"

section \<open>Transfers at an offset\<close>

lemma length_write_at: "length (write_at img off bs) = max (length img) (off + length bs)"
  by (simp add: write_at_def)

lemma read_write_same: "length bs = n \<Longrightarrow> read_at (write_at img off bs) off n = bs"
  by (simp add: read_at_def write_at_def)

lemma nth_write_at:
  "x < length img \<Longrightarrow> off \<le> length img \<Longrightarrow>
    write_at img off bs ! x = (if off \<le> x \<and> x < off + length bs then bs ! (x - off) else img ! x)"
  by (auto simp: write_at_def nth_append)

lemma read_write_apart:
  assumes "off' + n \<le> length img" "off \<le> length img" "off' + n \<le> off \<or> off + length bs \<le> off'"
  shows "read_at (write_at img off bs) off' n = read_at img off' n"
proof (rule nth_equalityI)
  show "length (read_at (write_at img off bs) off' n) = length (read_at img off' n)"
    using assms by (simp add: read_at_def length_write_at)
  fix x assume "x < length (read_at (write_at img off bs) off' n)"
  then have x: "x < n" "off' + x < length img" using assms by (auto simp: read_at_def length_write_at)
  then show "read_at (write_at img off bs) off' n ! x = read_at img off' n ! x"
    using assms by (auto simp: read_at_def nth_write_at length_write_at)
qed

lemma length_fill: "length got \<le> length buf \<Longrightarrow> length (fill buf got) = length buf"
  by (simp add: fill_def)

lemma fill_full: "length buf \<le> length got \<Longrightarrow> fill buf got = got"
  by (simp add: fill_def)

lemma wrap32_id: "- 2147483648 \<le> x \<Longrightarrow> x < 2147483648 \<Longrightarrow> wrap32 x = x"
  by (simp add: wrap32_def signed_take_bit_int_eq_self)

lemma write_frame [simp]:
  "devsize (snd (write_block b buf s)) = devsize s" "dev_f (snd (write_block b buf s)) = dev_f s"
  "fd (snd (write_block b buf s)) = fd s" "cwd_inode (snd (write_block b buf s)) = cwd_inode s"
  "devsize (snd (write_inode n buf s)) = devsize s" "dev_f (snd (write_inode n buf s)) = dev_f s"
  "fd (snd (write_inode n buf s)) = fd s" "cwd_inode (snd (write_inode n buf s)) = cwd_inode s"
  by (simp_all add: write_block_def write_inode_def)

section \<open>A disk that is open, with blocks that fit the file and offsets that fit an int\<close>

definition disk_ok :: "simdisk \<Rightarrow> bool" where
  "disk_ok s \<longleftrightarrow> 0 \<le> dev_f s \<and> 0 \<le> devsize s \<and> devsize s * 1024 \<le> int (length (disk_image s)) \<and> devsize s \<le> 2097152"

text \<open>The content of a block, and of the 256 bytes of an inode.\<close>

definition block_at :: "simdisk \<Rightarrow> int \<Rightarrow> bytes" where
  "block_at s b = read_at (disk_image s) (nat (b * 1024)) 1024"

definition inode_at :: "simdisk \<Rightarrow> int \<Rightarrow> bytes" where
  "inode_at s n = read_at (disk_image s) (nat (16384 + n * 256)) 256"

lemma length_block_at: "disk_ok s \<Longrightarrow> 0 \<le> b \<Longrightarrow> b < devsize s \<Longrightarrow> length (block_at s b) = 1024"
  by (auto simp: disk_ok_def block_at_def read_at_def)

lemma read_block_eq:
  assumes "disk_ok s" "0 \<le> b" "b < devsize s"
  shows "read_block s b buf = (0, fill buf (block_at s b))"
proof -
  have w: "wrap32 (b * BLOCKSIZE) = b * 1024"
    using assms by (simp add: wrap32_id disk_ok_def BLOCKSIZE_def)
  show ?thesis
    unfolding read_block_def w using assms length_block_at [OF assms]
    by (simp add: Let_def lseek_ok_def disk_ok_def BLOCKSIZE_def block_at_def)
qed

lemma read_block_refused: "devsize s \<le> b \<or> b < 0 \<and> -2097152 \<le> b \<Longrightarrow> read_block s b buf = (-1, buf)"
  by (auto simp: read_block_def lseek_ok_def wrap32_id BLOCKSIZE_def)

lemma write_block_eq:
  assumes "disk_ok s" "0 \<le> b" "b < devsize s"
  shows "write_block b buf s = (0, s\<lparr>disk_image := write_at (disk_image s) (nat (b * 1024)) (take 1024 buf)\<rparr>)"
proof -
  have w: "wrap32 (b * BLOCKSIZE) = b * 1024"
    using assms by (simp add: wrap32_id disk_ok_def BLOCKSIZE_def)
  show ?thesis
    unfolding write_block_def w using assms by (simp add: lseek_ok_def disk_ok_def BLOCKSIZE_def)
qed

lemma write_block_refused: "devsize s \<le> b \<or> b < 0 \<and> -2097152 \<le> b \<Longrightarrow> write_block b buf s = (-1, s)"
  by (auto simp: write_block_def lseek_ok_def wrap32_id BLOCKSIZE_def)

lemma disk_ok_image:
  "disk_ok s \<Longrightarrow> length (disk_image s) \<le> length img \<Longrightarrow> disk_ok (s\<lparr>disk_image := img\<rparr>)"
  by (simp add: disk_ok_def)

lemma disk_ok_write_block: "disk_ok s \<Longrightarrow> disk_ok (snd (write_block b buf s))"
  by (auto simp: write_block_def disk_ok_def length_write_at)

lemma disk_ok_write_inode: "disk_ok s \<Longrightarrow> disk_ok (snd (write_inode b buf s))"
  by (auto simp: write_inode_def disk_ok_def length_write_at)

lemma block_at_write_block:
  assumes "disk_ok s" "0 \<le> b" "b < devsize s" "1024 \<le> length buf" "0 \<le> c" "c < devsize s"
  shows "block_at (snd (write_block b buf s)) c = (if c = b then take 1024 buf else block_at s c)"
proof (cases "c = b")
  case True
  then show ?thesis using assms by (simp add: write_block_eq block_at_def read_write_same)
next
  case False
  then have "nat (c * 1024) + 1024 \<le> nat (b * 1024) \<or> nat (b * 1024) + 1024 \<le> nat (c * 1024)"
    using assms by arith
  moreover have "nat (c * 1024) + 1024 \<le> length (disk_image s)" "nat (b * 1024) \<le> length (disk_image s)"
    using assms by (auto simp: disk_ok_def)
  ultimately show ?thesis using assms False
    by (simp add: write_block_eq block_at_def read_write_apart)
qed

section \<open>Inodes\<close>

text \<open>The disk holds the whole inode table: blocks 16 to 2515, four inodes to a block.\<close>

definition has_table :: "simdisk \<Rightarrow> bool" where
  "has_table s \<longleftrightarrow> disk_ok s \<and> 2516 \<le> devsize s"

lemma has_table_write: "has_table s \<Longrightarrow> has_table (snd (write_block b buf s))"
  "has_table s \<Longrightarrow> has_table (snd (write_inode n buf s))"
  by (simp_all add: has_table_def disk_ok_write_block disk_ok_write_inode)

lemma inode_offset_eq: "-64 \<le> n \<Longrightarrow> n < 2097152 \<Longrightarrow> inode_offset n = 16384 + n * 256"
  by (simp add: inode_offset_def wrap32_id disk_constants)

lemma length_inode_at: "has_table s \<Longrightarrow> 0 \<le> n \<Longrightarrow> n < 10000 \<Longrightarrow> length (inode_at s n) = 256"
  by (auto simp: has_table_def disk_ok_def inode_at_def read_at_def)

lemma read_inode_eq:
  assumes "has_table s" "0 < n" "n < 10000" "length buf = 256"
  shows "read_inode s n buf = (0, inode_at s n)"
proof -
  have o: "inode_offset n = 16384 + n * 256" using assms by (simp add: inode_offset_eq)
  have l: "length (inode_at s n) = 256" using assms by (simp add: length_inode_at)
  then show ?thesis
    unfolding read_inode_def o using assms
    by (simp add: Let_def lseek_ok_def has_table_def disk_ok_def MAX_FILE_NUM_def inode_at_def fill_def)
qed

lemma write_inode_eq:
  assumes "disk_ok s" "0 < n" "n < devsize s"
  shows "write_inode n buf s = (0, s\<lparr>disk_image := write_at (disk_image s) (nat (16384 + n * 256)) (take 256 buf)\<rparr>)"
proof -
  have o: "inode_offset n = 16384 + n * 256" using assms by (simp add: inode_offset_eq disk_ok_def)
  show ?thesis
    unfolding write_inode_def o using assms by (simp add: lseek_ok_def disk_ok_def)
qed

lemma inode_at_write_inode:
  assumes "has_table s" "0 < n" "n < 10000" "n < devsize s" "length buf = 256" "0 \<le> m" "m < 10000"
  shows "inode_at (snd (write_inode n buf s)) m = (if m = n then buf else inode_at s m)"
proof (cases "m = n")
  case True
  then show ?thesis using assms by (simp add: write_inode_eq has_table_def inode_at_def read_write_same)
next
  case False
  then have "nat (16384 + m * 256) + 256 \<le> nat (16384 + n * 256) \<or> nat (16384 + n * 256) + 256 \<le> nat (16384 + m * 256)"
    using assms by arith
  moreover have "nat (16384 + m * 256) + 256 \<le> length (disk_image s)" "nat (16384 + n * 256) \<le> length (disk_image s)"
    using assms by (auto simp: has_table_def disk_ok_def)
  ultimately show ?thesis using assms False
    by (simp add: write_inode_eq has_table_def inode_at_def read_write_apart)
qed

lemma block_at_write_inode:
  assumes "has_table s" "0 < n" "n < devsize s" "length buf = 256" "0 \<le> c" "c < devsize s"
    "c \<noteq> 16 + n div 4" "n < 10000"
  shows "block_at (snd (write_inode n buf s)) c = block_at s c"
proof -
  have "nat (c * 1024) + 1024 \<le> nat (16384 + n * 256) \<or> nat (16384 + n * 256) + 256 \<le> nat (c * 1024)"
    using assms by arith
  moreover have "nat (c * 1024) + 1024 \<le> length (disk_image s)" "nat (16384 + n * 256) \<le> length (disk_image s)"
    using assms by (auto simp: has_table_def disk_ok_def)
  ultimately show ?thesis using assms
    by (simp add: write_inode_eq has_table_def block_at_def read_write_apart)
qed

lemma inode_at_write_block:
  assumes "has_table s" "0 \<le> b" "b < devsize s" "b < 16 \<or> 2516 \<le> b" "1024 \<le> length buf" "0 \<le> m" "m < 10000"
  shows "inode_at (snd (write_block b buf s)) m = inode_at s m"
proof -
  have "nat (16384 + m * 256) + 256 \<le> nat (b * 1024) \<or> nat (b * 1024) + 1024 \<le> nat (16384 + m * 256)"
    using assms by arith
  moreover have "nat (16384 + m * 256) + 256 \<le> length (disk_image s)" "nat (b * 1024) \<le> length (disk_image s)"
    using assms by (auto simp: has_table_def disk_ok_def)
  ultimately show ?thesis using assms
    by (simp add: write_block_eq has_table_def inode_at_def read_write_apart)
qed

section \<open>The allocators\<close>

lemma sint_byte_not_255: "sint (b :: u8) \<noteq> 255"
  using sint_lt [of b] by simp

lemma scan_maps_first: "scan_maps s i (Suc n) bits = (i, 0, snd (read_block s i bits))"
  by (simp add: sint_byte_not_255 BLOCKSIZE_def eval_nat_numeral)

lemma shifted_bit: "k < 8 \<Longrightarrow> NOT (push_bit k (ucast (b :: u8) :: u32)) AND 0x80 \<noteq> 0 \<longleftrightarrow> \<not> bit b (7 - k)"
proof -
  assume k: "k < 8"
  have m: "(0x80 :: u32) = 2 ^ 7" by simp
  have "bit (NOT (push_bit k (ucast b :: u32))) 7 \<longleftrightarrow> \<not> bit b (7 - k)"
    using k by (auto simp: bit_not_iff bit_push_bit_iff bit_ucast_iff)
  then show ?thesis unfolding m and_exp_eq_0_iff_not_bit by simp
qed

text \<open>The first clear bit of a byte, counted from the most significant; 8 when all are set.\<close>

lemma first_clear_correct:
  assumes "k + n = 8" "\<forall>i < k. bit b (7 - i)"
  shows "first_clear b k n \<le> 8 \<and> (\<forall>i < first_clear b k n. bit b (7 - i))
    \<and> (first_clear b k n < 8 \<longrightarrow> \<not> bit b (7 - first_clear b k n))"
  using assms
proof (induction n arbitrary: k)
  case (Suc n)
  show ?case
  proof (cases "bit b (7 - k)")
    case True
    then have "\<forall>i < Suc k. bit b (7 - i)" using Suc.prems by (simp add: less_Suc_eq)
    then show ?thesis using Suc.IH [of "Suc k"] Suc.prems True by (simp add: shifted_bit)
  next
    case False
    then show ?thesis using Suc.prems by (simp add: shifted_bit)
  qed
qed simp

definition first_free :: "u8 \<Rightarrow> nat" where
  "first_free b = first_clear b 0 8"

lemma first_free_le: "first_free b \<le> 8"
  using first_clear_correct [of 0 8 b] by (simp add: first_free_def)

lemma first_free_0: "first_free 0 = 0"
  by code_simp

lemma length_set_map_bit [simp]: "length (set_map_bit bits r) = length bits"
  by (simp add: set_map_bit_def)

lemma set_map_bit_nth: "i \<noteq> nat (r div 8) \<Longrightarrow> set_map_bit bits r ! i = bits ! i"
  by (simp add: set_map_bit_def)

lemma set_map_bit_bit:
  assumes "0 \<le> r" "nat (r div 8) < length bits" "n < 8"
  shows "bit (set_map_bit bits r ! nat (r div 8)) n \<longleftrightarrow> n = nat (7 - r mod 8) \<or> bit (bits ! nat (r div 8)) n"
proof -
  have "nat (8 - 1 - r mod 8) = nat (7 - r mod 8)" "nat (7 - r mod 8) < 8" by simp_all
  then show ?thesis using assms unfolding set_map_bit_def by (simp add: byte_set_bit del: push_bit_of_1)
qed

text \<open>
  The comparison with \<open>0xff\<close> never fails, so the search stops at byte 0 of the first map block,
  and the bit that is set lies in another byte of it.
\<close>

lemma get_block_eq:
  fixes r :: int
  assumes "disk_ok s" "1 < devsize s" "length junk = 1024"
  defines "r \<equiv> 2516 + int (first_free (block_at s 1 ! 0))"
  shows "get_block junk s = (r, snd (write_block 1 (set_map_bit (block_at s 1) r) s))"
proof -
  have n: "nat (INODE_MAP_START - BLOCK_MAP_START) = Suc 12" by (simp add: disk_constants)
  have rb: "snd (read_block s 1 junk) = block_at s 1"
    using assms length_block_at [of s 1] by (simp add: read_block_eq fill_full)
  have m: "scan_maps s BLOCK_MAP_START (nat (INODE_MAP_START - BLOCK_MAP_START)) junk = (1, 0, block_at s 1)"
    unfolding n scan_maps_first by (simp add: rb BLOCK_MAP_START_def)
  have "r < 102400" using first_free_le [of "block_at s 1 ! 0"] by (simp add: r_def)
  then show ?thesis
    unfolding get_block_def m by (simp add: Let_def disk_constants first_free_def [symmetric] r_def)
qed

lemma get_inode_eq:
  fixes r :: int
  assumes "disk_ok s" "14 < devsize s" "length junk = 1024"
  defines "r \<equiv> 16 + int (first_free (block_at s 14 ! 0))"
  shows "get_inode junk s = (r, snd (write_block 14 (set_map_bit (block_at s 14) r) s))"
proof -
  have n: "nat (INODE_TABLE_START - INODE_MAP_START) = Suc 1" by (simp add: disk_constants)
  have rb: "snd (read_block s 14 junk) = block_at s 14"
    using assms length_block_at [of s 14] by (simp add: read_block_eq fill_full)
  have m: "scan_maps s INODE_MAP_START (nat (INODE_TABLE_START - INODE_MAP_START)) junk = (14, 0, block_at s 14)"
    unfolding n scan_maps_first by (simp add: rb INODE_MAP_START_def)
  have "r < 10000" using first_free_le [of "block_at s 14 ! 0"] by (simp add: r_def)
  then show ?thesis
    unfolding get_inode_def m by (simp add: Let_def disk_constants first_free_def [symmetric] r_def)
qed

text \<open>
  The states before and after a bit of a bitmap is set: bit \<open>r\<close> of the map's block, counting the
  most significant bit of each byte first, and nothing else of the disk.
\<close>

definition marks :: "simdisk \<Rightarrow> int \<Rightarrow> nat \<Rightarrow> simdisk \<Rightarrow> bool" where
  "marks s mb r s' \<longleftrightarrow> s' = s\<lparr>disk_image := disk_image s'\<rparr> \<and>
     (\<forall>i < 1024. \<forall>n < 8. bit (block_at s' mb ! i) n \<longleftrightarrow>
        i = r div 8 \<and> n = 7 - r mod 8 \<or> bit (block_at s mb ! i) n) \<and>
     (\<forall>c. 0 \<le> c \<and> c < devsize s \<and> c \<noteq> mb \<longrightarrow> block_at s' c = block_at s c)"

lemma marks_write:
  assumes "disk_ok s" "0 \<le> mb" "mb < devsize s" "r div 8 < 1024"
  shows "marks s mb r (snd (write_block mb (set_map_bit (block_at s mb) (int r)) s))"
proof -
  let ?bits = "block_at s mb" and ?s = "snd (write_block mb (set_map_bit (block_at s mb) (int r)) s)"
  have l: "length ?bits = 1024" using assms by (simp add: length_block_at)
  have at: "block_at ?s mb = set_map_bit ?bits (int r)"
    using assms l by (simp add: block_at_write_block)
  have d: "nat (int r div 8) = r div 8" by (metis nat_int of_nat_numeral zdiv_int)
  have m: "nat (7 - int r mod 8) = 7 - r mod 8" by (metis nat_int nat_minus_as_int of_nat_numeral zmod_int)
  have "bit (block_at ?s mb ! i) n \<longleftrightarrow> i = r div 8 \<and> n = 7 - r mod 8 \<or> bit (?bits ! i) n"
    if "i < 1024" "n < 8" for i n
    using set_map_bit_nth [of i "int r" ?bits] set_map_bit_bit [of "int r" ?bits n] that assms(4) l
    unfolding at d m by (cases "i = r div 8") simp_all
  moreover have "block_at ?s c = block_at s c" if "0 \<le> c \<and> c < devsize s \<and> c \<noteq> mb" for c
    using that assms l by (simp add: block_at_write_block)
  moreover have "?s = s\<lparr>disk_image := disk_image ?s\<rparr>" using assms by (simp add: write_block_eq)
  ultimately show ?thesis unfolding marks_def by blast
qed

text \<open>The byte of the map that is tested is not the one that is written.\<close>

lemma get_block_table: "has_table s \<Longrightarrow> length junk = 1024 \<Longrightarrow> has_table (snd (get_block junk s))"
  by (subst get_block_eq) (simp_all add: has_table_write, simp_all add: has_table_def)

lemma get_inode_table: "has_table s \<Longrightarrow> length junk = 1024 \<Longrightarrow> has_table (snd (get_inode junk s))"
  by (subst get_inode_eq) (simp_all add: has_table_write, simp_all add: has_table_def)

lemma get_block_byte0:
  "has_table s \<Longrightarrow> length junk = 1024 \<Longrightarrow> block_at (snd (get_block junk s)) 1 ! 0 = block_at s 1 ! 0"
  by (subst get_block_eq)
    (simp_all add: has_table_def block_at_write_block length_block_at set_map_bit_nth)

lemma get_inode_byte0:
  "has_table s \<Longrightarrow> length junk = 1024 \<Longrightarrow> block_at (snd (get_inode junk s)) 14 ! 0 = block_at s 14 ! 0"
  by (subst get_inode_eq)
    (simp_all add: has_table_def block_at_write_block length_block_at set_map_bit_nth)

lemma get_block_keeps:
  assumes "has_table s" "has_table s1" "length junk = 1024" "length junk' = 1024"
    "block_at s1 1 = block_at (snd (get_block junk s)) 1"
  shows "fst (get_block junk' s1) = fst (get_block junk s)"
proof -
  have "block_at s1 1 ! 0 = block_at s 1 ! 0" using assms by (simp add: get_block_byte0)
  then show ?thesis using assms(1-4) by (simp add: get_block_eq has_table_def)
qed

lemma get_inode_keeps:
  assumes "has_table s" "has_table s1" "length junk = 1024" "length junk' = 1024"
    "block_at s1 14 = block_at (snd (get_inode junk s)) 14"
  shows "fst (get_inode junk' s1) = fst (get_inode junk s)"
proof -
  have "block_at s1 14 ! 0 = block_at s 14 ! 0" using assms by (simp add: get_inode_byte0)
  then show ?thesis using assms(1-4) by (simp add: get_inode_eq has_table_def)
qed

section \<open>Properties\<close>

lemma block_transfer:
  assumes "disk_ok s" "length buf = 1024" "0 \<le> b" "b < devsize s" "0 \<le> c" "c < devsize s" "length junk = 1024"
  shows "read_block (snd (write_block b buf s)) c junk = (0, if c = b then buf else snd (read_block s c junk))"
proof -
  let ?s = "snd (write_block b buf s)"
  have ok: "disk_ok ?s" "devsize ?s = devsize s" using assms by (simp_all add: disk_ok_write_block)
  have l: "length (block_at ?s c) = 1024" "length (block_at s c) = 1024"
    using assms ok by (simp_all add: length_block_at)
  show ?thesis
    using assms ok l by (simp add: read_block_eq fill_full block_at_write_block)
qed

text \<open>A disk of 12000 blocks of zeros, for the witnesses.\<close>

definition zero_disk :: simdisk where
  "zero_disk = \<lparr>dev_f = 3, disk_image = replicate (12000 * 1024) 0, devsize = 12000,
     fd = replicate MAX_OPEN_FILES (-1), cwd_inode = 1\<rparr>"

lemma zero_disk_simps [simp]: "devsize zero_disk = 12000" "dev_f zero_disk = 3" "length (disk_image zero_disk) = 12288000"
  by (simp_all add: zero_disk_def)

lemma has_table_zero_disk: "has_table zero_disk" "disk_ok zero_disk"
  by (simp_all add: has_table_def disk_ok_def)

lemma zero_block_at: "0 \<le> b \<Longrightarrow> b < 12000 \<Longrightarrow> block_at zero_disk b ! 0 = 0"
  by (simp add: block_at_def read_at_def zero_disk_def)

text \<open>
  C18. Writing a block of the disk succeeds; reading it back gives the bytes written and every other
  block reads as before. A block number outside the disk is refused by both operations and
  nothing changes.
\<close>

theorem block_transfers:
  assumes "disk_ok s" "length buf = 1024" "length junk = 1024" "-2097152 \<le> b"
  shows "if 0 \<le> b \<and> b < devsize s
    then fst (write_block b buf s) = 0 \<and> devsize (snd (write_block b buf s)) = devsize s \<and>
      (\<forall>c. 0 \<le> c \<and> c < devsize s \<longrightarrow> read_block (snd (write_block b buf s)) c junk =
        (0, if c = b then buf else snd (read_block s c junk)))
    else write_block b buf s = (-1, s) \<and> read_block s b junk = (-1, junk)"
proof (cases "0 \<le> b \<and> b < devsize s")
  case True
  then show ?thesis using assms block_transfer [OF assms(1,2) _ _ _ _ assms(3)]
    by (simp add: write_block_eq)
next
  case False
  then have "devsize s \<le> b \<or> b < 0 \<and> -2097152 \<le> b" using assms(4) by auto
  then have "write_block b buf s = (-1, s) \<and> read_block s b junk = (-1, junk)"
    by (simp add: write_block_refused read_block_refused)
  then show ?thesis using False by (simp only: if_False)
qed

theorem block_transfers_witness:
  "read_block (snd (write_block 7 (replicate 1024 5) zero_disk)) 7 (replicate 1024 1) = (0, replicate 1024 5)
   \<and> write_block 12000 (replicate 1024 5) zero_disk = (-1, zero_disk)"
proof
  show "read_block (snd (write_block 7 (replicate 1024 5) zero_disk)) 7 (replicate 1024 1) = (0, replicate 1024 5)"
    using block_transfers [OF has_table_zero_disk(2), of "replicate 1024 5" "replicate 1024 1" 7]
    by (simp)
  show "write_block 12000 (replicate 1024 5) zero_disk = (-1, zero_disk)"
    using block_transfers [OF has_table_zero_disk(2), of "replicate 1024 5" "replicate 1024 1" 12000]
    by (simp)
qed

text \<open>
  On a disk that holds the inode table, writing inode n (1 to 9999, and below the number of
  blocks) succeeds; it reads back, every other inode reads as before, and no block outside the
  table (the maps, the superblock, the data) changes.
\<close>

theorem inode_transfers:
  assumes "has_table s" "0 < n" "n < MAX_FILE_NUM" "n < devsize s"
    "length buf = 256" "length ibuf = 256" "length junk = 1024"
  shows "fst (write_inode n buf s) = 0 \<and>
    (\<forall>m. 0 < m \<and> m < MAX_FILE_NUM \<longrightarrow> read_inode (snd (write_inode n buf s)) m ibuf =
       (0, if m = n then buf else snd (read_inode s m ibuf))) \<and>
    (\<forall>c. 0 \<le> c \<and> c < devsize s \<and> (c < INODE_TABLE_START \<or> BLOCK_TABLE_START \<le> c) \<longrightarrow>
       read_block (snd (write_inode n buf s)) c junk = read_block s c junk)"
proof (intro conjI allI impI)
  let ?s = "snd (write_inode n buf s)"
  have t: "has_table ?s" "disk_ok ?s" "disk_ok s" "devsize ?s = devsize s"
    using assms by (simp_all add: has_table_write disk_ok_write_inode has_table_def)
  show "fst (write_inode n buf s) = 0" using assms t by (simp add: write_inode_eq)
  show "read_inode ?s m ibuf = (0, if m = n then buf else snd (read_inode s m ibuf))"
    if "0 < m \<and> m < MAX_FILE_NUM" for m
    using that assms t by (simp add: read_inode_eq inode_at_write_inode MAX_FILE_NUM_def)
  show "read_block ?s c junk = read_block s c junk"
    if c: "0 \<le> c \<and> c < devsize s \<and> (c < INODE_TABLE_START \<or> BLOCK_TABLE_START \<le> c)" for c
  proof -
    have "c \<noteq> 16 + n div 4" using assms c by (auto simp: disk_constants)
    then show ?thesis using assms t c
      by (simp add: read_block_eq block_at_write_inode MAX_FILE_NUM_def)
  qed
qed

theorem inode_transfers_witness:
  "read_inode (snd (write_inode 9 (replicate 256 5) zero_disk)) 9 (replicate 256 1) = (0, replicate 256 5)"
  using inode_transfers [OF has_table_zero_disk(1), of 9 "replicate 256 5" "replicate 256 1" "replicate 1024 1"]
  by (simp add: MAX_FILE_NUM_def)

text \<open>
  write_inode checks the inode number against the number of blocks of the disk instead of the
  number of inodes. An inode number past the table that is below the number of blocks is
  accepted (read_inode refuses it): the write lands in a data block, for inode 10000 in the root
  directory's. A number the table has but the disk has not as many blocks is refused.
\<close>

theorem write_inode_guard:
  assumes "has_table s" "length buf = 256" "length ibuf = 256" "length junk = 1024"
  shows "(MAX_FILE_NUM \<le> n \<and> n < devsize s \<longrightarrow>
      fst (write_inode n buf s) = 0 \<and> read_inode (snd (write_inode n buf s)) n ibuf = (-1, ibuf) \<and>
      BLOCK_TABLE_START \<le> 16 + n div 4 \<and> 16 + n div 4 < devsize s \<and>
      take 256 (drop (nat (n mod 4) * 256) (snd (read_block (snd (write_inode n buf s)) (16 + n div 4) junk))) = buf)
    \<and> (devsize s \<le> n \<longrightarrow> write_inode n buf s = (-1, s))"
proof (intro conjI impI)
  let ?s = "snd (write_inode n buf s)"
  assume n: "MAX_FILE_NUM \<le> n \<and> n < devsize s"
  then have n': "10000 \<le> n" "n < devsize s" by (simp_all add: MAX_FILE_NUM_def)
  have t: "disk_ok s" "disk_ok ?s" using assms by (simp_all add: has_table_def disk_ok_write_inode)
  have eq: "write_inode n buf s = (0, s\<lparr>disk_image := write_at (disk_image s) (nat (16384 + n * 256)) buf\<rparr>)"
    using n' t assms by (simp add: write_inode_eq)
  show "fst (write_inode n buf s) = 0" by (simp add: eq)
  show "read_inode ?s n ibuf = (-1, ibuf)" using n by (simp add: read_inode_def)
  show "BLOCK_TABLE_START \<le> 16 + n div 4" "16 + n div 4 < devsize s" using n' by (simp_all add: disk_constants)
  then have b: "0 \<le> 16 + n div 4" "16 + n div 4 < devsize ?s" using n' by (simp_all add: eq)
  have rb: "snd (read_block ?s (16 + n div 4) junk) = block_at ?s (16 + n div 4)"
    using b t assms(4) length_block_at [OF t(2) b] by (simp add: read_block_eq fill_full)
  have off: "nat (n mod 4) * 256 + nat ((16 + n div 4) * 1024) = nat (16384 + n * 256)"
  proof -
    have "n div 4 * 1024 + n mod 4 * 256 = n * 256" "0 \<le> n div 4" using n' by presburger+
    then have "int (nat (n mod 4) * 256 + nat ((16 + n div 4) * 1024)) = int (nat (16384 + n * 256))"
      by simp
    then show ?thesis by (simp only: of_nat_eq_iff)
  qed
  have "nat (n mod 4) * 256 + 256 \<le> 1024" by simp
  then have "take 256 (drop (nat (n mod 4) * 256) (take 1024 l)) = take 256 (drop (nat (n mod 4) * 256) l)" for l :: bytes
    by (simp add: take_drop min_def)
  then have "take 256 (drop (nat (n mod 4) * 256) (block_at ?s (16 + n div 4))) = read_at (disk_image ?s) (nat (16384 + n * 256)) 256"
    unfolding block_at_def read_at_def by (simp only: drop_drop off)
  also have "\<dots> = buf" using assms(2) by (simp add: eq read_write_same)
  finally show "take 256 (drop (nat (n mod 4) * 256) (snd (read_block ?s (16 + n div 4) junk))) = buf"
    by (simp add: rb)
next
  assume "devsize s \<le> n"
  then show "write_inode n buf s = (-1, s)" by (simp add: write_inode_def)
qed

theorem write_inode_guard_witness:
  "fst (write_inode 10000 (replicate 256 5) zero_disk) = 0 \<and>
   take 256 (snd (read_block (snd (write_inode 10000 (replicate 256 5) zero_disk)) BLOCK_TABLE_START
     (replicate 1024 1))) = replicate 256 5 \<and>
   write_inode 12000 (replicate 256 5) zero_disk = (-1, zero_disk)"
  using write_inode_guard [OF has_table_zero_disk(1), of "replicate 256 5" "replicate 256 1" "replicate 1024 1" 10000]
    write_inode_guard [OF has_table_zero_disk(1), of "replicate 256 5" "replicate 256 1" "replicate 1024 1" 12000]
  by (simp add: disk_constants)

text \<open>
  C19. get_block answers block 2516 + k, where k is the first clear bit of the first byte of the
  block map, 8 when none is clear, whatever the rest of the map says. All it changes is one bit of
  the map's block, bit 2516 + k, in byte 314 or 315 instead of byte 0. get_inode answers inode
  16 + k in the same way from the inode map, and sets bit 16 + k, in byte 2 or 3.
\<close>

theorem allocators_value:
  fixes kb ki :: nat
  assumes "has_table s" "length junk = 1024"
  defines "kb \<equiv> first_free (block_at s BLOCK_MAP_START ! 0)" and "ki \<equiv> first_free (block_at s INODE_MAP_START ! 0)"
  shows "kb \<le> 8 \<and> fst (get_block junk s) = BLOCK_TABLE_START + int kb
      \<and> marks s BLOCK_MAP_START (2516 + kb) (snd (get_block junk s))
    \<and> ki \<le> 8 \<and> fst (get_inode junk s) = INODE_TABLE_START + int ki
      \<and> marks s INODE_MAP_START (16 + ki) (snd (get_inode junk s))"
proof -
  have s: "disk_ok s" "1 < devsize s" "14 < devsize s" using assms(1) by (simp_all add: has_table_def)
  have k: "kb \<le> 8" "ki \<le> 8" by (simp_all add: kb_def ki_def first_free_le)
  have b: "get_block junk s = (2516 + int kb, snd (write_block 1 (set_map_bit (block_at s 1) (int (2516 + kb))) s))"
    using get_block_eq [OF s(1,2) assms(2)] by (simp add: kb_def BLOCK_MAP_START_def)
  have i: "get_inode junk s = (16 + int ki, snd (write_block 14 (set_map_bit (block_at s 14) (int (16 + ki))) s))"
    using get_inode_eq [OF s(1,3) assms(2)] by (simp add: ki_def INODE_MAP_START_def)
  have "(2516 + kb) div 8 < 1024" "(16 + ki) div 8 < 1024" using k by simp_all
  then have "marks s 1 (2516 + kb) (snd (get_block junk s))" "marks s 14 (16 + ki) (snd (get_inode junk s))"
    unfolding b i using s by (simp_all only: snd_conv marks_write)
  then show ?thesis using k b i by (simp add: disk_constants)
qed

theorem allocators_value_witness:
  "fst (get_block (replicate 1024 7) zero_disk) = 2516 \<and> fst (get_inode (replicate 1024 7) zero_disk) = 16"
  using allocators_value [OF has_table_zero_disk(1), of "replicate 1024 7"]
  by (simp add: disk_constants zero_block_at first_free_0)

text \<open>
  Because the bit set is not the bit tested, an allocation is never recorded: as long as nothing
  else rewrites the map's block, the next call answers the same block, or the same inode, again.
\<close>

theorem allocators_repeat:
  assumes "has_table s" "has_table s1" "has_table s2" "length junk = 1024" "length junk' = 1024"
    "block_at s1 BLOCK_MAP_START = block_at (snd (get_block junk s)) BLOCK_MAP_START"
    "block_at s2 INODE_MAP_START = block_at (snd (get_inode junk s)) INODE_MAP_START"
  shows "fst (get_block junk' s1) = fst (get_block junk s) \<and> fst (get_inode junk' s2) = fst (get_inode junk s)"
  using get_block_keeps [OF assms(1,2,4,5)] get_inode_keeps [OF assms(1,3,4,5)] assms(6,7)
  by (simp add: disk_constants)

theorem allocators_repeat_witness:
  fixes s1 s2 :: simdisk and junk :: bytes
  defines "junk \<equiv> replicate 1024 7"
  defines "s1 \<equiv> snd (get_block junk zero_disk)" and "s2 \<equiv> snd (get_inode junk zero_disk)"
  shows "fst (get_block junk s1) = fst (get_block junk zero_disk) \<and> fst (get_inode junk s2) = fst (get_inode junk zero_disk)"
proof -
  have j: "length junk = 1024" by (simp add: junk_def)
  have "has_table s1" "has_table s2"
    using has_table_zero_disk get_block_table [OF _ j] get_inode_table [OF _ j] by (simp_all add: s1_def s2_def)
  then show ?thesis
    using allocators_repeat [OF has_table_zero_disk(1) _ _ j j, of s1 s2] by (simp add: s1_def s2_def)
qed

end
