(* ===== verification/SimCodec.thy ===== *)
theory SimCodec
  imports BlockDev
begin

text \<open>
  The structures the simulated disk stores (kernal/file_system/simdisk.h): \<open>struct inode\<close>,
  \<open>struct dirEntry\<close> and \<open>struct dir\<close> as records and lists, with their layout in bytes on a
  little-endian target with 32-bit \<open>int\<close>s, C strings, and the round trips between the two.
\<close>

section \<open>Integers in bytes\<close>

definition bytes_of_int :: "int \<Rightarrow> bytes" where
  "bytes_of_int v = (let w = word_of_int v :: u32 in
     [ucast w, ucast (drop_bit 8 w), ucast (drop_bit 16 w), ucast (drop_bit 24 w)])"

definition int_of_bytes :: "u8 \<Rightarrow> u8 \<Rightarrow> u8 \<Rightarrow> u8 \<Rightarrow> int" where
  "int_of_bytes a b c d = sint (ucast a OR push_bit 8 (ucast b) OR push_bit 16 (ucast c) OR push_bit 24 (ucast d) :: u32)"

fun ints_of :: "nat \<Rightarrow> bytes \<Rightarrow> int list" where
  "ints_of (Suc n) (a # b # c # d # bs) = int_of_bytes a b c d # ints_of n bs"
| "ints_of _ _ = []"

definition bytes_of_ints :: "int list \<Rightarrow> bytes" where
  "bytes_of_ints xs = concat (map bytes_of_int xs)"

section \<open>Structures\<close>

text \<open>
  \<open>struct inode\<close> takes 208 bytes with its padding (one byte after \<open>mode\<close>, one after \<open>unused\<close>),
  but the code transfers 256. \<open>i_rest\<close> holds \<open>unused\<close>, the padding and the 48 bytes of memory
  that follow the structure and travel with it.
\<close>

record inode =
  i_type :: int
  i_num :: int
  i_size :: int
  i_uid :: int
  i_gid :: int
  i_mode :: bytes
  i_blocks :: "int list"
  i_ind_blocks :: "int list"
  i_rest :: bytes

definition inode_of_bytes :: "bytes \<Rightarrow> inode" where
  "inode_of_bytes bs = (let h = ints_of 5 bs in
     \<lparr>i_type = h ! 0, i_num = h ! 1, i_size = h ! 2, i_uid = h ! 3, i_gid = h ! 4,
      i_mode = take 12 (drop 20 bs), i_blocks = ints_of 10 (drop 32 bs),
      i_ind_blocks = ints_of 30 (drop 72 bs), i_rest = drop 192 bs\<rparr>)"

definition bytes_of_inode :: "inode \<Rightarrow> bytes" where
  "bytes_of_inode n =
     bytes_of_ints [i_type n, i_num n, i_size n, i_uid n, i_gid n] @ i_mode n @
     bytes_of_ints (i_blocks n) @ bytes_of_ints (i_ind_blocks n) @ i_rest n"

text \<open>\<open>struct dirEntry\<close>: 64 bytes, the 50 of the name and two of padding at its end.\<close>

record dentry =
  d_inode :: int
  d_type :: int
  d_length :: int
  d_name :: bytes

definition dentry_of_bytes :: "bytes \<Rightarrow> dentry" where
  "dentry_of_bytes bs = (let h = ints_of 3 bs in
     \<lparr>d_inode = h ! 0, d_type = h ! 1, d_length = h ! 2, d_name = drop 12 bs\<rparr>)"

definition bytes_of_dentry :: "dentry \<Rightarrow> bytes" where
  "bytes_of_dentry e = bytes_of_ints [d_inode e, d_type e, d_length e] @ d_name e"

text \<open>\<open>struct dir\<close>: 32 entries, 2048 bytes, of which a block holds the first 16.\<close>

fun dir_of_bytes :: "nat \<Rightarrow> bytes \<Rightarrow> dentry list" where
  "dir_of_bytes 0 bs = []"
| "dir_of_bytes (Suc n) bs = dentry_of_bytes (take 64 bs) # dir_of_bytes n (drop 64 bs)"

definition bytes_of_dir :: "dentry list \<Rightarrow> bytes" where
  "bytes_of_dir es = concat (map bytes_of_dentry es)"

section \<open>Round trips\<close>

definition int32 :: "int \<Rightarrow> bool" where
  "int32 v \<longleftrightarrow> - (2 ^ 31) \<le> v \<and> v < 2 ^ 31"

lemma int_of_bytes_of_int:
  assumes "int32 v"
  shows "int_of_bytes (ucast (word_of_int v :: u32)) (ucast (drop_bit 8 (word_of_int v :: u32)))
    (ucast (drop_bit 16 (word_of_int v :: u32))) (ucast (drop_bit 24 (word_of_int v :: u32))) = v"
proof -
  have "load32 (store32 (\<lambda>_. 0) 0 w) 0 = w" for w :: u32 by (rule load32_store32_same)
  then have "(ucast (ucast w :: u8) OR push_bit 8 (ucast (ucast (drop_bit 8 w) :: u8))
      OR push_bit 16 (ucast (ucast (drop_bit 16 w) :: u8)) OR push_bit 24 (ucast (ucast (drop_bit 24 w) :: u8))) = w"
    for w :: u32 by (simp add: load32_def store32_def)
  then have "int_of_bytes (ucast w) (ucast (drop_bit 8 w)) (ucast (drop_bit 16 w)) (ucast (drop_bit 24 w)) = sint w"
    for w :: u32 unfolding int_of_bytes_def by simp
  moreover have "sint (word_of_int v :: u32) = v"
    using assms by (simp add: int32_def sint_sbintrunc' signed_take_bit_int_eq_self)
  ultimately show ?thesis by simp
qed

lemma bytes_of_int_of_bytes: "bytes_of_int (int_of_bytes a b c d) = [a, b, c, d]"
proof -
  define w :: u32 where "w = ucast a OR push_bit 8 (ucast b) OR push_bit 16 (ucast c) OR push_bit 24 (ucast d)"
  have "(ucast w :: u8) = a" "(ucast (drop_bit 8 w) :: u8) = b" "(ucast (drop_bit 16 w) :: u8) = c"
    "(ucast (drop_bit 24 w) :: u8) = d"
    by (rule bit_word_eqI; auto simp: w_def bit_simps dest: bit_imp_le_length)+
  moreover have "int_of_bytes a b c d = sint w" by (simp add: int_of_bytes_def w_def)
  ultimately show ?thesis by (simp add: bytes_of_int_def)
qed

lemma length_bytes_of_ints [simp]: "length (bytes_of_ints xs) = 4 * length xs"
  by (induction xs) (simp_all add: bytes_of_ints_def bytes_of_int_def Let_def)

lemma ints_of_bytes_of_ints:
  "length xs = n \<Longrightarrow> \<forall>x \<in> set xs. int32 x \<Longrightarrow> ints_of n (bytes_of_ints xs @ rest) = xs"
proof (induction xs arbitrary: n)
  case (Cons x xs)
  then show ?case by (cases n) (simp_all add: bytes_of_ints_def bytes_of_int_def Let_def int_of_bytes_of_int)
qed (simp add: bytes_of_ints_def)

lemma bytes_of_ints_of:
  "4 * n \<le> length bs \<Longrightarrow> bytes_of_ints (ints_of n bs) = take (4 * n) bs"
proof (induction n bs rule: ints_of.induct)
  case (1 n a b c d bs)
  then have "bytes_of_ints (ints_of n bs) = take (4 * n) bs" by simp
  moreover have "take (4 * Suc n) (a # b # c # d # bs) = [a, b, c, d] @ take (4 * n) bs" by (simp add: eval_nat_numeral)
  ultimately show ?case by (simp add: bytes_of_ints_def bytes_of_int_of_bytes del: mult_Suc_right)
qed (simp_all add: bytes_of_ints_def)

lemma length_ints_of: "4 * n \<le> length bs \<Longrightarrow> length (ints_of n bs) = n"
  by (induction n bs rule: ints_of.induct) simp_all

lemma int32_int_of_bytes: "int32 (int_of_bytes a b c d)"
proof -
  have "- (2 ^ 31) \<le> sint w \<and> sint w < 2 ^ 31" for w :: u32
    using sint_greater_eq [of w] sint_lt [of w] by simp
  then show ?thesis unfolding int32_def int_of_bytes_def by blast
qed

lemma int32_ints_of: "x \<in> set (ints_of n bs) \<Longrightarrow> int32 x"
  by (induction n bs rule: ints_of.induct) (auto simp: int32_int_of_bytes)

text \<open>The structures whose fields have the sizes and ranges of the declarations.\<close>

definition inode_ok :: "inode \<Rightarrow> bool" where
  "inode_ok n \<longleftrightarrow> int32 (i_type n) \<and> int32 (i_num n) \<and> int32 (i_size n) \<and> int32 (i_uid n) \<and> int32 (i_gid n) \<and>
     length (i_mode n) = 12 \<and> length (i_blocks n) = 10 \<and> (\<forall>b \<in> set (i_blocks n). int32 b) \<and>
     length (i_ind_blocks n) = 30 \<and> (\<forall>b \<in> set (i_ind_blocks n). int32 b) \<and> length (i_rest n) = 64"

definition dentry_ok :: "dentry \<Rightarrow> bool" where
  "dentry_ok e \<longleftrightarrow> int32 (d_inode e) \<and> int32 (d_type e) \<and> int32 (d_length e) \<and> length (d_name e) = 52"

definition dir_ok :: "dentry list \<Rightarrow> bool" where
  "dir_ok es \<longleftrightarrow> length es = 32 \<and> (\<forall>e \<in> set es. dentry_ok e)"

lemma length_bytes_of_inode: "inode_ok n \<Longrightarrow> length (bytes_of_inode n) = 256"
  by (simp add: bytes_of_inode_def inode_ok_def)

lemma inode_of_bytes_of_inode:
  assumes "inode_ok n"
  shows "inode_of_bytes (bytes_of_inode n) = n"
proof -
  let ?h = "[i_type n, i_num n, i_size n, i_uid n, i_gid n]"
  have l: "length (i_mode n) = 12" "length (i_blocks n) = 10" "length (i_ind_blocks n) = 30"
    using assms by (simp_all add: inode_ok_def)
  have 1: "ints_of 5 (bytes_of_inode n) = ?h"
    using assms unfolding bytes_of_inode_def by (intro ints_of_bytes_of_ints) (simp_all add: inode_ok_def)
  have 2: "drop 32 (bytes_of_inode n) = bytes_of_ints (i_blocks n) @ bytes_of_ints (i_ind_blocks n) @ i_rest n"
    using l by (simp add: bytes_of_inode_def)
  have 3: "drop 72 (bytes_of_inode n) = bytes_of_ints (i_ind_blocks n) @ i_rest n"
    using l by (simp add: bytes_of_inode_def)
  have 4: "ints_of 10 (drop 32 (bytes_of_inode n)) = i_blocks n" "ints_of 30 (drop 72 (bytes_of_inode n)) = i_ind_blocks n"
    unfolding 2 3 using assms by (simp_all add: ints_of_bytes_of_ints inode_ok_def)
  have 5: "take 12 (drop 20 (bytes_of_inode n)) = i_mode n" "drop 192 (bytes_of_inode n) = i_rest n"
    using l by (simp_all add: bytes_of_inode_def)
  show ?thesis unfolding inode_of_bytes_def Let_def 1 4 5 by simp
qed

lemma inode_ok_of_bytes:
  assumes "length bs = 256"
  shows "inode_ok (inode_of_bytes bs)"
proof -
  have "length (ints_of 5 bs) = 5" using assms by (simp add: length_ints_of)
  then have "int32 (ints_of 5 bs ! i)" if "i < 5" for i
    using that by (intro int32_ints_of [of _ 5 bs]) simp
  then show ?thesis using assms
    by (auto simp: inode_ok_def inode_of_bytes_def Let_def length_ints_of int32_ints_of)
qed

lemma length_bytes_of_dentry: "dentry_ok e \<Longrightarrow> length (bytes_of_dentry e) = 64"
  by (simp add: bytes_of_dentry_def dentry_ok_def)

lemma dentry_of_bytes_of_dentry:
  assumes "dentry_ok e"
  shows "dentry_of_bytes (bytes_of_dentry e) = e"
proof -
  have "ints_of 3 (bytes_of_dentry e) = [d_inode e, d_type e, d_length e]"
    using assms unfolding bytes_of_dentry_def by (intro ints_of_bytes_of_ints) (simp_all add: dentry_ok_def)
  moreover have "drop 12 (bytes_of_dentry e) = d_name e" by (simp add: bytes_of_dentry_def)
  ultimately show ?thesis by (simp add: dentry_of_bytes_def)
qed

lemma dentry_ok_of_bytes:
  assumes "length bs = 64"
  shows "dentry_ok (dentry_of_bytes bs)"
proof -
  have "length (ints_of 3 bs) = 3" using assms by (simp add: length_ints_of)
  then have "int32 (ints_of 3 bs ! i)" if "i < 3" for i
    using that by (intro int32_ints_of [of _ 3 bs]) simp
  then show ?thesis using assms by (simp add: dentry_ok_def dentry_of_bytes_def Let_def)
qed

lemma length_bytes_of_dir:
  "\<forall>e \<in> set es. dentry_ok e \<Longrightarrow> length (bytes_of_dir es) = 64 * length es"
  by (induction es) (simp_all add: bytes_of_dir_def length_bytes_of_dentry)

lemma length_dir_of_bytes [simp]: "length (dir_of_bytes n bs) = n"
  by (induction n arbitrary: bs) simp_all

lemma dir_of_bytes_of_dir:
  "\<forall>e \<in> set es. dentry_ok e \<Longrightarrow> dir_of_bytes (length es) (bytes_of_dir es @ rest) = es"
  by (induction es) (simp_all add: bytes_of_dir_def length_bytes_of_dentry dentry_of_bytes_of_dentry)

lemma dir_of_bytes_append:
  "length bs = 64 * n \<Longrightarrow> dir_of_bytes (n + m) (bs @ rest) = dir_of_bytes n bs @ dir_of_bytes m rest"
  by (induction n arbitrary: bs) simp_all

lemma dir_ok_of_bytes: "64 * n \<le> length bs \<Longrightarrow> e \<in> set (dir_of_bytes n bs) \<Longrightarrow> dentry_ok e"
proof (induction n arbitrary: bs)
  case (Suc n)
  then have "64 * n \<le> length (drop 64 bs)" by simp
  with Suc show ?case using Suc.IH [of "drop 64 bs"] by (auto simp: dentry_ok_of_bytes)
qed simp

lemma take_bytes_of_dir:
  assumes "\<forall>e \<in> set es. dentry_ok e" "k \<le> length es"
  shows "take (64 * k) (bytes_of_dir es) = bytes_of_dir (take k es)" "drop (64 * k) (bytes_of_dir es) = bytes_of_dir (drop k es)"
proof -
  have "bytes_of_dir es = bytes_of_dir (take k es) @ bytes_of_dir (drop k es)"
    by (simp add: bytes_of_dir_def flip: concat_append map_append)
  moreover have "length (bytes_of_dir (take k es)) = 64 * k"
    using assms by (subst length_bytes_of_dir) (auto dest: in_set_takeD)
  ultimately show "take (64 * k) (bytes_of_dir es) = bytes_of_dir (take k es)" "drop (64 * k) (bytes_of_dir es) = bytes_of_dir (drop k es)"
    by simp_all
qed

end
