(* ===== verification/SimFs.thy ===== *)
theory SimFs
  imports SimCodec
begin

text \<open>
  The operations of the simulated disk's file system: \<open>my_mkfs\<close> and \<open>find\<close> of
  kernal/file_system/simdisk.c, \<open>my_open\<close>, \<open>my_creat\<close> and \<open>my_close\<close> of file.c (\<open>my_read\<close> is in SimRead). Memory that
  the code reads before writing it (from \<open>malloc\<close> or on the stack) is the record \<open>garbage\<close>, an
  argument. Where the C code has no defined behaviour (a write past an array on the stack, a
  variable read before it is set, the byte before a string) the result is \<^term>\<open>None\<close>.
\<close>

section \<open>The model\<close>

definition FILE_TYPE :: int where "FILE_TYPE = 1"
definition DIR_TYPE :: int where "DIR_TYPE = 2"
definition MAX_LEVEL :: nat where "MAX_LEVEL = 10"
definition MAX_FILE_NAME_LENGTH :: nat where "MAX_FILE_NAME_LENGTH = 50"

abbreviation (input) SLASH :: u8 where "SLASH \<equiv> 0x2F"

record garbage =
  g_inode :: inode
  g_dir :: "dentry list"
  g_stack_inode :: inode
  g_stack_dir :: "dentry list"
  g_arg :: bytes
  g_bits :: bytes

text \<open>\<open>read_inode\<close>, \<open>read_block\<close> and their duals on structures; a failed read leaves the structure as it was.\<close>

definition load_inode :: "simdisk \<Rightarrow> int \<Rightarrow> inode \<Rightarrow> inode" where
  "load_inode s n i = inode_of_bytes (snd (read_inode s n (bytes_of_inode i)))"

text \<open>The transfer is of 1024 bytes, half of the structure.\<close>

definition load_dir :: "simdisk \<Rightarrow> int \<Rightarrow> dentry list \<Rightarrow> dentry list" where
  "load_dir s b es = dir_of_bytes 32 (snd (read_block s b (bytes_of_dir es)))"

subsection \<open>find\<close>

text \<open>
  The path is split into the rows of the array \<open>arg\<close>, ten rows of fifty bytes, one after the other
  in memory; a component longer than a row runs into the next one. The result is the number of
  complete components and the array, or \<^term>\<open>Some None\<close> for a path with too many.
\<close>

fun split_path :: "bytes \<Rightarrow> nat \<Rightarrow> nat \<Rightarrow> bytes \<Rightarrow> (nat \<times> bytes) option option" where
  "split_path [] j k arg = Some (Some (j, arg))"
| "split_path (c # cs) j k arg =
     (if j = MAX_LEVEL then Some None
      else if j * MAX_FILE_NAME_LENGTH + k \<ge> MAX_LEVEL * MAX_FILE_NAME_LENGTH then None
      else if c \<noteq> SLASH then split_path cs j (k + 1) (arg[j * MAX_FILE_NAME_LENGTH + k := c])
      else split_path cs (j + 1) 0 (arg[j * MAX_FILE_NAME_LENGTH + k := 0]))"

definition arg_row :: "bytes \<Rightarrow> nat \<Rightarrow> bytes" where
  "arg_row arg i = cstr (drop (i * MAX_FILE_NAME_LENGTH) arg)"

text \<open>The search of one directory block; \<open>d\<close> says that the path names a directory.\<close>

fun scan_dir :: "bool \<Rightarrow> bytes \<Rightarrow> dentry list \<Rightarrow> dentry option" where
  "scan_dir d name [] = None"
| "scan_dir d name (e # es) =
     (if d_inode e = 0 \<or> d \<and> d_type e = FILE_TYPE \<or> \<not> d \<and> d_type e = DIR_TYPE then scan_dir d name es
      else if cstr (d_name e) = name then Some e
      else if d_length e = 64 then (case es of [] \<Rightarrow> None | _ # es' \<Rightarrow> scan_dir d name es')
      else scan_dir d name es)"

fun scan_blocks :: "simdisk \<Rightarrow> bool \<Rightarrow> bytes \<Rightarrow> int list \<Rightarrow> dentry list \<Rightarrow> dentry option \<times> dentry list" where
  "scan_blocks s d name [] direc = (None, direc)"
| "scan_blocks s d name (b # bs) direc =
     (if b \<le> 0 then scan_blocks s d name bs direc
      else (let direc = load_dir s b direc in
            case scan_dir d name direc of
              Some e \<Rightarrow> (Some e, direc)
            | None \<Rightarrow> scan_blocks s d name bs direc))"

fun walk :: "simdisk \<Rightarrow> bool \<Rightarrow> bytes list \<Rightarrow> inode \<Rightarrow> dentry list \<Rightarrow> inode option" where
  "walk s d [] tmp direc = Some tmp"
| "walk s d (name # names) tmp direc =
     (case scan_blocks s d name (i_blocks tmp) direc of
        (None, _) \<Rightarrow> None
      | (Some e, direc) \<Rightarrow> walk s d names (load_inode s (d_inode e) tmp) direc)"

definition find_inode :: "garbage \<Rightarrow> bytes \<Rightarrow> simdisk \<Rightarrow> inode option option" where
  "find_inode g path s =
     (if path = [SLASH] then Some (Some (load_inode s 1 (g_inode g)))
      else if path = [] then None
      else
        (let absu = hd path = SLASH;
             d = last path = SLASH in
         case split_path (if absu then tl path else path) 0 0 (g_arg g) of
           None \<Rightarrow> None
         | Some None \<Rightarrow> Some None
         | Some (Some (j, arg)) \<Rightarrow>
             (let tmp = load_inode s (if absu then 1 else cwd_inode s) (g_inode g) in
              Some (walk s d (map (arg_row arg) [0..<(if d then j else j + 1)]) tmp (g_dir g)))))"

subsection \<open>my_mkfs\<close>

text \<open>
  \<open>struct inode\<close> has no member \<open>name\<close>, so the assignments to it (in \<open>my_mkfs\<close> and
  \<open>my_creat\<close>) are left out.
\<close>

definition set_cstr :: "bytes \<Rightarrow> bytes \<Rightarrow> bytes" where
  "set_cstr buf t = fill buf (t @ [0])"

definition root_inode :: "inode \<Rightarrow> inode" where
  "root_inode r = r\<lparr>i_type := DIR_TYPE, i_num := 1, i_size := 1, i_uid := 0, i_gid := 0,
     i_mode := set_cstr (i_mode r) (str ''rwxr-xr-x''),
     i_blocks := BLOCK_TABLE_START # replicate 9 (-1), i_ind_blocks := replicate 30 (-1)\<rparr>"

definition dot_entry :: "string \<Rightarrow> dentry \<Rightarrow> dentry" where
  "dot_entry name e = e\<lparr>d_inode := 1, d_type := DIR_TYPE, d_length := 32, d_name := set_cstr (d_name e) (str name)\<rparr>"

definition my_mkfs :: "garbage \<Rightarrow> (bytes \<Rightarrow> (bytes \<times> bool) option) \<Rightarrow> bytes \<Rightarrow> simdisk \<Rightarrow> simdisk" where
  "my_mkfs g host path s =
     (let tmp = snd (read_block s 0 (replicate 1024 0)) in
      if hd (ints_of 1 tmp) = 2018 then s
      else
        (let (block_num, s) = dev_open host path s;
             sb = bytes_of_ints [2018, block_num, MAX_FILE_NUM, 99883, 2499] @ replicate 1004 0;
             s = snd (write_block 0 sb s);
             s = s\<lparr>fd := replicate MAX_OPEN_FILES (-1)\<rparr>;
             tmp = tmp[0 := 0x80];
             s = snd (write_block BLOCK_MAP_START tmp s);
             tmp = tmp[0 := 0xc0];
             s = snd (write_block INODE_MAP_START tmp s);
             s = snd (write_inode 1 (bytes_of_inode (root_inode (g_inode g))) s);
             root_block = (g_dir g)[0 := dot_entry ''.'' (g_dir g ! 0), 1 := dot_entry ''..'' (g_dir g ! 1)]
         in snd (write_block BLOCK_TABLE_START (bytes_of_dir root_block) s)))"

subsection \<open>Open files\<close>

text \<open>The first free slot of the table of open files takes the inode number; -1 when there is none.\<close>

fun free_slot :: "nat \<Rightarrow> int list \<Rightarrow> nat option" where
  "free_slot i [] = None"
| "free_slot i (x # xs) = (if x = -1 \<or> x = 0 then Some i else free_slot (Suc i) xs)"

definition take_slot :: "int \<Rightarrow> simdisk \<Rightarrow> int \<times> simdisk" where
  "take_slot inum s =
     (case free_slot 0 (fd s) of
        None \<Rightarrow> (-1, s)
      | Some i \<Rightarrow> (int i, s\<lparr>fd := (fd s)[i := inum]\<rparr>))"

definition my_open :: "garbage \<Rightarrow> bytes \<Rightarrow> simdisk \<Rightarrow> (int \<times> simdisk) option" where
  "my_open g path s =
     (case find_inode g path s of
        None \<Rightarrow> None
      | Some None \<Rightarrow> Some (-1, s)
      | Some (Some this) \<Rightarrow> Some (take_slot (i_num this) s))"

text \<open>\<open>my_close\<close> has no bounds check; an index outside the table writes other memory.\<close>

definition my_close :: "int \<Rightarrow> simdisk \<Rightarrow> simdisk option" where
  "my_close fdd s =
     (if 0 \<le> fdd \<and> fdd < int MAX_OPEN_FILES then Some (s\<lparr>fd := (fd s)[nat fdd := -1]\<rparr>) else None)"

subsection \<open>my_creat\<close>

text \<open>The position of the last slash; without one the variable \<open>div\<close> is never set.\<close>

fun last_slash :: "nat \<Rightarrow> bytes \<Rightarrow> nat option \<Rightarrow> nat option" where
  "last_slash i [] p = p"
| "last_slash i (c # cs) p = last_slash (Suc i) cs (if c = SLASH then Some i else p)"

text \<open>The search for a file of that name: whether one is there, and the directory buffer it leaves.\<close>

fun name_taken :: "simdisk \<Rightarrow> bytes \<Rightarrow> int list \<Rightarrow> dentry list \<Rightarrow> bool \<times> dentry list" where
  "name_taken s name [] direc = (False, direc)"
| "name_taken s name (b # bs) direc =
     (if b = -1 then name_taken s name bs direc
      else (let direc = load_dir s b direc in
            if \<exists>e \<in> set direc. d_inode e \<noteq> 0 \<and> d_type e = FILE_TYPE \<and> cstr (d_name e) = name
            then (True, direc)
            else name_taken s name bs direc))"

fun empty_entry :: "nat \<Rightarrow> dentry list \<Rightarrow> nat option" where
  "empty_entry j [] = None"
| "empty_entry j (e # es) = (if d_inode e = 0 then Some j else empty_entry (Suc j) es)"

text \<open>
  The search for an empty entry: the block it is in, its index and the directory buffer. A missing
  block is allocated (the directory's inode, a copy, is not written back). When all ten blocks
  are full the index stays unset.
\<close>

fun find_empty :: "bytes \<Rightarrow> simdisk \<Rightarrow> int list \<Rightarrow> dentry list \<Rightarrow> (int \<times> nat \<times> dentry list \<times> simdisk) option" where
  "find_empty junk s [] direc = None"
| "find_empty junk s (b # bs) direc =
     (if b \<noteq> -1 then
        (let direc = load_dir s b direc in
         case empty_entry 0 direc of
           Some j \<Rightarrow> Some (b, j, direc, s)
         | None \<Rightarrow> find_empty junk s bs direc)
      else
        (let (b, s) = get_block junk s in Some (b, 0, load_dir s b direc, s)))"

definition new_entry :: "int \<Rightarrow> bytes \<Rightarrow> dentry \<Rightarrow> dentry" where
  "new_entry newinode name e = e\<lparr>d_inode := newinode, d_type := FILE_TYPE,
     d_length := (if length name < 32 then 32 else 32), d_name := fill (d_name e) name\<rparr>"

definition file_inode :: "int \<Rightarrow> int \<Rightarrow> inode \<Rightarrow> inode" where
  "file_inode newinode blk i = i\<lparr>i_type := FILE_TYPE, i_num := newinode,
     i_mode := set_cstr (i_mode i) (str ''rw-rw-r--''), i_size := 0,
     i_blocks := blk # replicate 9 (-1), i_ind_blocks := replicate 30 (-1)\<rparr>"

text \<open>From the empty entry on: allocate the inode, write the entry and the inode, open the file.\<close>

definition creat_in :: "garbage \<Rightarrow> bytes \<Rightarrow> int \<Rightarrow> nat \<Rightarrow> dentry list \<Rightarrow> simdisk \<Rightarrow> int \<times> simdisk" where
  "creat_in g name b j direc s =
     (let (newinode, s) = get_inode (g_bits g) s in
      if newinode = -1 then (-1, s)
      else
        (let direc = direc[j := new_entry newinode name (direc ! j)];
             s = snd (write_block b (bytes_of_dir direc) s);
             tmp = load_inode s newinode (g_stack_inode g);
             (blk, s) = get_block (g_bits g) s;
             s = snd (write_inode newinode (bytes_of_inode (file_inode newinode blk tmp)) s)
         in take_slot newinode s))"

definition my_creat :: "garbage \<Rightarrow> bytes \<Rightarrow> simdisk \<Rightarrow> (int \<times> simdisk) option" where
  "my_creat g path s =
     (case last_slash 0 path None of
        None \<Rightarrow> None
      | Some dv \<Rightarrow>
          (let dir_name = take dv path;
               file_name = drop (dv + 1) path in
           if dv + 1 > MAX_FILE_NAME_LENGTH * MAX_LEVEL \<or> length file_name + 1 > MAX_FILE_NAME_LENGTH then None
           else
             (case find_inode g dir_name s of
                None \<Rightarrow> None
              | Some None \<Rightarrow> Some (-1, s)
              | Some (Some cur) \<Rightarrow>
                  if i_type cur = FILE_TYPE then Some (-1, s)
                  else
                    (case name_taken s file_name (i_blocks cur) (g_stack_dir g) of
                       (True, _) \<Rightarrow> Some (-1, s)
                     | (False, direc) \<Rightarrow>
                         (case find_empty (g_bits g) s (i_blocks cur) direc of
                            None \<Rightarrow> None
                          | Some (b, j, direc, s) \<Rightarrow> Some (creat_in g file_name b j direc s))))))"

end
