(* ===== verification/SimFsProps.thy ===== *)
theory SimFsProps
  imports SimFs
begin

text \<open>
  Properties of the simulated disk's file system: what \<open>my_mkfs\<close> leaves on the disk, which paths
  \<open>find\<close> resolves, the table of open files, and what \<open>my_creat\<close> does.
\<close>

section \<open>Structures on the disk\<close>

definition garbage_ok :: "garbage \<Rightarrow> bool" where
  "garbage_ok g \<longleftrightarrow> inode_ok (g_inode g) \<and> inode_ok (g_stack_inode g) \<and> dir_ok (g_dir g) \<and>
     dir_ok (g_stack_dir g) \<and> length (g_arg g) = 500 \<and> length (g_bits g) = 1024"

lemma load_inode_eq:
  "has_table s \<Longrightarrow> 0 < n \<Longrightarrow> n < 10000 \<Longrightarrow> inode_ok i \<Longrightarrow> load_inode s n i = inode_of_bytes (inode_at s n)"
  by (simp add: load_inode_def read_inode_eq length_bytes_of_inode)

lemma length_read_at: "length (read_at img off n) \<le> n"
  by (simp add: read_at_def)

lemma inode_ok_load:
  assumes "inode_ok i"
  shows "inode_ok (load_inode s n i)"
proof -
  have "length (snd (read_inode s n (bytes_of_inode i))) = 256"
    using length_read_at [of "disk_image s" "nat (inode_offset n)" 256] length_bytes_of_inode [OF assms]
    by (simp add: read_inode_def Let_def length_fill)
  then show ?thesis by (simp add: load_inode_def inode_ok_of_bytes)
qed

text \<open>A directory block fills entries 0 to 15; the others keep what the buffer had.\<close>

definition dir_at :: "simdisk \<Rightarrow> int \<Rightarrow> dentry list" where
  "dir_at s b = dir_of_bytes 16 (block_at s b)"

lemma length_dir_at [simp]: "length (dir_at s b) = 16"
  by (simp add: dir_at_def)

lemma load_dir_eq:
  assumes "disk_ok s" "0 \<le> b" "b < devsize s" "dir_ok es"
  shows "load_dir s b es = dir_at s b @ drop 16 es"
proof -
  have es: "length es = 32" "\<forall>e \<in> set es. dentry_ok e" using assms(4) by (simp_all add: dir_ok_def)
  have l: "length (block_at s b) = 1024" using assms by (simp add: length_block_at)
  have d: "drop 1024 (bytes_of_dir es) = bytes_of_dir (drop 16 es)"
    using take_bytes_of_dir(2) [of es 16] es by simp
  have "\<forall>e \<in> set (drop 16 es). dentry_ok e" using es by (auto dest: in_set_dropD)
  then have "dir_of_bytes 16 (bytes_of_dir (drop 16 es)) = drop 16 es"
    using dir_of_bytes_of_dir [of "drop 16 es" "[]"] es by simp
  then show ?thesis
    using dir_of_bytes_append [of "block_at s b" 16 16] l assms
    by (simp add: load_dir_def read_block_eq fill_def d dir_at_def)
qed

lemma load_dir_refused:
  assumes "devsize s \<le> b \<or> b < 0 \<and> -2097152 \<le> b" "dir_ok es"
  shows "load_dir s b es = es"
  using dir_of_bytes_of_dir [of es "[]"] assms by (simp add: load_dir_def read_block_refused dir_ok_def)

lemma dir_ok_append_at: "disk_ok s \<Longrightarrow> 0 \<le> b \<Longrightarrow> b < devsize s \<Longrightarrow> dir_ok es \<Longrightarrow> dir_ok (dir_at s b @ drop 16 es)"
  using dir_ok_of_bytes [of 16 "block_at s b"] length_block_at [of s b]
  by (auto simp: dir_ok_def dir_at_def dest: in_set_dropD)

lemma dir_at_write:
  assumes "disk_ok s" "0 \<le> b" "b < devsize s" "dir_ok es"
  shows "dir_at (snd (write_block b (bytes_of_dir es) s)) b = take 16 es"
proof -
  have es: "length es = 32" "\<forall>e \<in> set es. dentry_ok e" using assms(4) by (simp_all add: dir_ok_def)
  then have "length (bytes_of_dir es) = 2048" by (simp add: length_bytes_of_dir)
  then have "block_at (snd (write_block b (bytes_of_dir es) s)) b = take 1024 (bytes_of_dir es)"
    using assms by (simp add: block_at_write_block)
  also have "\<dots> = bytes_of_dir (take 16 es)" using take_bytes_of_dir(1) [of es 16] es by simp
  finally have b: "block_at (snd (write_block b (bytes_of_dir es) s)) b = bytes_of_dir (take 16 es)" .
  show ?thesis unfolding dir_at_def b
    using dir_of_bytes_of_dir [of "take 16 es" "[]"] es by (auto dest: in_set_takeD)
qed

section \<open>my_mkfs\<close>

definition has_magic :: "simdisk \<Rightarrow> bool" where
  "has_magic s \<longleftrightarrow> hd (ints_of 1 (block_at s 0)) = 2018"

definition root_dir :: "garbage \<Rightarrow> dentry list" where
  "root_dir g = (g_dir g)[0 := dot_entry ''.'' (g_dir g ! 0), 1 := dot_entry ''..'' (g_dir g ! 1)]"

definition superblock :: "int \<Rightarrow> bytes" where
  "superblock n = bytes_of_ints [2018, n, MAX_FILE_NUM, 99883, 2499] @ replicate 1004 0"

lemma length_superblock [simp]: "length (superblock n) = 1024"
  by (simp add: superblock_def)

lemma fd_frame [simp]:
  "block_at (s\<lparr>fd := x\<rparr>) = block_at s" "inode_at (s\<lparr>fd := x\<rparr>) = inode_at s"
  "has_table (s\<lparr>fd := x\<rparr>) = has_table s" "disk_ok (s\<lparr>fd := x\<rparr>) = disk_ok s"
  by (simp_all add: fun_eq_iff block_at_def inode_at_def has_table_def disk_ok_def)

lemma length_str [simp]: "length (str t) = length t"
  by (simp add: str_def)

lemma length_set_cstr: "length t < length buf \<Longrightarrow> length (set_cstr buf t) = length buf"
  by (simp add: set_cstr_def length_fill)

lemma root_inode_ok: "inode_ok i \<Longrightarrow> inode_ok (root_inode i)"
  by (auto simp: inode_ok_def root_inode_def length_set_cstr int32_def DIR_TYPE_def BLOCK_TABLE_START_def)

lemma dot_entry_ok: "dentry_ok e \<Longrightarrow> length t < 52 \<Longrightarrow> dentry_ok (dot_entry t e)"
  by (simp add: dentry_ok_def dot_entry_def length_set_cstr int32_def DIR_TYPE_def)

lemma dir_ok_update: "dir_ok es \<Longrightarrow> dentry_ok e \<Longrightarrow> dir_ok (es[j := e])"
  by (auto simp: dir_ok_def dest!: subsetD [OF set_update_subset_insert])

lemma dir_ok_nth: "dir_ok es \<Longrightarrow> j < 32 \<Longrightarrow> dentry_ok (es ! j)"
  by (simp add: dir_ok_def)

lemma root_dir_ok: "garbage_ok g \<Longrightarrow> dir_ok (root_dir g)"
  by (simp add: root_dir_def garbage_ok_def dir_ok_update dot_entry_ok dir_ok_nth)

text \<open>
  The writes of \<open>my_mkfs\<close>, from the buffer \<open>t\<close> that the superblock was read into on: what they
  leave on an open disk that has the root directory's block.
\<close>

definition format_disk :: "garbage \<Rightarrow> bytes \<Rightarrow> simdisk \<Rightarrow> simdisk" where
  "format_disk g t s =
     snd (write_block 2516 (bytes_of_dir (root_dir g))
     (snd (write_inode 1 (bytes_of_inode (root_inode (g_inode g)))
     (snd (write_block 14 (t[0 := 0x80, 0 := 0xc0])
     (snd (write_block 1 (t[0 := 0x80])
     ((snd (write_block 0 (superblock (devsize s)) s))\<lparr>fd := replicate MAX_OPEN_FILES (-1)\<rparr>))))))))"

lemma format_disk_writes:
  assumes "has_table s" "BLOCK_TABLE_START < devsize s" "garbage_ok g" "length t = 1024"
  shows "has_table (format_disk g t s)" (is ?table)
    and "devsize (format_disk g t s) = devsize s" (is ?size)
    and "fd (format_disk g t s) = replicate MAX_OPEN_FILES (-1)" (is ?fd)
    and "block_at (format_disk g t s) 0 = superblock (devsize s)" (is ?sb)
    and "block_at (format_disk g t s) 1 ! 0 = 0x80" (is ?bm)
    and "block_at (format_disk g t s) 14 ! 0 = 0xc0" (is ?im)
    and "inode_at (format_disk g t s) 1 = bytes_of_inode (root_inode (g_inode g))" (is ?root)
    and "dir_at (format_disk g t s) BLOCK_TABLE_START = take 16 (root_dir g)" (is ?dir)
proof -
  define s1 where "s1 = (snd (write_block 0 (superblock (devsize s)) s))\<lparr>fd := replicate MAX_OPEN_FILES (-1)\<rparr>"
  define s2 where "s2 = snd (write_block 1 (t[0 := 0x80]) s1)"
  define s3 where "s3 = snd (write_block 14 (t[0 := 0x80, 0 := 0xc0]) s2)"
  define s4 where "s4 = snd (write_inode 1 (bytes_of_inode (root_inode (g_inode g))) s3)"
  define s5 where "s5 = snd (write_block 2516 (bytes_of_dir (root_dir g)) s4)"
  have eq: "format_disk g t s = s5"
    by (simp add: format_disk_def s5_def s4_def s3_def s2_def s1_def)
  have dv: "2516 < devsize s" using assms(2) by (simp add: BLOCK_TABLE_START_def)
  have tab: "has_table s1" "has_table s2" "has_table s3" "has_table s4" "has_table s5"
    using assms(1) by (simp_all add: s1_def s2_def s3_def s4_def s5_def has_table_write)
  then have ok: "disk_ok s1" "disk_ok s2" "disk_ok s3" "disk_ok s4" "disk_ok s5" "disk_ok s"
    using assms(1) by (simp_all add: has_table_def)
  have dev: "devsize s1 = devsize s" "devsize s2 = devsize s" "devsize s3 = devsize s" "devsize s4 = devsize s" "devsize s5 = devsize s"
    by (simp_all add: s1_def s2_def s3_def s4_def s5_def)
  have l: "length t = 1024" by (rule assms(4))
  have lr: "length (bytes_of_inode (root_inode (g_inode g))) = 256"
    using assms(3) by (simp add: garbage_ok_def root_inode_ok length_bytes_of_inode)
  have rd: "dir_ok (root_dir g)" using assms(3) by (rule root_dir_ok)
  then have ld: "length (bytes_of_dir (root_dir g)) = 2048" by (simp add: dir_ok_def length_bytes_of_dir)
  show ?table ?size unfolding eq using tab dev by simp_all
  show ?fd unfolding eq by (simp_all add: s1_def s2_def s3_def s4_def s5_def)
  show ?sb unfolding eq
    using tab ok dev dv l lr ld assms(1)
    by (simp add: s5_def block_at_write_block) (simp add: s4_def block_at_write_inode, simp add: s3_def s2_def s1_def block_at_write_block)
  show ?bm unfolding eq
    using tab ok dev dv l lr ld
    by (simp add: s5_def block_at_write_block) (simp add: s4_def block_at_write_inode, simp add: s3_def s2_def block_at_write_block)
  show ?im unfolding eq
    using tab ok dev dv l lr ld
    by (simp add: s5_def block_at_write_block) (simp add: s4_def block_at_write_inode, simp add: s3_def block_at_write_block)
  show ?root unfolding eq
    using tab ok dev dv l lr ld
    by (simp add: s5_def inode_at_write_block) (simp add: s4_def inode_at_write_inode)
  show ?dir unfolding eq s5_def BLOCK_TABLE_START_def
    using ok dev dv rd by (simp add: dir_at_write)
qed

lemma has_magic_superblock: "hd (ints_of 1 (superblock n)) = 2018"
  using ints_of_bytes_of_ints [of "[2018]" 1 "bytes_of_ints [n, MAX_FILE_NUM, 99883, 2499] @ replicate 1004 0"]
  by (simp add: superblock_def bytes_of_ints_def int32_def)

lemma mkfs_open:
  assumes "disk_ok s" "0 < devsize s"
  shows "my_mkfs g host path s = (if has_magic s then s else format_disk g (block_at s 0) s)"
proof -
  have rb: "snd (read_block s 0 (replicate 1024 0)) = block_at s 0"
    using assms length_block_at [of s 0] by (simp add: read_block_eq fill_full)
  have "dev_open host path s = (devsize s, s)" using assms by (simp add: dev_open_def disk_ok_def)
  then show ?thesis
    unfolding my_mkfs_def rb
    by (simp add: Let_def format_disk_def superblock_def root_dir_def disk_constants has_magic_def)
qed

lemma find_root: "find_inode g [SLASH] s = Some (Some (load_inode s 1 (g_inode g)))"
  by (simp add: find_inode_def)

text \<open>Garbage that is zero, for the witnesses.\<close>

definition zero_inode :: inode where
  "zero_inode = \<lparr>i_type = 0, i_num = 0, i_size = 0, i_uid = 0, i_gid = 0, i_mode = replicate 12 0,
     i_blocks = replicate 10 0, i_ind_blocks = replicate 30 0, i_rest = replicate 64 0\<rparr>"

definition zero_entry :: dentry where
  "zero_entry = \<lparr>d_inode = 0, d_type = 0, d_length = 0, d_name = replicate 52 0\<rparr>"

definition zero_garbage :: garbage where
  "zero_garbage = \<lparr>g_inode = zero_inode, g_dir = replicate 32 zero_entry, g_stack_inode = zero_inode,
     g_stack_dir = replicate 32 zero_entry, g_arg = replicate 500 0, g_bits = replicate 1024 0\<rparr>"

lemma zero_garbage_ok: "garbage_ok zero_garbage"
  by (simp add: garbage_ok_def zero_garbage_def inode_ok_def zero_inode_def dir_ok_def dentry_ok_def zero_entry_def int32_def)

lemma hd_ints_zeros: "hd (ints_of 1 (replicate 1024 0)) = 0"
proof -
  have n: "(1024 :: nat) = Suc (Suc (Suc (Suc 1020)))" by simp
  show ?thesis unfolding n One_nat_def by (simp only: replicate_Suc ints_of.simps list.sel) (simp add: int_of_bytes_def)
qed

lemma zero_disk_no_magic: "\<not> has_magic zero_disk"
proof -
  have "block_at zero_disk 0 = replicate 1024 0"
    by (simp add: block_at_def read_at_def zero_disk_def)
  then show ?thesis using hd_ints_zeros by (simp only: has_magic_def)
qed

text \<open>
  C20. my_mkfs on an open disk without a file system writes one: the superblock, the maps, an empty
  table of open files, the root inode (found under the path of one slash, whatever the buffers
  held) and the root directory, whose first two entries are itself and whose others are what
  malloc left in the buffer. A second call finds the magic number and changes nothing.
\<close>

theorem mkfs_formats:
  fixes s' :: simdisk and host :: "bytes \<Rightarrow> (bytes \<times> bool) option" and path :: bytes
  assumes "has_table s" "BLOCK_TABLE_START < devsize s" "garbage_ok g" "garbage_ok g'" "\<not> has_magic s"
  defines "s' \<equiv> my_mkfs g host path s"
  shows "block_at s' 0 = superblock (devsize s) \<and> fd s' = replicate MAX_OPEN_FILES (-1)
    \<and> find_inode g' [SLASH] s' = Some (Some (root_inode (g_inode g)))
    \<and> load_dir s' BLOCK_TABLE_START (g_dir g') = take 16 (root_dir g) @ drop 16 (g_dir g')
    \<and> fst (get_inode (g_bits g') s') = 18 \<and> fst (get_block (g_bits g') s') = 2517
    \<and> my_mkfs g' host' path' s' = s'"
proof -
  have ok: "disk_ok s" "0 < devsize s" using assms by (simp_all add: has_table_def)
  then have l: "length (block_at s 0) = 1024" by (simp add: length_block_at)
  have eq: "s' = format_disk g (block_at s 0) s" using ok assms by (simp add: s'_def mkfs_open)
  note w = format_disk_writes [OF assms(1-3) l, folded eq]
  have ok': "disk_ok s'" "0 < devsize s'" using w(1) by (simp_all add: has_table_def)
  have "find_inode g' [SLASH] s' = Some (Some (inode_of_bytes (inode_at s' 1)))"
    using w(1) assms(4) by (simp add: find_root load_inode_eq garbage_ok_def)
  then have root: "find_inode g' [SLASH] s' = Some (Some (root_inode (g_inode g)))"
    using assms(3) by (simp add: w(7) inode_of_bytes_of_inode root_inode_ok garbage_ok_def)
  have dir: "load_dir s' BLOCK_TABLE_START (g_dir g') = take 16 (root_dir g) @ drop 16 (g_dir g')"
    using ok' w(2,8) assms(2,4) by (simp add: load_dir_eq garbage_ok_def BLOCK_TABLE_START_def)
  have "first_free 0x80 = 1" "first_free 0xc0 = 2" by code_simp+
  moreover have "length (g_bits g') = 1024" using assms(4) by (simp add: garbage_ok_def)
  ultimately have alloc: "fst (get_inode (g_bits g') s') = 18" "fst (get_block (g_bits g') s') = 2517"
    using ok' w(1,5,6) by (simp_all add: get_inode_eq get_block_eq has_table_def)
  have "has_magic s'" by (simp add: has_magic_def w(4) has_magic_superblock del: One_nat_def)
  then have "my_mkfs g' host' path' s' = s'" using ok' by (simp add: mkfs_open)
  with w(3,4) root dir alloc show ?thesis by simp
qed

theorem mkfs_formats_witness:
  "find_inode zero_garbage [SLASH] (my_mkfs zero_garbage (\<lambda>_. None) [] zero_disk) = Some (Some (root_inode zero_inode))"
  using mkfs_formats [OF has_table_zero_disk(1) _ zero_garbage_ok zero_garbage_ok zero_disk_no_magic]
  by (simp add: BLOCK_TABLE_START_def zero_garbage_def)

text \<open>
  The first call of a process reads the superblock before it opens the device, so the read
  fails and the check for an existing file system never succeeds: the disk is formatted again
  whatever it holds, and its root directory is replaced by an empty one.
\<close>

theorem mkfs_before_open:
  fixes s' :: simdisk and host :: "bytes \<Rightarrow> (bytes \<times> bool) option" and path :: bytes
  assumes "dev_f s < 0" "devsize s = 0" "host path = Some (content, True)"
    "2517 * 1024 \<le> length content" "length content \<le> 2 ^ 31" "garbage_ok g" "dir_ok buf"
  defines "s' \<equiv> my_mkfs g host path s"
  shows "load_dir s' BLOCK_TABLE_START buf = take 16 (root_dir g) @ drop 16 buf \<and> block_at s' 0 = superblock (devsize s')"
proof -
  define s0 where "s0 = s\<lparr>dev_f := 3, disk_image := content, devsize := int (length content) div 1024\<rparr>"
  have open0: "dev_open host path s = (devsize s0, s0)"
    using assms(1,3) by (simp add: dev_open_def s0_def BLOCKSIZE_def)
  have rb: "read_block s 0 (replicate 1024 0) = (-1, replicate 1024 0)"
    using assms(2) by (simp add: read_block_refused)
  have "hd (ints_of 1 (replicate 1024 0)) \<noteq> 2018" using hd_ints_zeros by simp
  then have eq: "s' = format_disk g (replicate 1024 0) s0"
    unfolding s'_def my_mkfs_def rb open0
    by (simp add: Let_def format_disk_def superblock_def root_dir_def disk_constants)
  define n where "n = int (length content)"
  have "2577408 \<le> n" "n \<le> 2147483648" using assms(4,5) by (simp_all add: n_def)
  then have "2577408 div 1024 \<le> n div 1024" "n div 1024 \<le> 2147483648 div 1024"
    by (auto intro: zdiv_mono1)
  moreover have "n div 1024 * 1024 \<le> n" using minus_mod_eq_div_mult [of n 1024] by (simp add: minus_mod_eq_div_mult [symmetric])
  ultimately have sz: "2517 \<le> int (length content) div 1024" "int (length content) div 1024 \<le> 2097152"
    "int (length content) div 1024 * 1024 \<le> int (length content)"
    by (simp_all add: n_def)
  have t: "has_table s0" "BLOCK_TABLE_START < devsize s0"
    using sz by (simp_all add: has_table_def disk_ok_def s0_def BLOCK_TABLE_START_def)
  note w = format_disk_writes [OF t assms(6) length_replicate [of _ 0], folded eq]
  show ?thesis
    using w t(2) assms(7) by (simp add: load_dir_eq has_table_def BLOCK_TABLE_START_def)
qed

text \<open>The disk before the device is open, and a host file of the size the witness needs.\<close>

definition closed_disk :: simdisk where
  "closed_disk = \<lparr>dev_f = -1, disk_image = [], devsize = 0, fd = [], cwd_inode = 0\<rparr>"

theorem mkfs_before_open_witness:
  "load_dir (my_mkfs zero_garbage (\<lambda>_. Some (replicate (2517 * 1024) 1, True)) [] closed_disk) BLOCK_TABLE_START
     (replicate 32 zero_entry) = take 16 (root_dir zero_garbage) @ drop 16 (replicate 32 zero_entry)"
  using mkfs_before_open [of closed_disk "\<lambda>_. Some (replicate (2517 * 1024) 1, True)" "[]" "replicate (2517 * 1024) 1"
      zero_garbage "replicate 32 zero_entry"] zero_garbage_ok
  by (simp add: closed_disk_def garbage_ok_def zero_garbage_def)

end
