(* ===== verification/SimFind.thy ===== *)
theory SimFind
  imports SimFsProps
begin

text \<open>
  Path resolution on the simulated disk: how \<open>find\<close> splits a path, which directory entries it
  follows (the relation \<open>reaches\<close>), and what follows for files in directories and for
  \<open>my_creat\<close>.
\<close>

section \<open>Splitting a path\<close>

definition component :: "bytes \<Rightarrow> bool" where
  "component c \<longleftrightarrow> c \<noteq> [] \<and> SLASH \<notin> set c \<and> 0 \<notin> set c \<and> length c < 50"

definition join :: "bytes list \<Rightarrow> bytes" where
  "join cs = concat (map (\<lambda>c. c @ [SLASH]) cs)"

definition put :: "bytes \<Rightarrow> nat \<Rightarrow> bytes \<Rightarrow> bytes" where
  "put arg p c = take p arg @ c @ drop (p + length c) arg"

lemma length_put [simp]: "p + length c \<le> length arg \<Longrightarrow> length (put arg p c) = length arg"
  by (simp add: put_def)

lemma put_Cons: "p + Suc (length c) \<le> length arg \<Longrightarrow> put (arg[p := x]) (Suc p) c = put arg p (x # c)"
  by (simp add: put_def take_Suc_conv_app_nth list_update_append)

lemma put_Nil [simp]: "put arg p [] = arg"
  by (simp add: put_def)

lemma split_path_component:
  assumes "SLASH \<notin> set c" "j < 10" "length arg = 500" "50 * j + k + length c \<le> 500"
  shows "split_path (c @ rest) j k arg = split_path rest j (k + length c) (put arg (50 * j + k) c)"
  using assms
proof (induction c arbitrary: k arg)
  case (Cons x c)
  have "split_path ((x # c) @ rest) j k arg = split_path (c @ rest) j (k + 1) (arg[50 * j + k := x])"
    using Cons.prems by (simp add: MAX_LEVEL_def MAX_FILE_NAME_LENGTH_def mult.commute)
  also have "\<dots> = split_path rest j (k + 1 + length c) (put (arg[50 * j + k := x]) (50 * j + (k + 1)) c)"
    using Cons.prems by (intro Cons.IH) simp_all
  also have "put (arg[50 * j + k := x]) (50 * j + (k + 1)) c = put arg (50 * j + k) (x # c)"
    using Cons.prems put_Cons [of "50 * j + k" c arg x] by simp
  finally show ?case by simp
qed simp

lemma split_path_slash:
  "j < 10 \<Longrightarrow> length arg = 500 \<Longrightarrow> k < 50 \<Longrightarrow>
    split_path (SLASH # rest) j k arg = split_path rest (j + 1) 0 (arg[50 * j + k := 0])"
  by (simp add: MAX_LEVEL_def MAX_FILE_NAME_LENGTH_def mult.commute)

text \<open>A component and its slash fill the start of their row and leave the rows before and after.\<close>

lemma split_path_row:
  assumes "component c" "j < 10" "length arg = 500"
  shows "split_path (c @ SLASH # rest) j 0 arg = split_path rest (j + 1) 0 (put arg (50 * j) (c @ [0]))"
proof -
  have c: "SLASH \<notin> set c" "length c < 50" using assms(1) by (simp_all add: component_def)
  have "(put arg (50 * j) c)[50 * j + length c := 0] = put arg (50 * j) (c @ [0])"
  proof (rule nth_equalityI)
    show "length ((put arg (50 * j) c)[50 * j + length c := 0]) = length (put arg (50 * j) (c @ [0]))"
      using c assms by simp
  next
    fix i assume "i < length ((put arg (50 * j) c)[50 * j + length c := 0])"
    then show "(put arg (50 * j) c)[50 * j + length c := 0] ! i = put arg (50 * j) (c @ [0]) ! i"
      using c assms by (auto simp: put_def nth_list_update nth_append min_def not_less less_Suc_eq)
  qed
  moreover have "split_path (c @ SLASH # rest) j 0 arg = split_path (SLASH # rest) j (length c) (put arg (50 * j) c)"
    using split_path_component [of c j arg 0 "SLASH # rest"] c assms by simp
  moreover have "split_path (SLASH # rest) j (length c) (put arg (50 * j) c)
      = split_path rest (j + 1) 0 ((put arg (50 * j) c)[50 * j + length c := 0])"
    using c assms by (intro split_path_slash) simp_all
  ultimately show ?thesis by simp
qed

lemma put_take: "p + length c \<le> length arg \<Longrightarrow> q \<le> p \<Longrightarrow> take q (put arg p c) = take q arg"
  by (simp add: put_def)

lemma put_drop: "p + length c \<le> q \<Longrightarrow> p + length c \<le> length arg \<Longrightarrow> drop q (put arg p c) = drop q arg"
  by (simp add: put_def)

lemma put_row: "p + length c \<le> length arg \<Longrightarrow> take (length c) (drop p (put arg p c)) = c"
  by (simp add: put_def)

lemma split_path_join:
  assumes "\<forall>c \<in> set cs. component c" "j + length cs \<le> 10" "length arg = 500"
  shows "\<exists>arg'. split_path (join cs @ rest) j 0 arg = split_path rest (j + length cs) 0 arg' \<and> length arg' = 500 \<and>
    take (50 * j) arg' = take (50 * j) arg \<and>
    (\<forall>i < length cs. take (length (cs ! i) + 1) (drop (50 * (j + i)) arg') = cs ! i @ [0]) \<and>
    drop (50 * (j + length cs)) arg' = drop (50 * (j + length cs)) arg"
  using assms
proof (induction cs arbitrary: j arg)
  case (Cons c cs)
  let ?a = "put arg (50 * j) (c @ [0])"
  have c: "component c" "length c < 50" "j < 10" using Cons.prems by (auto simp: component_def)
  have fits: "50 * j + length (c @ [0]) \<le> length arg" using c Cons.prems by simp
  have la: "length ?a = 500" using fits Cons.prems by simp
  from Cons.IH [of "j + 1" ?a] Cons.prems la obtain arg' where
    a: "split_path (join cs @ rest) (j + 1) 0 ?a = split_path rest (j + 1 + length cs) 0 arg'" "length arg' = 500"
       "take (50 * (j + 1)) arg' = take (50 * (j + 1)) ?a"
       "\<forall>i < length cs. take (length (cs ! i) + 1) (drop (50 * (j + 1 + i)) arg') = cs ! i @ [0]"
       "drop (50 * (j + 1 + length cs)) arg' = drop (50 * (j + 1 + length cs)) ?a"
    by auto
  have "split_path (join (c # cs) @ rest) j 0 arg = split_path rest (j + length (c # cs)) 0 arg'"
    using split_path_row [of c j arg "join cs @ rest"] c Cons.prems a(1) by (simp add: join_def)
  moreover have "take (50 * j) arg' = take (50 * j) arg"
  proof -
    have "take (50 * j) arg' = take (50 * j) (take (50 * (j + 1)) arg')" by (simp add: min_def)
    also have "\<dots> = take (50 * j) ?a" unfolding a(3) by (simp add: min_def)
    also have "\<dots> = take (50 * j) arg" using fits by (simp add: put_take)
    finally show ?thesis .
  qed
  moreover have "take (length ((c # cs) ! i) + 1) (drop (50 * (j + i)) arg') = (c # cs) ! i @ [0]"
    if "i < length (c # cs)" for i
  proof (cases i)
    case 0
    have "take (length c + 1) (drop (50 * j) arg') = take (length c + 1) (drop (50 * j) (take (50 * (j + 1)) arg'))"
      using c by (simp add: drop_take)
    also have "\<dots> = take (length c + 1) (drop (50 * j) ?a)"
      unfolding a(3) using c by (simp add: drop_take)
    also have "\<dots> = c @ [0]" using put_row [OF fits] by simp
    finally show ?thesis using 0 by simp
  next
    case (Suc i')
    then show ?thesis using a(4) that by (simp add: add.assoc)
  qed
  moreover have "drop (50 * (j + length (c # cs))) arg' = drop (50 * (j + length (c # cs))) arg"
    using a(5) fits c by (simp add: put_drop add.assoc)
  ultimately show ?case using a(2) by blast
next
  case Nil
  then show ?case by (intro exI [of _ arg]) (simp add: join_def)
qed

lemma cstr_prefix: "take (length c + 1) bs = c @ [0] \<Longrightarrow> 0 \<notin> set c \<Longrightarrow> cstr bs = c"
proof -
  assume t: "take (length c + 1) bs = c @ [0]" and c: "0 \<notin> set c"
  have "bs = (c @ [0]) @ drop (length c + 1) bs" unfolding t [symmetric] by simp
  also have "cstr \<dots> = c" using c by (auto simp: cstr_def takeWhile_append2 takeWhile_tail)
  finally show ?thesis .
qed

lemma cstr_append: "0 \<notin> set c \<Longrightarrow> cstr (c @ bs) = c @ cstr bs"
  by (induction c) (simp_all add: cstr_def)

text \<open>The path from its components, from the root or from the working directory.\<close>

definition start :: "bool \<Rightarrow> bytes" where
  "start absu = (if absu then [SLASH] else [])"

definition start_inode :: "bool \<Rightarrow> garbage \<Rightarrow> simdisk \<Rightarrow> inode" where
  "start_inode absu g s = load_inode s (if absu then 1 else cwd_inode s) (g_inode g)"

lemma join_last: "cs \<noteq> [] \<Longrightarrow> join cs \<noteq> [] \<and> last (join cs) = SLASH"
  by (induction cs) (auto simp: join_def)

lemma find_dir_path:
  assumes "garbage_ok g" "cs \<noteq> []" "\<forall>c \<in> set cs. component c" "length cs \<le> 10"
  shows "find_inode g (start absu @ join cs) s = Some (walk s True cs (start_inode absu g s) (g_dir g))"
proof -
  let ?p = "start absu @ join cs"
  have arg: "length (g_arg g) = 500" using assms(1) by (simp add: garbage_ok_def)
  from split_path_join [of cs 0 "g_arg g" "[]"] assms arg obtain arg' where
    a: "split_path (join cs) 0 0 (g_arg g) = Some (Some (length cs, arg'))"
       "\<forall>i < length cs. take (length (cs ! i) + 1) (drop (50 * i) arg') = cs ! i @ [0]"
    by auto
  have "arg_row arg' i = cs ! i" if "i < length cs" for i
    using a(2) that assms(3) unfolding arg_row_def MAX_FILE_NAME_LENGTH_def
    by (intro cstr_prefix) (auto simp: component_def mult.commute dest: nth_mem)
  then have rows: "map (arg_row arg') [0..<length cs] = cs" by (auto intro: nth_equalityI)
  obtain c cs' where cs: "cs = c # cs'" using assms(2) by (cases cs) auto
  have hd: "(hd ?p = SLASH) = absu"
    using assms(3) cs by (cases c) (auto simp: start_def join_def component_def)
  have "(if absu then tl ?p else ?p) = join cs" by (simp add: start_def)
  moreover have "last ?p = SLASH" using join_last [OF assms(2)] by (simp add: start_def)
  moreover have "2 \<le> length (join cs)" using assms(3) cs by (cases c) (auto simp: join_def component_def)
  then have "?p \<noteq> [SLASH]" "?p \<noteq> []" by (auto simp: start_def)
  ultimately show ?thesis
    unfolding find_inode_def using a(1) rows hd by (simp add: Let_def start_inode_def)
qed

lemma find_file_path:
  assumes "garbage_ok g" "\<forall>c \<in> set cs. component c" "length cs < 10" "component c"
  shows "find_inode g (start absu @ join cs @ c) s =
    Some (walk s False (cs @ [c @ cstr (drop (50 * length cs + length c) (g_arg g))]) (start_inode absu g s) (g_dir g))"
proof -
  let ?p = "start absu @ join cs @ c" and ?n = "length cs"
  have arg: "length (g_arg g) = 500" using assms(1) by (simp add: garbage_ok_def)
  have c: "SLASH \<notin> set c" "0 \<notin> set c" "length c < 50" "c \<noteq> []" using assms(4) by (simp_all add: component_def)
  from split_path_join [of cs 0 "g_arg g" c] assms arg obtain arg' where
    a: "split_path (join cs @ c) 0 0 (g_arg g) = split_path c ?n 0 arg'" "length arg' = 500"
       "\<forall>i < ?n. take (length (cs ! i) + 1) (drop (50 * i) arg') = cs ! i @ [0]"
       "drop (50 * ?n) arg' = drop (50 * ?n) (g_arg g)"
    by auto
  let ?a = "put arg' (50 * ?n) c"
  have fits: "50 * ?n + length c \<le> length arg'" using assms(3) c a(2) by simp
  have sp: "split_path (join cs @ c) 0 0 (g_arg g) = Some (Some (?n, ?a))"
    using split_path_component [of c ?n arg' 0 "[]"] a(1,2) c(1,3) assms(3) by simp
  have rows: "arg_row ?a i = cs ! i" if "i < ?n" for i
  proof -
    have len: "length (cs ! i) < 50" "0 \<notin> set (cs ! i)" using assms(2) that by (auto simp: component_def dest: nth_mem)
    then have q: "50 * i + (length (cs ! i) + 1) \<le> 50 * ?n" using that by simp
    have tk: "take (length (cs ! i) + 1) (drop (50 * i) bs) = drop (50 * i) (take (50 * i + (length (cs ! i) + 1)) bs)" for bs :: bytes
      by (simp add: drop_take)
    have "take (length (cs ! i) + 1) (drop (50 * i) ?a) = cs ! i @ [0]"
      unfolding tk put_take [OF fits q] unfolding tk [symmetric] using a(3) that by simp
    then show ?thesis using len unfolding arg_row_def MAX_FILE_NAME_LENGTH_def
      by (intro cstr_prefix) (simp_all add: mult.commute)
  qed
  have last: "arg_row ?a ?n = c @ cstr (drop (50 * ?n + length c) (g_arg g))"
  proof -
    have "drop (50 * ?n + length c) arg' = drop (length c) (drop (50 * ?n) arg')" by (simp add: add.commute)
    also have "\<dots> = drop (50 * ?n + length c) (g_arg g)" unfolding a(4) by (simp add: add.commute)
    finally have d: "drop (50 * ?n + length c) arg' = drop (50 * ?n + length c) (g_arg g)" .
    have "drop (50 * ?n) ?a = c @ drop (50 * ?n + length c) arg'" using fits by (simp add: put_def)
    with c(2) have "cstr (drop (50 * ?n) ?a) = c @ cstr (drop (50 * ?n + length c) (g_arg g))"
      by (simp add: d cstr_append)
    then show ?thesis by (simp add: arg_row_def MAX_FILE_NAME_LENGTH_def mult.commute)
  qed
  have "map (arg_row ?a) [0..<?n] = cs" using rows by (auto intro: nth_equalityI)
  then have all: "map (arg_row ?a) [0..<?n + 1] = cs @ [c @ cstr (drop (50 * ?n + length c) (g_arg g))]"
    using last by simp
  have hd: "(hd ?p = SLASH) = absu"
  proof (cases cs)
    case Nil
    then show ?thesis using c by (cases c) (simp_all add: start_def join_def)
  next
    case (Cons c' cs')
    then have "component c'" using assms(2) by simp
    then show ?thesis using Cons by (cases c') (simp_all add: start_def join_def component_def)
  qed
  have tl: "(if absu then tl ?p else ?p) = join cs @ c" by (simp add: start_def)
  have "last ?p = last c" using c(4) by simp
  then have l: "last ?p \<noteq> SLASH" using c(1,4) last_in_set [of c] by metis
  have "?p \<noteq> [SLASH]" using l by (metis last_ConsL)
  moreover have "?p \<noteq> []" using c(4) by simp
  ultimately show ?thesis
    unfolding find_inode_def Let_def hd tl sp using l all by (simp add: start_inode_def)
qed

section \<open>Which entries a path follows\<close>

text \<open>
  An entry of a directory: one in a block the directory's inode lists. A read fills only the first half of the
  buffer, so that the search of a block also sees the entries \<open>rest\<close> that the other half held from
  the start. \<open>reaches s rest d i names j\<close> says that the inode \<open>j\<close> is reached from \<open>i\<close> through entries of those
  names that the searches see, none of them a file if the path names a directory (\<open>d\<close>), none of them a
  directory otherwise.
\<close>

definition has_entry :: "simdisk \<Rightarrow> inode \<Rightarrow> dentry \<Rightarrow> bool" where
  "has_entry s i e \<longleftrightarrow> (\<exists>b \<in> set (i_blocks i). 0 < b \<and> b < devsize s \<and> e \<in> set (dir_at s b))"

definition sees_entry :: "simdisk \<Rightarrow> dentry list \<Rightarrow> inode \<Rightarrow> dentry \<Rightarrow> bool" where
  "sees_entry s rest i e \<longleftrightarrow> has_entry s i e \<or> (\<exists>b \<in> set (i_blocks i). 0 < b) \<and> e \<in> set rest"

inductive reaches :: "simdisk \<Rightarrow> dentry list \<Rightarrow> bool \<Rightarrow> inode \<Rightarrow> bytes list \<Rightarrow> inode \<Rightarrow> bool" for s rest d where
  reaches_Nil: "reaches s rest d i [] i"
| reaches_Cons: "sees_entry s rest i e \<Longrightarrow> d_inode e \<noteq> 0 \<Longrightarrow> cstr (d_name e) = name \<Longrightarrow>
    d_type e \<noteq> (if d then FILE_TYPE else DIR_TYPE) \<Longrightarrow>
    reaches s rest d (load_inode s (d_inode e) i) names j \<Longrightarrow> reaches s rest d i (name # names) j"

inductive_cases reaches_ConsE: "reaches s rest d i (name # names) j"

text \<open>Every inode on the way lists only blocks of the disk.\<close>

fun path_ok :: "simdisk \<Rightarrow> dentry list \<Rightarrow> inode \<Rightarrow> bytes list \<Rightarrow> bool" where
  "path_ok s rest i [] = True"
| "path_ok s rest i (name # names) = ((\<forall>b \<in> set (i_blocks i). b < devsize s) \<and>
     (\<forall>e. sees_entry s rest i e \<and> d_inode e \<noteq> 0 \<and> cstr (d_name e) = name \<longrightarrow>
        path_ok s rest (load_inode s (d_inode e) i) names))"

lemma scan_dir_sound:
  "scan_dir d name es = Some e \<Longrightarrow>
    e \<in> set es \<and> d_inode e \<noteq> 0 \<and> cstr (d_name e) = name \<and> d_type e \<noteq> (if d then FILE_TYPE else DIR_TYPE)"
  by (induction d name es rule: scan_dir.induct) (auto split: if_splits list.splits)

lemma scan_blocks_sound:
  assumes "disk_ok s" "dir_ok direc" "\<forall>b \<in> set bs. b < devsize s" "scan_blocks s d name bs direc = (r, direc')"
  shows "dir_ok direc' \<and> drop 16 direc' = drop 16 direc \<and> (\<forall>e. r = Some e \<longrightarrow>
    ((\<exists>b \<in> set bs. 0 < b \<and> b < devsize s \<and> e \<in> set (dir_at s b)) \<or> (\<exists>b \<in> set bs. 0 < b) \<and> e \<in> set (drop 16 direc)) \<and>
    d_inode e \<noteq> 0 \<and> cstr (d_name e) = name \<and> d_type e \<noteq> (if d then FILE_TYPE else DIR_TYPE))"
  using assms
proof (induction s d name bs direc rule: scan_blocks.induct)
  case (2 s d name b bs direc)
  show ?case
  proof (cases "b \<le> 0")
    case True
    then show ?thesis using 2 by auto
  next
    case False
    let ?d = "load_dir s b direc"
    have b: "0 < b" "b < devsize s" using False 2 by auto
    have eq: "?d = dir_at s b @ drop 16 direc" using b 2 by (simp add: load_dir_eq)
    have re: "dir_ok ?d" "drop 16 ?d = drop 16 direc" using 2 b by (simp_all add: eq dir_ok_append_at)
    show ?thesis
    proof (cases "scan_dir d name ?d")
      case None
      then show ?thesis using 2 re False by (auto simp: Let_def)
    next
      case (Some e)
      then have r: "r = Some e" "direc' = ?d" using 2 False by (auto simp: Let_def)
      have e: "e \<in> set ?d" "d_inode e \<noteq> 0" "cstr (d_name e) = name" "d_type e \<noteq> (if d then FILE_TYPE else DIR_TYPE)"
        using scan_dir_sound [OF Some] by auto
      then have "e \<in> set (dir_at s b) \<or> e \<in> set (drop 16 direc)" unfolding eq by auto
      then show ?thesis using r re e b by auto
    qed
  qed
qed auto

lemma walk_sound:
  assumes "disk_ok s" "dir_ok direc" "path_ok s (drop 16 direc) i names" "walk s d names i direc = Some j"
  shows "reaches s (drop 16 direc) d i names j"
  using assms
proof (induction names arbitrary: i direc)
  case (Cons name names)
  obtain r direc' where sb: "scan_blocks s d name (i_blocks i) direc = (r, direc')" by force
  from Cons.prems sb obtain e where r: "r = Some e" and w: "walk s d names (load_inode s (d_inode e) i) direc' = Some j"
    by (auto split: option.splits)
  have e: "dir_ok direc'" "drop 16 direc' = drop 16 direc" "sees_entry s (drop 16 direc) i e" "d_inode e \<noteq> 0"
    "cstr (d_name e) = name" "d_type e \<noteq> (if d then FILE_TYPE else DIR_TYPE)"
    using scan_blocks_sound [OF Cons.prems(1,2) _ sb] Cons.prems(3) r unfolding sees_entry_def has_entry_def by auto
  have "path_ok s (drop 16 direc') (load_inode s (d_inode e) i) names" using Cons.prems(3) e by auto
  from Cons.IH [OF Cons.prems(1) e(1) this w] show ?case
    unfolding e(2) by (rule reaches_Cons [OF e(3-6)])
qed (simp add: reaches_Nil)

text \<open>A buffer whose second half, which no read fills, holds no entry.\<close>

definition rest_empty :: "dentry list \<Rightarrow> bool" where
  "rest_empty es \<longleftrightarrow> dir_ok es \<and> (\<forall>e \<in> set (drop 16 es). d_inode e = 0)"

text \<open>A file path ends at its first name when only directories go by it.\<close>

lemma find_file_none:
  fixes names cs :: "bytes list" and c :: bytes and g :: garbage
  defines "names \<equiv> cs @ [c @ cstr (drop (MAX_FILE_NAME_LENGTH * length cs + length c) (g_arg g))]"
  assumes "garbage_ok g" "\<forall>c \<in> set cs. component c" "disk_ok s" "rest_empty (g_dir g)" "length cs < MAX_LEVEL" "component c"
    "\<forall>b \<in> set (i_blocks (start_inode absu g s)). b < devsize s"
    "\<forall>e. has_entry s (start_inode absu g s) e \<and> d_inode e \<noteq> 0 \<and> cstr (d_name e) = hd names \<longrightarrow> d_type e = DIR_TYPE"
  shows "find_inode g (start absu @ join cs @ c) s = Some None"
proof -
  let ?i = "start_inode absu g s"
  have "names \<noteq> []" by (simp add: names_def)
  then obtain n ns where n: "names = n # ns" "hd names = n" by (cases names) auto
  obtain r direc where sb: "scan_blocks s False n (i_blocks ?i) (g_dir g) = (r, direc)" by force
  have "r = None"
    using scan_blocks_sound [OF assms(4) _ assms(8) sb] assms(5,9) n(2) unfolding has_entry_def rest_empty_def by (cases r) auto
  then have "walk s False names ?i (g_dir g) = None" using sb n(1) by simp
  then show ?thesis
    using find_file_path [OF assms(2,3) _ assms(7), of absu s] assms(6)
    by (simp add: names_def MAX_LEVEL_def MAX_FILE_NAME_LENGTH_def)
qed

section \<open>Properties\<close>

text \<open>
  find splits the path at its slashes. A path of up to ten components that ends in a slash is
  walked by exactly those components, looking for directories. A path whose last component has no
  slash behind it is walked looking for files, and the name of its last step runs on into
  whatever the array held, because that component is never terminated.
\<close>

theorem find_splits:
  assumes "garbage_ok g" "\<forall>c \<in> set cs. component c"
  shows "(cs \<noteq> [] \<and> length cs \<le> MAX_LEVEL \<longrightarrow>
      find_inode g (start absu @ join cs) s = Some (walk s True cs (start_inode absu g s) (g_dir g)))
    \<and> (length cs < MAX_LEVEL \<and> component c \<longrightarrow>
      find_inode g (start absu @ join cs @ c) s =
        Some (walk s False (cs @ [c @ cstr (drop (MAX_FILE_NAME_LENGTH * length cs + length c) (g_arg g))])
          (start_inode absu g s) (g_dir g)))"
  using find_dir_path [OF assms(1) _ assms(2)] find_file_path [OF assms]
  by (simp add: MAX_LEVEL_def MAX_FILE_NAME_LENGTH_def)

theorem find_splits_witness:
  "find_inode zero_garbage [SLASH, 0x61, SLASH] zero_disk =
     Some (walk zero_disk True [[0x61]] (start_inode True zero_garbage zero_disk) (g_dir zero_garbage))"
  using find_splits [OF zero_garbage_ok, of "[[0x61]]" True zero_disk]
  by (simp add: component_def MAX_LEVEL_def start_def join_def)

text \<open>
  C21. When find answers an inode for a path of at most ten components of fewer than 50 characters each, that inode is reached from
  the start of the path through directory entries that bear the names the search looks for. On a
  path that ends in a slash these are its components, and none of the entries is a file. On any other
  path none of the entries is a directory, and the last name is not the last component, but that component with
  whatever the stack held behind it up to a null byte. The entries are those in the blocks of the
  directories on the way, which must lie on the disk, and any that the unread second half of the buffer from malloc
  happened to hold: find follows those as well.
\<close>

theorem find_sound:
  assumes "garbage_ok g" "\<forall>c \<in> set cs. component c" "disk_ok s"
    "d \<and> cs \<noteq> [] \<and> length cs \<le> MAX_LEVEL \<and> path = start absu @ join cs \<and> names = cs
     \<or> \<not> d \<and> length cs < MAX_LEVEL \<and> component c \<and> path = start absu @ join cs @ c \<and>
       names = cs @ [c @ cstr (drop (MAX_FILE_NAME_LENGTH * length cs + length c) (g_arg g))]"
    "path_ok s (drop 16 (g_dir g)) (start_inode absu g s) names" "find_inode g path s = Some (Some j)"
  shows "reaches s (drop 16 (g_dir g)) d (start_inode absu g s) names j"
proof -
  have "find_inode g path s = Some (walk s d names (start_inode absu g s) (g_dir g))"
    using find_dir_path [OF assms(1) _ assms(2), of absu s] find_file_path [OF assms(1,2), of c absu s] assms(4)
    by (auto simp: MAX_LEVEL_def MAX_FILE_NAME_LENGTH_def)
  moreover have "dir_ok (g_dir g)" using assms(1) by (simp add: garbage_ok_def)
  ultimately show ?thesis using walk_sound [OF assms(3) _ assms(5), of d j] assms(6) by simp
qed

text \<open>A disk whose root directory (inode 1, in block 2516) holds one directory, named a, with inode 2.\<close>

definition tree_dir :: "dentry list" where
  "tree_dir = (replicate 32 zero_entry)[0 := zero_entry\<lparr>d_inode := 2, d_type := DIR_TYPE, d_length := 32,
     d_name := 0x61 # replicate 51 0\<rparr>]"

definition tree_disk :: simdisk where
  "tree_disk = snd (write_inode 1 (bytes_of_inode (zero_inode\<lparr>i_type := DIR_TYPE, i_num := 1,
       i_blocks := 2516 # replicate 9 (-1)\<rparr>))
     (snd (write_block 2516 (bytes_of_dir tree_dir) zero_disk)))"

lemma zero_inode_ok: "inode_ok zero_inode" and zero_entry_ok: "dentry_ok zero_entry"
  by (simp_all add: inode_ok_def zero_inode_def int32_def dentry_ok_def zero_entry_def)

lemma tree_disk_facts:
  "has_table tree_disk" "disk_ok tree_disk" "devsize tree_disk = 12000" "dir_at tree_disk 2516 = take 16 tree_dir"
  "inode_of_bytes (inode_at tree_disk 1) = zero_inode\<lparr>i_type := DIR_TYPE, i_num := 1, i_blocks := 2516 # replicate 9 (-1)\<rparr>"
  "inode_of_bytes (inode_at tree_disk 2) = inode_of_bytes (replicate 256 0)"
proof -
  let ?i = "zero_inode\<lparr>i_type := DIR_TYPE, i_num := 1, i_blocks := 2516 # replicate 9 (-1)\<rparr>"
  let ?d = "snd (write_block 2516 (bytes_of_dir tree_dir) zero_disk)"
  have i: "inode_ok ?i" using zero_inode_ok by (auto simp: inode_ok_def int32_def DIR_TYPE_def)
  have d: "dir_ok tree_dir"
    unfolding tree_dir_def
    by (rule dir_ok_update) (simp_all add: dir_ok_def zero_entry_ok, simp add: dentry_ok_def int32_def DIR_TYPE_def)
  have t: "has_table ?d" "disk_ok ?d" using has_table_zero_disk has_table_write by (auto simp: has_table_def)
  have l: "length (bytes_of_inode ?i) = 256" using i by (rule length_bytes_of_inode)
  have ld: "1024 \<le> length (bytes_of_dir tree_dir)" using d by (simp add: dir_ok_def length_bytes_of_dir)
  show "has_table tree_disk" "devsize tree_disk = 12000" "disk_ok tree_disk"
    using t has_table_write by (auto simp: tree_disk_def has_table_def disk_ok_write_inode)
  have "dir_at tree_disk 2516 = dir_at ?d 2516"
    unfolding dir_at_def tree_disk_def using t l by (subst block_at_write_inode) simp_all
  then show "dir_at tree_disk 2516 = take 16 tree_dir"
    using has_table_zero_disk d by (simp add: dir_at_write)
  have "inode_at tree_disk 1 = bytes_of_inode ?i"
    unfolding tree_disk_def using t l by (subst inode_at_write_inode) simp_all
  then show "inode_of_bytes (inode_at tree_disk 1) = ?i" using i by (simp only: inode_of_bytes_of_inode)
  have "inode_at tree_disk 2 = inode_at zero_disk 2"
    unfolding tree_disk_def using t l ld has_table_zero_disk
    by (subst inode_at_write_inode) (simp_all add: inode_at_write_block)
  also have "\<dots> = replicate 256 0" by (simp add: inode_at_def read_at_def zero_disk_def)
  finally show "inode_of_bytes (inode_at tree_disk 2) = inode_of_bytes (replicate 256 0)" by simp
qed

lemma tree_start: "start_inode True zero_garbage tree_disk =
    zero_inode\<lparr>i_type := DIR_TYPE, i_num := 1, i_blocks := 2516 # replicate 9 (-1)\<rparr>"
  by (simp add: start_inode_def load_inode_eq tree_disk_facts zero_garbage_def zero_inode_ok)

lemma zero_rest_empty: "rest_empty (g_dir zero_garbage)"
  using zero_garbage_ok by (simp add: rest_empty_def garbage_ok_def) (simp add: zero_garbage_def zero_entry_def)

lemma tree_take: "take 16 tree_dir = (tree_dir ! 0) # replicate 15 zero_entry"
  unfolding tree_dir_def by (simp add: eval_nat_numeral)

lemma tree_entry: "has_entry tree_disk (start_inode True zero_garbage tree_disk) e \<and> d_inode e \<noteq> 0 \<longleftrightarrow> e = tree_dir ! 0"
  by (auto simp: has_entry_def tree_start tree_disk_facts tree_take zero_entry_def) (simp add: tree_dir_def)

lemma tree_name: "cstr (d_name (tree_dir ! 0)) = [0x61]" "d_type (tree_dir ! 0) = DIR_TYPE" "d_inode (tree_dir ! 0) = 2"
proof -
  have "cstr (0x61 # replicate 51 0) = [0x61]" using cstr_prefix [of "[0x61]" "0x61 # replicate 51 0"] by simp
  then show "cstr (d_name (tree_dir ! 0)) = [0x61]" by (simp add: tree_dir_def)
qed (simp_all add: tree_dir_def)

text \<open>
  The entry that find follows here does not stand on the disk: the second half of the buffer holds an entry
  named b of inode 2, and find answers that inode for the path /b/.
\<close>

definition phantom_entry :: dentry where
  "phantom_entry = zero_entry\<lparr>d_inode := 2, d_type := DIR_TYPE, d_length := 32, d_name := 0x62 # replicate 51 0\<rparr>"

definition phantom_garbage :: garbage where
  "phantom_garbage = zero_garbage\<lparr>g_dir := replicate 16 zero_entry @ phantom_entry # replicate 15 zero_entry\<rparr>"

lemma phantom_garbage_ok: "garbage_ok phantom_garbage"
proof -
  have "dentry_ok phantom_entry" using zero_entry_ok by (simp add: dentry_ok_def phantom_entry_def int32_def DIR_TYPE_def)
  then show ?thesis using zero_garbage_ok zero_entry_ok
    by (auto simp: garbage_ok_def phantom_garbage_def dir_ok_def)
qed

lemma phantom_name: "cstr (d_name phantom_entry) = [0x62]" "d_inode phantom_entry = 2" "d_type phantom_entry = DIR_TYPE"
proof -
  have "cstr (0x62 # replicate 51 0) = [0x62]" using cstr_prefix [of "[0x62]" "0x62 # replicate 51 0"] by simp
  then show "cstr (d_name phantom_entry) = [0x62]" by (simp add: phantom_entry_def)
qed (simp_all add: phantom_entry_def)

theorem find_sound_witness:
  "find_inode phantom_garbage [SLASH, 0x62, SLASH] tree_disk = Some (Some (inode_of_bytes (replicate 256 0))) \<and>
   reaches tree_disk (phantom_entry # replicate 15 zero_entry) True (start_inode True zero_garbage tree_disk) [[0x62]]
     (inode_of_bytes (replicate 256 0))"
proof
  let ?i = "start_inode True zero_garbage tree_disk"
  have st: "start_inode True phantom_garbage tree_disk = ?i" by (simp add: start_inode_def phantom_garbage_def)
  have i: "inode_ok ?i" unfolding start_inode_def using zero_inode_ok by (intro inode_ok_load) (simp add: zero_garbage_def)
  have p: "find_inode phantom_garbage (start True @ join [[0x62]]) tree_disk =
      Some (walk tree_disk True [[0x62]] ?i (g_dir phantom_garbage))"
    unfolding st [symmetric] by (rule find_dir_path) (simp_all add: phantom_garbage_ok component_def)
  have dr: "drop 16 (g_dir phantom_garbage) = phantom_entry # replicate 15 zero_entry" by (simp add: phantom_garbage_def)
  have ld: "load_dir tree_disk 2516 (g_dir phantom_garbage) = tree_dir ! 0 # replicate 15 zero_entry @ phantom_entry # replicate 15 zero_entry"
    using phantom_garbage_ok unfolding dr [symmetric] by (simp add: load_dir_eq tree_disk_facts garbage_ok_def tree_take)
  have li: "load_inode tree_disk 2 ?i = inode_of_bytes (replicate 256 0)"
    using i by (simp add: load_inode_eq tree_disk_facts)
  have z: "scan_dir d n (replicate k zero_entry @ es) = scan_dir d n es" for d n k es
    by (induction k) (simp_all add: zero_entry_def)
  have "scan_dir True [0x62] (load_dir tree_disk 2516 (g_dir phantom_garbage)) = Some phantom_entry"
    unfolding ld scan_dir.simps z
    by (simp add: tree_name phantom_name FILE_TYPE_def DIR_TYPE_def z) (simp add: tree_dir_def z phantom_name FILE_TYPE_def DIR_TYPE_def)
  then have "walk tree_disk True [[0x62]] ?i (g_dir phantom_garbage) = Some (inode_of_bytes (replicate 256 0))"
    using li unfolding tree_start [symmetric] by (simp add: phantom_name) (simp add: tree_start phantom_name)
  then show f: "find_inode phantom_garbage [SLASH, 0x62, SLASH] tree_disk = Some (Some (inode_of_bytes (replicate 256 0)))"
    using p by (simp add: start_def join_def)
  have "reaches tree_disk (drop 16 (g_dir phantom_garbage)) True (start_inode True phantom_garbage tree_disk) [[0x62]]
      (inode_of_bytes (replicate 256 0))"
    by (rule find_sound [OF phantom_garbage_ok, where cs = "[[0x62]]" and path = "[SLASH, 0x62, SLASH]"])
      (use f in \<open>simp_all add: component_def tree_disk_facts MAX_LEVEL_def start_def join_def tree_start st\<close>)
  then show "reaches tree_disk (phantom_entry # replicate 15 zero_entry) True ?i [[0x62]] (inode_of_bytes (replicate 256 0))"
    unfolding dr st .
qed

text \<open>
  A file in a subdirectory cannot be found by its path: the steps of a path that does not end in
  a slash skip directories, so when what stands under the path's first name in the start
  directory are only directories, find answers NULL.
\<close>

theorem find_skips_directories:
  fixes names cs :: "bytes list" and c :: bytes and g :: garbage
  assumes "garbage_ok g" "\<forall>c \<in> set cs. component c" "disk_ok s" "rest_empty (g_dir g)" "length cs < MAX_LEVEL" "component c"
    "\<forall>b \<in> set (i_blocks (start_inode absu g s)). b < devsize s"
  defines "names \<equiv> cs @ [c @ cstr (drop (MAX_FILE_NAME_LENGTH * length cs + length c) (g_arg g))]"
  assumes "\<forall>e. has_entry s (start_inode absu g s) e \<and> d_inode e \<noteq> 0 \<and> cstr (d_name e) = hd names \<longrightarrow> d_type e = DIR_TYPE"
  shows "find_inode g (start absu @ join cs @ c) s = Some None"
  using assms by (simp add: find_file_none)

theorem find_skips_directories_witness:
  "find_inode zero_garbage [SLASH, 0x61, SLASH, 0x62] tree_disk = Some None"
proof -
  let ?i = "start_inode True zero_garbage tree_disk"
  have b: "\<forall>b \<in> set (i_blocks ?i). b < devsize tree_disk" by (simp add: tree_start tree_disk_facts)
  have e: "\<forall>e. has_entry tree_disk ?i e \<and> d_inode e \<noteq> 0 \<and> cstr (d_name e) = n \<longrightarrow> d_type e = DIR_TYPE" for n
  proof (intro allI impI)
    fix e assume "has_entry tree_disk ?i e \<and> d_inode e \<noteq> 0 \<and> cstr (d_name e) = n"
    then have "e = tree_dir ! 0" using tree_entry [of e] by simp
    then show "d_type e = DIR_TYPE" by (simp add: tree_name)
  qed
  have "find_inode zero_garbage (start True @ join [[0x61]] @ [0x62]) tree_disk = Some None"
    by (rule find_skips_directories [OF zero_garbage_ok _ tree_disk_facts(2) zero_rest_empty _ _ b e])
      (simp_all add: component_def MAX_LEVEL_def)
  then show ?thesis by (simp add: start_def join_def)
qed

end
