(* ===== verification/SimCreat.thy ===== *)
theory SimCreat
  imports SimFind
begin

text \<open>
  Opening, closing and creating files on the simulated disk (kernal/file_system/file.c).
\<close>

section \<open>The table of open files\<close>

lemma free_slot_from:
  "free_slot i xs = Some k \<Longrightarrow> i \<le> k \<and> k - i < length xs \<and> (xs ! (k - i) = -1 \<or> xs ! (k - i) = 0) \<and>
    (\<forall>j < k - i. xs ! j \<noteq> -1 \<and> xs ! j \<noteq> 0)"
proof (induction i xs rule: free_slot.induct)
  case (2 i x xs)
  show ?case
  proof (cases "x = -1 \<or> x = 0")
    case True
    then show ?thesis using 2 by auto
  next
    case False
    then have r: "Suc i \<le> k" "k - Suc i < length xs" "xs ! (k - Suc i) = -1 \<or> xs ! (k - Suc i) = 0"
      "\<forall>j < k - Suc i. xs ! j \<noteq> -1 \<and> xs ! j \<noteq> 0" using 2 by auto
    then have "k - i = Suc (k - Suc i)" by simp
    then show ?thesis using r False by (auto simp: nth_Cons' less_Suc_eq_0_disj)
  qed
qed simp

lemma free_slot_Some:
  "free_slot 0 xs = Some k \<Longrightarrow> k < length xs \<and> (xs ! k = -1 \<or> xs ! k = 0) \<and> (\<forall>j < k. xs ! j \<noteq> -1 \<and> xs ! j \<noteq> 0)"
  using free_slot_from [of 0 xs k] by simp

lemma free_slot_None: "free_slot i xs = None \<longleftrightarrow> -1 \<notin> set xs \<and> 0 \<notin> set xs"
  by (induction i xs rule: free_slot.induct) auto

text \<open>The slot an open takes: the lowest free one, and nothing else changes.\<close>

lemma take_slot_cases:
  "take_slot n s = (-1, s) \<and> -1 \<notin> set (fd s) \<and> 0 \<notin> set (fd s) \<or>
   (\<exists>k < length (fd s). take_slot n s = (int k, s\<lparr>fd := (fd s)[k := n]\<rparr>) \<and> (fd s ! k = -1 \<or> fd s ! k = 0) \<and>
      (\<forall>j < k. fd s ! j \<noteq> -1 \<and> fd s ! j \<noteq> 0))"
proof (cases "free_slot 0 (fd s)")
  case None
  then show ?thesis using free_slot_None [of 0 "fd s"] by (simp add: take_slot_def)
next
  case (Some k)
  then show ?thesis using free_slot_Some [OF Some] by (auto simp: take_slot_def)
qed

text \<open>
  C22. Opening a path that find resolves to an inode takes the lowest free slot of the table for the
  inode's number and changes nothing else; closing that descriptor frees the slot again. With all
  slots taken, or a path that does not resolve, the answer is -1 and nothing changes.
\<close>

theorem open_close:
  assumes "length (fd s) = MAX_OPEN_FILES"
  shows "(find_inode g path s = Some None \<longrightarrow> my_open g path s = Some (-1, s)) \<and>
    (\<forall>this. find_inode g path s = Some (Some this) \<longrightarrow>
      (-1 \<notin> set (fd s) \<and> 0 \<notin> set (fd s) \<longrightarrow> my_open g path s = Some (-1, s)) \<and>
      (-1 \<in> set (fd s) \<or> 0 \<in> set (fd s) \<longrightarrow>
        (\<exists>k < MAX_OPEN_FILES. (\<forall>j < k. fd s ! j \<noteq> -1 \<and> fd s ! j \<noteq> 0) \<and> (fd s ! k = -1 \<or> fd s ! k = 0) \<and>
          my_open g path s = Some (int k, s\<lparr>fd := (fd s)[k := i_num this]\<rparr>) \<and>
          my_close (int k) (s\<lparr>fd := (fd s)[k := i_num this]\<rparr>) = Some (s\<lparr>fd := (fd s)[k := -1]\<rparr>))))"
proof (intro conjI allI impI)
  show "my_open g path s = Some (-1, s)" if "find_inode g path s = Some None"
    using that by (simp add: my_open_def)
next
  fix this assume f: "find_inode g path s = Some (Some this)"
  then have o: "my_open g path s = Some (take_slot (i_num this) s)" by (simp add: my_open_def)
  show "my_open g path s = Some (-1, s)" if "-1 \<notin> set (fd s) \<and> 0 \<notin> set (fd s)"
    using o that take_slot_cases [of "i_num this" s] by (auto dest: nth_mem)
  assume "-1 \<in> set (fd s) \<or> 0 \<in> set (fd s)"
  then obtain k where k: "k < length (fd s)" "take_slot (i_num this) s = (int k, s\<lparr>fd := (fd s)[k := i_num this]\<rparr>)"
    "fd s ! k = -1 \<or> fd s ! k = 0" "\<forall>j < k. fd s ! j \<noteq> -1 \<and> fd s ! j \<noteq> 0"
    using take_slot_cases [of "i_num this" s] by auto
  then show "\<exists>k < MAX_OPEN_FILES. (\<forall>j < k. fd s ! j \<noteq> -1 \<and> fd s ! j \<noteq> 0) \<and> (fd s ! k = -1 \<or> fd s ! k = 0) \<and>
      my_open g path s = Some (int k, s\<lparr>fd := (fd s)[k := i_num this]\<rparr>) \<and>
      my_close (int k) (s\<lparr>fd := (fd s)[k := i_num this]\<rparr>) = Some (s\<lparr>fd := (fd s)[k := -1]\<rparr>)"
    using o assms by (intro exI [of _ k]) (simp add: my_close_def)
qed

theorem open_close_witness:
  "\<exists>k < MAX_OPEN_FILES. my_open zero_garbage [SLASH] tree_disk =
     Some (int k, tree_disk\<lparr>fd := (fd tree_disk)[k := 1]\<rparr>)"
proof -
  have f: "fd tree_disk = replicate MAX_OPEN_FILES (-1)"
    by (simp add: tree_disk_def zero_disk_def)
  have "find_inode zero_garbage [SLASH] tree_disk = Some (Some (start_inode True zero_garbage tree_disk))"
    by (simp add: find_root start_inode_def)
  moreover have "i_num (start_inode True zero_garbage tree_disk) = 1" by (simp add: tree_start)
  ultimately show ?thesis
    using open_close [of tree_disk zero_garbage "[SLASH]"] f by (auto simp: MAX_OPEN_FILES_def)
qed

section \<open>my_creat: the parent directory\<close>

lemma last_slash_none: "SLASH \<notin> set cs \<Longrightarrow> last_slash i cs p = p"
  by (induction cs arbitrary: i p) auto

lemma last_slash_append:
  "last_slash i (xs @ ys) p = last_slash (i + length xs) ys (last_slash i xs p)"
  by (induction xs arbitrary: i p) auto

lemma last_slash_path: "SLASH \<notin> set name \<Longrightarrow> last_slash 0 (dir @ SLASH # name) p = Some (length dir)"
  by (simp add: last_slash_append last_slash_none)

text \<open>
  my_creat looks for the parent directory under a path that has lost its last slash. For a file
  in the root directory that path is empty and find reads the byte before the string; for a file
  in another directory the path no longer asks for a directory, so find skips it, and when only
  directories go by its first name my_creat answers -1 and creates nothing.
\<close>

theorem creat_loses_directory:
  fixes names cs :: "bytes list" and c :: bytes and g :: garbage
  assumes "garbage_ok g" "\<forall>c \<in> set cs. component c" "disk_ok s" "rest_empty (g_dir g)" "length cs < MAX_LEVEL" "component c"
    "component name" "\<forall>b \<in> set (i_blocks (start_inode absu g s)). b < devsize s"
  defines "names \<equiv> cs @ [c @ cstr (drop (MAX_FILE_NAME_LENGTH * length cs + length c) (g_arg g))]"
  assumes "\<forall>e. has_entry s (start_inode absu g s) e \<and> d_inode e \<noteq> 0 \<and> cstr (d_name e) = hd names \<longrightarrow> d_type e = DIR_TYPE"
    "length (start absu @ join cs @ c) < 500"
  shows "my_creat g (SLASH # name) s = None \<and>
    my_creat g ((start absu @ join cs @ c) @ SLASH # name) s = Some (-1, s)"
proof
  have n: "SLASH \<notin> set name" "length name < 50" using assms(7) by (simp_all add: component_def)
  show "my_creat g (SLASH # name) s = None"
    using last_slash_path [OF n(1), of "[]"] by (simp add: my_creat_def find_inode_def)
  let ?dir = "start absu @ join cs @ c"
  have "last_slash 0 (?dir @ SLASH # name) None = Some (length ?dir)" using n(1) by (rule last_slash_path)
  moreover have "take (length ?dir) (?dir @ SLASH # name) = ?dir" "drop (length ?dir + 1) (?dir @ SLASH # name) = name"
    by simp_all
  moreover have "find_inode g ?dir s = Some None" using assms by (intro find_file_none) simp_all
  ultimately show "my_creat g (?dir @ SLASH # name) s = Some (-1, s)"
    unfolding my_creat_def using n(2) assms(11) by (simp only: option.case Let_def) (simp add: MAX_FILE_NAME_LENGTH_def MAX_LEVEL_def)
qed

theorem creat_loses_directory_witness:
  "my_creat zero_garbage [SLASH, 0x62] tree_disk = None \<and>
   my_creat zero_garbage [SLASH, 0x61, SLASH, 0x62] tree_disk = Some (-1, tree_disk)"
proof -
  let ?i = "start_inode True zero_garbage tree_disk"
  have b: "\<forall>b \<in> set (i_blocks ?i). b < devsize tree_disk" by (simp add: tree_start tree_disk_facts)
  have e: "\<forall>e. has_entry tree_disk ?i e \<and> d_inode e \<noteq> 0 \<and> cstr (d_name e) = n \<longrightarrow> d_type e = DIR_TYPE" for n
  proof (intro allI impI)
    fix e assume "has_entry tree_disk ?i e \<and> d_inode e \<noteq> 0 \<and> cstr (d_name e) = n"
    then have "e = tree_dir ! 0" using tree_entry [of e] by simp
    then show "d_type e = DIR_TYPE" by (simp add: tree_name)
  qed
  show ?thesis
    using creat_loses_directory [OF zero_garbage_ok _ tree_disk_facts(2) zero_rest_empty _ _ _ b e, of "[]" "[0x61]" "[0x62]"]
    by (simp add: component_def MAX_LEVEL_def start_def join_def)
qed

section \<open>my_creat: the new file\<close>

lemma block_at_get_block:
  "has_table s \<Longrightarrow> length junk = 1024 \<Longrightarrow> 0 \<le> c \<Longrightarrow> c < devsize s \<Longrightarrow> c \<noteq> 1 \<Longrightarrow>
    block_at (snd (get_block junk s)) c = block_at s c"
  by (subst get_block_eq) (simp_all add: has_table_def block_at_write_block length_block_at)

lemma block_at_get_inode:
  "has_table s \<Longrightarrow> length junk = 1024 \<Longrightarrow> 0 \<le> c \<Longrightarrow> c < devsize s \<Longrightarrow> c \<noteq> 14 \<Longrightarrow>
    block_at (snd (get_inode junk s)) c = block_at s c"
  by (subst get_inode_eq) (simp_all add: has_table_def block_at_write_block length_block_at)

lemma inode_at_get_block:
  "has_table s \<Longrightarrow> length junk = 1024 \<Longrightarrow> 0 \<le> m \<Longrightarrow> m < 10000 \<Longrightarrow> inode_at (snd (get_block junk s)) m = inode_at s m"
  by (subst get_block_eq) (simp_all add: inode_at_write_block length_block_at, simp_all add: has_table_def inode_at_write_block length_block_at)

lemma inode_at_get_inode:
  "has_table s \<Longrightarrow> length junk = 1024 \<Longrightarrow> 0 \<le> m \<Longrightarrow> m < 10000 \<Longrightarrow> inode_at (snd (get_inode junk s)) m = inode_at s m"
  by (subst get_inode_eq) (simp_all add: inode_at_write_block length_block_at, simp_all add: has_table_def inode_at_write_block length_block_at)

lemma get_frame [simp]:
  "devsize (snd (get_block junk s)) = devsize s" "fd (snd (get_block junk s)) = fd s"
  "devsize (snd (get_inode junk s)) = devsize s" "fd (snd (get_inode junk s)) = fd s"
  by (simp_all add: get_block_def get_inode_def Let_def split_beta)

lemma get_inode_range:
  "has_table s \<Longrightarrow> length junk = 1024 \<Longrightarrow> 16 \<le> fst (get_inode junk s) \<and> fst (get_inode junk s) \<le> 24"
  using first_free_le [of "block_at s 14 ! 0"] by (simp add: get_inode_eq has_table_def)

lemma get_block_range:
  "has_table s \<Longrightarrow> length junk = 1024 \<Longrightarrow> 2516 \<le> fst (get_block junk s) \<and> fst (get_block junk s) \<le> 2524"
  using first_free_le [of "block_at s 1 ! 0"] by (simp add: get_block_eq has_table_def)

lemma get_block_depends:
  "has_table s \<Longrightarrow> has_table s' \<Longrightarrow> length junk = 1024 \<Longrightarrow> block_at s' 1 = block_at s 1 \<Longrightarrow>
    fst (get_block junk s') = fst (get_block junk s)"
  by (simp add: get_block_eq has_table_def)

text \<open>The search of a directory: no file of that name, and the first empty entry.\<close>

lemma empty_entry_from:
  "j < length es \<Longrightarrow> d_inode (es ! j) = 0 \<Longrightarrow> \<forall>i < j. d_inode (es ! i) \<noteq> 0 \<Longrightarrow> empty_entry i0 es = Some (i0 + j)"
proof (induction es arbitrary: i0 j)
  case (Cons e es)
  show ?case
  proof (cases j)
    case 0
    then show ?thesis using Cons.prems by simp
  next
    case (Suc j')
    then have "d_inode e \<noteq> 0" "\<forall>i < j'. d_inode (es ! i) \<noteq> 0" using Cons.prems(3) by auto
    then show ?thesis using Cons.IH [of j' "Suc i0"] Cons.prems Suc by simp
  qed
qed simp

text \<open>
  What the search sees of block \<open>b\<close>: its sixteen entries, and behind them the sixteen entries \<open>rest\<close> that the
  buffer on the stack holds in the half no read fills.
\<close>

abbreviation seen :: "simdisk \<Rightarrow> int \<Rightarrow> dentry list \<Rightarrow> dentry list" where
  "seen s b rest \<equiv> dir_at s b @ rest"

definition names_file :: "bytes \<Rightarrow> dentry \<Rightarrow> bool" where
  "names_file name e \<longleftrightarrow> d_inode e \<noteq> 0 \<and> d_type e = FILE_TYPE \<and> cstr (d_name e) = name"

lemma name_taken_none:
  assumes "disk_ok s" "dir_ok direc"
    "\<forall>b \<in> set bs. b = -1 \<or> 0 \<le> b \<and> b < devsize s \<and> (\<forall>e \<in> set (seen s b (drop 16 direc)). \<not> names_file name e)"
  shows "\<exists>d. name_taken s name bs direc = (False, d) \<and> dir_ok d \<and> drop 16 d = drop 16 direc"
  using assms
proof (induction bs arbitrary: direc)
  case (Cons b bs)
  show ?case
  proof (cases "b = -1")
    case True
    then show ?thesis using Cons by auto
  next
    case False
    let ?d = "seen s b (drop 16 direc)"
    have b: "0 \<le> b" "b < devsize s" "\<forall>e \<in> set ?d. \<not> names_file name e" using Cons.prems(3) False by auto
    have l: "load_dir s b direc = ?d" using b Cons.prems by (simp add: load_dir_eq)
    have d: "dir_ok ?d" "drop 16 ?d = drop 16 direc" using b Cons.prems by (simp_all add: dir_ok_append_at)
    obtain d' where d': "name_taken s name bs ?d = (False, d')" "dir_ok d'" "drop 16 d' = drop 16 direc"
      using Cons.IH [OF Cons.prems(1) d(1)] Cons.prems(3) unfolding d(2) by auto
    have "\<not> (\<exists>e \<in> set ?d. d_inode e \<noteq> 0 \<and> d_type e = FILE_TYPE \<and> cstr (d_name e) = name)"
      using b(3) unfolding names_file_def by blast
    then show ?thesis using False d' unfolding name_taken.simps(2) l Let_def by auto
  qed
qed simp

lemma empty_entry_none: "\<forall>e \<in> set es. d_inode e \<noteq> 0 \<Longrightarrow> empty_entry i es = None"
  by (induction i es rule: empty_entry.induct) auto

lemma find_empty_first:
  assumes "disk_ok s" "dir_ok direc"
    "\<forall>x \<in> set pre. x \<noteq> -1 \<and> 0 \<le> x \<and> x < devsize s \<and> (\<forall>e \<in> set (seen s x (drop 16 direc)). d_inode e \<noteq> 0)"
    "b \<noteq> -1" "0 \<le> b" "b < devsize s" "j < 32" "d_inode (seen s b (drop 16 direc) ! j) = 0"
    "\<forall>i < j. d_inode (seen s b (drop 16 direc) ! i) \<noteq> 0"
  shows "find_empty junk s (pre @ b # post) direc = Some (b, j, seen s b (drop 16 direc), s)"
  using assms
proof (induction pre arbitrary: direc)
  case Nil
  let ?d = "seen s b (drop 16 direc)"
  have l: "load_dir s b direc = ?d" using Nil by (simp add: load_dir_eq)
  have "length ?d = 32" using Nil.prems(2) by (simp add: dir_ok_def)
  then have "empty_entry 0 ?d = Some (0 + j)" using Nil.prems by (intro empty_entry_from) simp_all
  then show ?case using Nil.prems(4) l by (simp add: Let_def)
next
  case (Cons x pre)
  let ?d = "seen s x (drop 16 direc)"
  have x: "x \<noteq> -1" "0 \<le> x" "x < devsize s" "\<forall>e \<in> set ?d. d_inode e \<noteq> 0" using Cons.prems(3) by auto
  have l: "load_dir s x direc = ?d" using x Cons.prems by (simp add: load_dir_eq)
  have d: "dir_ok ?d" "drop 16 ?d = drop 16 direc" using x Cons.prems by (simp_all add: dir_ok_append_at)
  have "find_empty junk s (pre @ b # post) ?d = Some (b, j, seen s b (drop 16 direc), s)"
    using Cons.IH [OF Cons.prems(1) d(1)] Cons.prems(3-) unfolding d(2) by simp
  then show ?case using x(1) empty_entry_none [OF x(4), of 0] unfolding append_Cons find_empty.simps(2) l Let_def by simp
qed

lemma new_entry_ok: "dentry_ok e \<Longrightarrow> int32 n \<Longrightarrow> length name < 50 \<Longrightarrow> dentry_ok (new_entry n name e)"
  by (simp add: dentry_ok_def new_entry_def length_fill int32_def FILE_TYPE_def)

lemma file_inode_ok: "inode_ok i \<Longrightarrow> int32 n \<Longrightarrow> int32 b \<Longrightarrow> inode_ok (file_inode n b i)"
  by (auto simp: inode_ok_def file_inode_def length_set_cstr int32_def FILE_TYPE_def)

lemma fill_name: "0 \<notin> set name \<Longrightarrow> length name < 50 \<Longrightarrow> cstr (name @ drop (length name) (replicate 52 0)) = name"
proof -
  assume n: "0 \<notin> set name" "length name < 50"
  have "52 - length name = Suc (51 - length name)" using n(2) by simp
  then have "drop (length name) (replicate 52 (0 :: u8)) = 0 # replicate (51 - length name) 0" by (simp flip: replicate_Suc)
  then show ?thesis using n(1) by (simp add: cstr_append) (simp add: cstr_def)
qed

text \<open>What \<open>creat_in\<close> leaves on the disk, from the inode number and the block it was given on.\<close>

lemma creat_in_writes:
  fixes n :: int and s' :: simdisk
  assumes "has_table s" "garbage_ok g" "length name < 50" "2516 \<le> b" "b < devsize s" "dir_ok direc" "j < 32" "length (fd s) = MAX_OPEN_FILES"
  defines "n \<equiv> fst (get_inode (g_bits g) s)" and "s' \<equiv> snd (creat_in g name b j direc s)"
  shows "fst (creat_in g name b j direc s) = fst (take_slot n s) \<and> fd s' = fd (snd (take_slot n s)) \<and> has_table s'
    \<and> dir_at s' b = (take 16 direc)[j := new_entry n name (direc ! j)]
    \<and> (\<exists>tmp. inode_ok tmp \<and> inode_of_bytes (inode_at s' n) = file_inode n (fst (get_block (g_bits g) s)) tmp)
    \<and> block_at s' 14 ! 0 = block_at s 14 ! 0 \<and> devsize s' = devsize s
    \<and> (\<forall>m. 0 < m \<and> m < 10000 \<and> m \<noteq> n \<longrightarrow> inode_at s' m = inode_at s m)
    \<and> (\<forall>c. 2516 \<le> c \<and> c < devsize s \<and> c \<noteq> b \<longrightarrow> block_at s' c = block_at s c)"
proof -
  let ?J = "g_bits g"
  define s1 where "s1 = snd (get_inode ?J s)"
  define d' where "d' = direc[j := new_entry n name (direc ! j)]"
  define s2 where "s2 = snd (write_block b (bytes_of_dir d') s1)"
  define tmp where "tmp = load_inode s2 n (g_stack_inode g)"
  define s3 where "s3 = snd (get_block ?J s2)"
  define i where "i = file_inode n (fst (get_block ?J s2)) tmp"
  define s4 where "s4 = snd (write_inode n (bytes_of_inode i) s3)"
  have J: "length ?J = 1024" using assms(2) by (simp add: garbage_ok_def)
  have n: "16 \<le> n" "n \<le> 24" "n \<noteq> -1" "int32 n" using get_inode_range [OF assms(1) J] by (simp_all add: n_def int32_def)
  have tab: "has_table s1" "has_table s2" "has_table s3" "has_table s4"
    using assms(1) J by (simp_all add: s1_def s2_def s3_def s4_def get_inode_table get_block_table has_table_write)
  then have ok: "disk_ok s" "disk_ok s1" "disk_ok s2" "disk_ok s3" "disk_ok s4" using assms(1) by (simp_all add: has_table_def)
  have dev: "devsize s1 = devsize s" "devsize s2 = devsize s" "devsize s3 = devsize s" "devsize s4 = devsize s"
    "fd s1 = fd s" "fd s2 = fd s" "fd s3 = fd s" "fd s4 = fd s"
    by (simp_all add: s1_def s2_def s3_def s4_def)
  have big: "2516 \<le> devsize s" using assms(1) by (simp add: has_table_def)
  have name: "length name < 50" by (rule assms(3))
  have d': "dir_ok d'" unfolding d'_def
    using assms(6,7) n name by (simp add: dir_ok_update new_entry_ok dir_ok_nth)
  then have ld: "1024 \<le> length (bytes_of_dir d')" by (simp add: dir_ok_def length_bytes_of_dir)
  have c: "creat_in g name b j direc s = take_slot n s4"
    using n by (simp add: creat_in_def split_beta Let_def n_def s1_def d'_def s2_def tmp_def s3_def i_def s4_def)
  have b1: "block_at s2 1 = block_at s 1"
    using assms(4,5) tab ok dev big J ld by (simp add: s2_def block_at_write_block) (simp add: s1_def block_at_get_inode assms(1))
  have blk: "fst (get_block ?J s2) = fst (get_block ?J s)"
    using get_block_depends [OF assms(1) tab(2) J b1] .
  then have "int32 (fst (get_block ?J s2))" using get_block_range [OF assms(1) J] by (simp add: int32_def)
  moreover have tmp: "inode_ok tmp" using assms(2) by (simp add: tmp_def inode_ok_load garbage_ok_def)
  ultimately have i: "inode_ok i" using n by (simp add: i_def file_inode_ok)
  then have li: "length (bytes_of_inode i) = 256" by (rule length_bytes_of_inode)
  have "inode_at s4 n = bytes_of_inode i"
    unfolding s4_def using tab n dev big li by (subst inode_at_write_inode) simp_all
  have others: "inode_at s4 m = inode_at s m" if "0 < m \<and> m < 10000 \<and> m \<noteq> n" for m
  proof -
    have "inode_at s4 m = inode_at s3 m"
      unfolding s4_def using tab n dev big li that by (subst inode_at_write_inode) simp_all
    also have "\<dots> = inode_at s2 m" unfolding s3_def using tab dev that big J by (intro inode_at_get_block) simp_all
    also have "\<dots> = inode_at s1 m"
      unfolding s2_def using tab dev that assms(4,5) ld by (intro inode_at_write_block) simp_all
    also have "\<dots> = inode_at s m" unfolding s1_def using assms(1) that J by (intro inode_at_get_inode) simp_all
    finally show ?thesis .
  qed
  have blocks: "block_at s4 c = block_at s c" if c: "2516 \<le> c" "c < devsize s" "c \<noteq> b" for c
  proof -
    have "block_at s4 c = block_at s3 c"
      unfolding s4_def using tab n dev big li c by (intro block_at_write_inode) simp_all
    also have "\<dots> = block_at s2 c" unfolding s3_def using tab J dev c by (intro block_at_get_block) simp_all
    also have "\<dots> = block_at s1 c" unfolding s2_def using ok dev assms(4,5) ld c by (simp add: block_at_write_block)
    also have "\<dots> = block_at s c" unfolding s1_def using assms(1) J c by (intro block_at_get_inode) simp_all
    finally show ?thesis .
  qed
  from \<open>inode_at s4 n = bytes_of_inode i\<close> have in4: "inode_of_bytes (inode_at s4 n) = file_inode n (fst (get_block ?J s)) tmp"
    using i by (simp add: inode_of_bytes_of_inode) (simp add: i_def blk)
  have "block_at s4 b = block_at s3 b"
    unfolding s4_def using tab n dev big li assms(4,5) by (intro block_at_write_inode) simp_all
  also have "\<dots> = block_at s2 b"
    unfolding s3_def using tab J dev assms(4,5) by (intro block_at_get_block) simp_all
  finally have "dir_at s4 b = take 16 d'"
    using dir_at_write [of s1 b d'] ok dev assms(4,5) d' by (simp add: dir_at_def s2_def)
  then have dir4: "dir_at s4 b = (take 16 direc)[j := new_entry n name (direc ! j)]"
    using assms(7) by (simp add: d'_def take_update_swap)
  have "block_at s4 14 = block_at s3 14"
    unfolding s4_def using tab n dev big li by (intro block_at_write_inode) simp_all
  also have "\<dots> = block_at s2 14"
    unfolding s3_def using tab J dev big by (intro block_at_get_block) simp_all
  also have "\<dots> = block_at s1 14"
    unfolding s2_def using ok dev big assms(4,5) ld by (simp add: block_at_write_block)
  finally have "block_at s4 14 ! 0 = block_at s 14 ! 0"
    using get_inode_byte0 [OF assms(1) J] by (simp add: s1_def)
  moreover have "take_slot n s4 = (fst (take_slot n s), s4\<lparr>fd := fd (snd (take_slot n s))\<rparr>)"
    using dev by (simp add: take_slot_def split: option.splits)
  moreover from this have "dir_at (snd (take_slot n s4)) = dir_at s4" "inode_at (snd (take_slot n s4)) = inode_at s4"
    "block_at (snd (take_slot n s4)) = block_at s4" "has_table (snd (take_slot n s4))"
    using tab by (simp_all add: dir_at_def fun_eq_iff)
  ultimately show ?thesis unfolding s'_def c using in4 dir4 tmp tab dev others blocks by auto
qed

text \<open>The whole operation, on a directory in one of whose blocks the search sees an empty entry.\<close>

lemma creat_file:
  fixes n :: int
  assumes "has_table s" "garbage_ok g" "component name" "length dir < 500"
    "find_inode g dir s = Some (Some cur)" "i_type cur \<noteq> FILE_TYPE"
    "\<forall>x \<in> set (i_blocks cur). x = -1 \<or> BLOCK_TABLE_START \<le> x \<and> x < devsize s \<and>
       (\<forall>e \<in> set (seen s x (drop 16 (g_stack_dir g))). \<not> names_file name e)"
    "i_blocks cur = pre @ b # post" "\<forall>x \<in> set pre. x \<noteq> -1 \<and> (\<forall>e \<in> set (seen s x (drop 16 (g_stack_dir g))). d_inode e \<noteq> 0)"
    "b \<noteq> -1" "j < 32" "d_inode (seen s b (drop 16 (g_stack_dir g)) ! j) = 0"
    "\<forall>i < j. d_inode (seen s b (drop 16 (g_stack_dir g)) ! i) \<noteq> 0"
    "length (fd s) = MAX_OPEN_FILES" "free_slot 0 (fd s) = Some k"
  defines "n \<equiv> fst (get_inode (g_bits g) s)"
  shows "\<exists>s' e i. my_creat g (dir @ SLASH # name) s = Some (int k, s') \<and> fd s' = (fd s)[k := n] \<and> has_table s'
    \<and> dir_at s' b = (if j < 16 then (dir_at s b)[j := e] else dir_at s b)
    \<and> d_inode e = n \<and> d_type e = FILE_TYPE \<and> d_length e = 32
    \<and> d_name e = name @ drop (length name) (d_name (seen s b (drop 16 (g_stack_dir g)) ! j))
    \<and> inode_of_bytes (inode_at s' n) = i \<and> i_type i = FILE_TYPE \<and> i_num i = n \<and> i_size i = 0
    \<and> i_blocks i = fst (get_block (g_bits g) s) # replicate 9 (-1)
    \<and> (\<forall>m. 0 < m \<and> m < MAX_FILE_NUM \<and> m \<noteq> n \<longrightarrow> inode_at s' m = inode_at s m)
    \<and> (\<forall>c. BLOCK_TABLE_START \<le> c \<and> c < devsize s \<and> c \<noteq> b \<longrightarrow> block_at s' c = block_at s c)
    \<and> devsize s' = devsize s"
proof -
  let ?rest = "drop 16 (g_stack_dir g)"
  let ?d = "seen s b ?rest"
  have "b \<in> set (i_blocks cur)" using assms(8) by simp
  then have b: "2516 \<le> b" "b < devsize s" "0 \<le> b" using assms(7,10) by (auto simp: BLOCK_TABLE_START_def)
  have ok: "disk_ok s" using assms(1) by (simp add: has_table_def)
  have gd: "dir_ok (g_stack_dir g)" using assms(2) by (simp add: garbage_ok_def)
  have nm: "SLASH \<notin> set name" "0 \<notin> set name" "length name < 50" using assms(3) by (simp_all add: component_def)
  have "\<forall>x \<in> set (i_blocks cur). x = -1 \<or> 0 \<le> x \<and> x < devsize s \<and> (\<forall>e \<in> set (seen s x ?rest). \<not> names_file name e)"
    using assms(7) by (auto simp: BLOCK_TABLE_START_def)
  from name_taken_none [OF ok gd this] obtain d where d: "name_taken s name (i_blocks cur) (g_stack_dir g) = (False, d)"
    "dir_ok d" "drop 16 d = ?rest" by blast
  have "\<forall>x \<in> set pre. x \<noteq> -1 \<and> 0 \<le> x \<and> x < devsize s \<and> (\<forall>e \<in> set (seen s x ?rest). d_inode e \<noteq> 0)"
    using assms(7,8,9) by (auto simp: BLOCK_TABLE_START_def)
  then have fe: "find_empty (g_bits g) s (i_blocks cur) d = Some (b, j, ?d, s)"
    using find_empty_first [OF ok d(2), of pre b j "g_bits g" post] assms(8,10-13) b unfolding d(3) by simp
  have c: "my_creat g (dir @ SLASH # name) s = Some (creat_in g name b j ?d s)"
    using last_slash_path [OF nm(1), of dir None] nm assms(4,5,6) d(1) fe
    by (simp add: my_creat_def MAX_FILE_NAME_LENGTH_def MAX_LEVEL_def)
  have dok: "dir_ok ?d" using ok gd b by (simp add: dir_ok_append_at)
  have slot: "take_slot n s = (int k, s\<lparr>fd := (fd s)[k := n]\<rparr>)" using assms(15) by (simp add: take_slot_def)
  note w = creat_in_writes [OF assms(1,2) nm(3) b(1,2) dok assms(11,14), folded n_def]
  let ?s = "snd (creat_in g name b j ?d s)" and ?e = "new_entry n name (?d ! j)"
  obtain tmp where t: "inode_of_bytes (inode_at ?s n) = file_inode n (fst (get_block (g_bits g) s)) tmp" using w by blast
  have da: "dir_at ?s b = (if j < 16 then (dir_at s b)[j := ?e] else dir_at s b)"
    using w by (simp add: list_update_beyond not_less)
  have e: "d_inode ?e = n" "d_type ?e = FILE_TYPE" "d_length ?e = 32" "d_name ?e = name @ drop (length name) (d_name (?d ! j))"
    by (simp_all add: new_entry_def fill_def)
  have r: "my_creat g (dir @ SLASH # name) s = Some (int k, ?s)" "fd ?s = (fd s)[k := n]" "has_table ?s" "devsize ?s = devsize s"
    using w slot c by (simp_all add: prod_eq_iff)
  show ?thesis
    using w by (intro exI [of _ ?s] exI [of _ ?e] exI [of _ "inode_of_bytes (inode_at ?s n)"] conjI r da e refl)
      (simp_all add: t file_inode_def MAX_FILE_NUM_def BLOCK_TABLE_START_def)
qed

text \<open>
  C23. Creating a file of fewer than 50 characters in a directory that find reaches under the given path, of fewer than 500. The ten
  blocks of the directory are -1 or on the disk; of each block the searches see its 16 entries and then the 16
  that the unread half of the buffer on the stack holds, whatever they are. No file of that name is seen, \<open>b\<close>
  is the first block in which an empty entry is seen, at index \<open>j\<close> (no block before it is -1), and a slot for open files is free. Then the
  file is created and opened in the lowest free slot: its inode, with the number and the first block that the
  allocators answer, is an empty file's. When \<open>j\<close> is below 16, its entry replaces the empty one in
  the block, and holds the name, without a null byte behind it: whatever the empty entry
  held there follows. When \<open>j\<close> is in the other half, the directory is unchanged: the file has no entry. No
  other data block and no other inode changes.
\<close>

theorem creat_creates:
  fixes n :: int
  assumes "has_table s" "garbage_ok g" "component name" "length dir < 500"
    "find_inode g dir s = Some (Some cur)" "i_type cur \<noteq> FILE_TYPE"
    "\<forall>x \<in> set (i_blocks cur). x = -1 \<or> BLOCK_TABLE_START \<le> x \<and> x < devsize s \<and>
       (\<forall>e \<in> set (seen s x (drop 16 (g_stack_dir g))). \<not> names_file name e)"
    "i_blocks cur = pre @ b # post" "\<forall>x \<in> set pre. x \<noteq> -1 \<and> (\<forall>e \<in> set (seen s x (drop 16 (g_stack_dir g))). d_inode e \<noteq> 0)"
    "b \<noteq> -1" "j < 32" "d_inode (seen s b (drop 16 (g_stack_dir g)) ! j) = 0"
    "\<forall>i < j. d_inode (seen s b (drop 16 (g_stack_dir g)) ! i) \<noteq> 0"
    "length (fd s) = MAX_OPEN_FILES" "free_slot 0 (fd s) = Some k"
  defines "n \<equiv> fst (get_inode (g_bits g) s)"
  shows "\<exists>s' e i. my_creat g (dir @ SLASH # name) s = Some (int k, s') \<and> fd s' = (fd s)[k := n] \<and> has_table s'
    \<and> dir_at s' b = (if j < 16 then (dir_at s b)[j := e] else dir_at s b)
    \<and> d_inode e = n \<and> d_type e = FILE_TYPE \<and> d_length e = 32
    \<and> d_name e = name @ drop (length name) (d_name (seen s b (drop 16 (g_stack_dir g)) ! j))
    \<and> inode_of_bytes (inode_at s' n) = i \<and> i_type i = FILE_TYPE \<and> i_num i = n \<and> i_size i = 0
    \<and> i_blocks i = fst (get_block (g_bits g) s) # replicate 9 (-1)
    \<and> (\<forall>m. 0 < m \<and> m < MAX_FILE_NUM \<and> m \<noteq> n \<longrightarrow> inode_at s' m = inode_at s m)
    \<and> (\<forall>c. BLOCK_TABLE_START \<le> c \<and> c < devsize s \<and> c \<noteq> b \<longrightarrow> block_at s' c = block_at s c)
    \<and> devsize s' = devsize s"
  using assms(1-15) unfolding n_def by (rule creat_file)

text \<open>The disk with the directory a: its root directory has room, and its path is one slash.\<close>

lemma tree_fd: "fd tree_disk = replicate 10 (-1)"
  by (simp add: tree_disk_def zero_disk_def MAX_OPEN_FILES_def)

lemma zero_stack: "drop 16 (g_stack_dir zero_garbage) = replicate 16 zero_entry"
  by (simp add: zero_garbage_def)

lemma zero_entry_simps [simp]: "d_inode zero_entry = 0" "d_name zero_entry = replicate 52 0"
  by (simp_all add: zero_entry_def)

lemma tree_dir_at: "dir_at tree_disk 2516 = (tree_dir ! 0) # replicate 15 zero_entry"
  by (simp add: tree_disk_facts tree_take)

lemma tree_find: "find_inode zero_garbage [SLASH] tree_disk = Some (Some (start_inode True zero_garbage tree_disk))"
  by (simp add: find_root start_inode_def)

lemmas tree_hyps = component_def tree_start tree_dir_at tree_name tree_disk_facts(3) tree_fd MAX_OPEN_FILES_def
  BLOCK_TABLE_START_def DIR_TYPE_def FILE_TYPE_def

lemma zero_tail [simp]: "(replicate 15 zero_entry @ replicate 16 zero_entry) ! 0 = zero_entry"
  "(replicate 14 zero_entry @ replicate 16 zero_entry) ! 0 = zero_entry"
  by (simp_all add: nth_append)

lemmas seen_hyps = tree_hyps names_file_def zero_stack MAX_FILE_NAME_LENGTH_def

theorem creat_creates_witness:
  "\<exists>s' e. my_creat zero_garbage [SLASH, SLASH, 0x62] tree_disk = Some (0, s') \<and> cstr (d_name e) = [0x62]
    \<and> dir_at s' 2516 = (dir_at tree_disk 2516)[1 := e]"
proof -
  have k: "free_slot 0 (fd tree_disk) = Some 0" by (simp add: tree_fd eval_nat_numeral)
  have n: "cstr ([0x62] @ drop (length [0x62 :: u8]) (replicate 52 0)) = [0x62]" by (rule fill_name) simp_all
  obtain s' e where "my_creat zero_garbage ([SLASH] @ SLASH # [0x62]) tree_disk = Some (int 0, s')"
    "dir_at s' 2516 = (if 1 < (16 :: nat) then (dir_at tree_disk 2516)[1 := e] else dir_at tree_disk 2516)"
    "d_name e = [0x62] @ drop (length [0x62]) (d_name (seen tree_disk 2516 (drop 16 (g_stack_dir zero_garbage)) ! 1))"
    using creat_creates [OF tree_disk_facts(1) zero_garbage_ok _ _ tree_find _ _ _ _ _ _ _ _ _ k,
        of "[0x62]" "[]" 2516 "replicate 9 (-1)" 1]
    by (simp add: seen_hyps) blast
  moreover have "d_name (seen tree_disk 2516 (drop 16 (g_stack_dir zero_garbage)) ! 1) = replicate 52 0"
    by (simp add: tree_dir_at zero_stack)
  ultimately show ?thesis using n by (intro exI [of _ s'] exI [of _ e]) simp
qed

text \<open>From any successful creation to the descriptor it returns.\<close>

lemma creat_in_slot:
  assumes "creat_in g name b j direc s = (r, s')" "0 \<le> r"
  shows "fd s' ! nat r = fst (get_inode (g_bits g) s)"
proof -
  let ?n = "fst (get_inode (g_bits g) s)"
  have ne: "?n \<noteq> -1" using assms by (auto simp: creat_in_def split_beta Let_def)
  define s4 where "s4 = snd (write_inode ?n (bytes_of_inode (file_inode ?n (fst (get_block (g_bits g)
     (snd (write_block b (bytes_of_dir (direc[j := new_entry ?n name (direc ! j)])) (snd (get_inode (g_bits g) s))))))
     (load_inode (snd (write_block b (bytes_of_dir (direc[j := new_entry ?n name (direc ! j)])) (snd (get_inode (g_bits g) s)))) ?n
     (g_stack_inode g)))) (snd (get_block (g_bits g)
     (snd (write_block b (bytes_of_dir (direc[j := new_entry ?n name (direc ! j)])) (snd (get_inode (g_bits g) s))))))) "
  have "take_slot ?n s4 = (r, s')" using assms(1) ne by (simp add: creat_in_def split_beta Let_def s4_def)
  then show ?thesis using take_slot_cases [of ?n s4] assms(2) by auto
qed

lemma find_empty_state:
  "find_empty junk s bs direc = Some (b, j, d, s0) \<Longrightarrow> s0 = s \<or> s0 = snd (get_block junk s)"
  by (induction junk s bs direc rule: find_empty.induct)
    (auto simp: Let_def split_beta split: if_splits option.splits)

lemma creat_success:
  assumes "my_creat g path s = Some (r, s')" "0 \<le> r"
  shows "\<exists>name b j direc s0. creat_in g name b j direc s0 = (r, s') \<and> (s0 = s \<or> s0 = snd (get_block (g_bits g) s))"
  using assms find_empty_state unfolding my_creat_def
  by (fastforce simp: Let_def split: option.splits if_splits prod.splits bool.splits)

lemma name_taken_ok: "disk_ok s \<Longrightarrow> dir_ok d \<Longrightarrow> \<forall>b \<in> set bs. b = -1 \<or> 2516 \<le> b \<and> b < devsize s \<Longrightarrow>
    dir_ok (snd (name_taken s name bs d))"
  by (induction s name bs d rule: name_taken.induct) (auto simp: Let_def load_dir_eq dir_ok_append_at)

lemma empty_entry_bound: "empty_entry i es = Some j \<Longrightarrow> j < i + length es"
  by (induction i es rule: empty_entry.induct) (auto split: if_splits)

lemma find_empty_ok:
  "find_empty junk s bs direc = Some (b, j, d, s0) \<Longrightarrow> has_table s \<Longrightarrow> dir_ok direc \<Longrightarrow> length junk = 1024 \<Longrightarrow>
    2525 \<le> devsize s \<Longrightarrow> \<forall>b \<in> set bs. b = -1 \<or> 2516 \<le> b \<and> b < devsize s \<Longrightarrow>
    dir_ok d \<and> j < 32 \<and> 2516 \<le> b \<and> b < devsize s"
proof (induction junk s bs direc rule: find_empty.induct)
  case (2 junk s b0 bs direc)
  have ok: "disk_ok s" using "2.prems"(2) by (simp add: has_table_def)
  show ?case
  proof (cases "b0 = -1")
    case True
    let ?s = "snd (get_block junk s)" and ?b = "fst (get_block junk s)"
    have r: "2516 \<le> ?b" "?b < devsize s" using get_block_range "2.prems"(2,4,5) by fastforce+
    have t: "disk_ok ?s" using get_block_table "2.prems"(2,4) by (simp add: has_table_def)
    have "b = ?b" "j = 0" "d = load_dir ?s ?b direc" using "2.prems"(1) True by (auto simp: split_beta)
    then show ?thesis using r t "2.prems"(3) by (simp add: load_dir_eq dir_ok_append_at)
  next
    case False
    let ?d = "load_dir s b0 direc"
    have b0: "2516 \<le> b0" "b0 < devsize s" using "2.prems"(6) False by auto
    then have d: "dir_ok ?d" using ok "2.prems"(3) by (simp add: load_dir_eq dir_ok_append_at)
    show ?thesis
    proof (cases "empty_entry 0 ?d")
      case None
      then show ?thesis using 2 False d by (auto simp: Let_def)
    next
      case (Some j')
      then have "j' < 32" using empty_entry_bound [OF Some] d by (simp add: dir_ok_def)
      then show ?thesis using "2.prems"(1) Some False d b0 by (auto simp: Let_def)
    qed
  qed
qed simp

text \<open>The state after a successful creation gives the next one the same inode.\<close>

lemma creat_keeps_map:
  assumes "has_table s" "2525 \<le> devsize s" "garbage_ok g" "length (fd s) = MAX_OPEN_FILES" "SLASH \<notin> set name"
    "find_inode g dir s = Some (Some cur)" "\<forall>b \<in> set (i_blocks cur). b = -1 \<or> 2516 \<le> b \<and> b < devsize s"
    "my_creat g (dir @ SLASH # name) s = Some (r, s1)" "0 \<le> r"
  shows "has_table s1 \<and> block_at s1 14 ! 0 = block_at s 14 ! 0 \<and> fd s1 ! nat r = fst (get_inode (g_bits g) s) \<and>
    devsize s1 = devsize s"
proof -
  have ok: "disk_ok s" using assms(1) by (simp add: has_table_def)
  have J: "length (g_bits g) = 1024" using assms(3) by (simp add: garbage_ok_def)
  have sl: "last_slash 0 (dir @ SLASH # name) None = Some (length dir)" using last_slash_path [OF assms(5)] .
  from assms(8,9) sl assms(6) obtain direc b j d s0 where
    nt: "name_taken s name (i_blocks cur) (g_stack_dir g) = (False, direc)" and
    fe: "find_empty (g_bits g) s (i_blocks cur) direc = Some (b, j, d, s0)" and
    ci: "creat_in g name b j d s0 = (r, s1)" and len: "length name < 50"
    by (auto simp: my_creat_def MAX_FILE_NAME_LENGTH_def split: if_splits prod.splits bool.splits option.splits)
  have "dir_ok direc" using name_taken_ok [OF ok _ assms(7), of "g_stack_dir g" name] nt assms(3) by (simp add: garbage_ok_def)
  then have f: "dir_ok d" "j < 32" "2516 \<le> b" "b < devsize s" using find_empty_ok [OF fe assms(1) _ J assms(2,7)] by simp_all
  have s0: "has_table s0" "devsize s0 = devsize s" "length (fd s0) = MAX_OPEN_FILES" "block_at s0 14 = block_at s 14"
    using find_empty_state [OF fe] assms(1,2,4) J by (auto simp: get_block_table block_at_get_block)
  have n: "fst (get_inode (g_bits g) s0) = fst (get_inode (g_bits g) s)"
    using s0 assms(1,2) J ok by (simp add: get_inode_eq has_table_def)
  show ?thesis
    using creat_in_writes [OF s0(1) assms(3) len f(3) _ f(1,2) s0(3)] f(4) s0 ci creat_in_slot [OF ci assms(9)] n
    by simp
qed

text \<open>
  Because the inode map never records an allocation, the next file created gets the inode of the
  one created before: the two descriptors refer to the same inode, and the second creation has
  overwritten the first file's inode.
\<close>

theorem creat_twice_same_inode:
  assumes "has_table s" "2525 \<le> devsize s" "garbage_ok g" "garbage_ok g'" "length (fd s) = MAX_OPEN_FILES" "SLASH \<notin> set name"
    "find_inode g dir s = Some (Some cur)" "\<forall>b \<in> set (i_blocks cur). b = -1 \<or> BLOCK_TABLE_START \<le> b \<and> b < devsize s"
    "my_creat g (dir @ SLASH # name) s = Some (r, s1)" "0 \<le> r" "my_creat g' path' s1 = Some (r', s2)" "0 \<le> r'"
  shows "fd s2 ! nat r' = fd s1 ! nat r"
proof -
  have k: "has_table s1" "block_at s1 14 ! 0 = block_at s 14 ! 0" "fd s1 ! nat r = fst (get_inode (g_bits g) s)"
      "devsize s1 = devsize s"
    using creat_keeps_map [OF assms(1,2,3,5,6,7) _ assms(9,10)] assms(8) by (simp_all add: BLOCK_TABLE_START_def)
  have J: "length (g_bits g) = 1024" "length (g_bits g') = 1024" using assms(3,4) by (simp_all add: garbage_ok_def)
  obtain name' b j direc s0 where c: "creat_in g' name' b j direc s0 = (r', s2)" "s0 = s1 \<or> s0 = snd (get_block (g_bits g') s1)"
    using creat_success [OF assms(11,12)] by auto
  have s0: "has_table s0" "block_at s0 14 = block_at s1 14"
    using c(2) k(1,4) assms(2) J by (auto simp: get_block_table block_at_get_block)
  have "fst (get_inode (g_bits g') s0) = fst (get_inode (g_bits g) s)"
    using s0 k assms(1) J by (simp add: get_inode_eq has_table_def)
  then show ?thesis using creat_in_slot [OF c(1) assms(12)] k(3) by simp
qed

theorem creat_twice_same_inode_witness:
  "\<exists>s1 s2. my_creat zero_garbage [SLASH, SLASH, 0x62] tree_disk = Some (0, s1) \<and>
     my_creat zero_garbage [SLASH, SLASH, 0x63] s1 = Some (1, s2) \<and> fd s2 ! 1 = fd s1 ! 0"
proof -
  let ?g = zero_garbage and ?s = tree_disk
  let ?n = "fst (get_inode (g_bits ?g) ?s)"
  have n: "16 \<le> ?n" "?n \<le> 24" using get_inode_range [OF tree_disk_facts(1)] zero_garbage_ok by (auto simp: garbage_ok_def)
  have k: "free_slot 0 (fd ?s) = Some 0" by (simp add: tree_fd eval_nat_numeral)
  have fn: "cstr ([0x62] @ drop (length [0x62 :: u8]) (replicate 52 0)) = [0x62]" by (rule fill_name) simp_all
  obtain s1 e where s1: "my_creat ?g ([SLASH] @ SLASH # [0x62]) ?s = Some (int 0, s1)" "fd s1 = (fd ?s)[0 := ?n]" "has_table s1"
      "dir_at s1 2516 = (if 1 < (16 :: nat) then (dir_at ?s 2516)[1 := e] else dir_at ?s 2516)" "d_inode e = ?n"
      "d_name e = [0x62] @ drop (length [0x62 :: u8]) (d_name (seen ?s 2516 (drop 16 (g_stack_dir ?g)) ! 1))"
      "\<forall>m. 0 < m \<and> m < MAX_FILE_NUM \<and> m \<noteq> ?n \<longrightarrow> inode_at s1 m = inode_at ?s m" "devsize s1 = devsize ?s"
    using creat_file [OF tree_disk_facts(1) zero_garbage_ok _ _ tree_find _ _ _ _ _ _ _ _ _ k, of "[0x62]" "[]" 2516 "replicate 9 (-1)" 1]
    by (simp add: seen_hyps) blast
  have i1: "load_inode s1 1 (g_inode ?g) = start_inode True ?g ?s"
    using n s1(3,7) tree_disk_facts(1) by (simp add: load_inode_eq start_inode_def zero_garbage_def zero_inode_ok MAX_FILE_NUM_def)
  have f1: "find_inode ?g [SLASH] s1 = Some (Some (start_inode True ?g ?s))" using i1 by (simp add: find_root)
  have "dir_at s1 2516 = (dir_at ?s 2516)[1 := e]" using s1(4) by simp
  then have d1: "dir_at s1 2516 = (tree_dir ! 0) # e # replicate 14 zero_entry"
    by (simp add: tree_dir_at) (simp add: eval_nat_numeral)
  have k1: "free_slot 0 (fd s1) = Some 1" using n by (simp add: s1(2) tree_fd eval_nat_numeral)
  have ne: "cstr (d_name e) = [0x62]" using s1(6) fn by (simp add: tree_dir_at zero_stack)
  obtain s2 where s2: "my_creat ?g ([SLASH] @ SLASH # [0x63]) s1 = Some (int 1, s2)"
    using creat_file [OF s1(3) zero_garbage_ok _ _ f1 _ _ _ _ _ _ _ _ _ k1, of "[0x63]" "[]" 2516 "replicate 9 (-1)" 2] n s1(5) ne
    by (simp add: d1 seen_hyps s1(2,8)) (auto simp: less_Suc_eq eval_nat_numeral tree_name)
  have "fd s2 ! nat (int 1) = fd s1 ! nat (int 0)"
    by (rule creat_twice_same_inode [OF tree_disk_facts(1) _ zero_garbage_ok zero_garbage_ok _ _ tree_find _ s1(1) _ s2])
      (simp_all add: tree_hyps)
  then show ?thesis using s1(1) s2 by auto
qed

end
