(* ===== verification/SimRead.thy ===== *)
theory SimRead
  imports SimFs "HOL-Library.Monad_Syntax" "HOL-Library.Signed_Division"
begin

text \<open>
  Reading a file of the simulated disk: \<open>my_read\<close> of kernal/file_system/file.c. The function uses four
  names that are not declared: \<open>fp\<close> and \<open>length\<close>, which it changes, are fields of the state; \<open>tempp\<close> and
  \<open>fpoff\<close>, whose declarations are commented out, are arguments. A copy of a negative number of bytes
  (a huge \<open>size_t\<close>), outside of the caller's buffer or of the block buffer, is \<^term>\<open>None\<close>.
\<close>

section \<open>The model\<close>

record reader =
  r_buf :: bytes
  r_tmp :: bytes
  r_len :: int
  r_flag :: bool
  r_fp :: int
  r_length :: int

definition copy_to :: "bytes \<Rightarrow> int \<Rightarrow> bytes \<Rightarrow> int \<Rightarrow> int \<Rightarrow> bytes option" where
  "copy_to buf off src k n =
     (if n < 0 \<or> off < 0 \<or> int (length buf) < off + n \<or> k < 0 \<or> int (length src) < k + n then None
      else Some (take (nat off) buf @ take (nat n) (drop (nat k) src) @ drop (nat (off + n)) buf))"

text \<open>\<open>blknum <= 10\<close>: every block is copied to the start of the buffer, since \<open>len\<close> is not moved.\<close>

fun short_loop :: "simdisk \<Rightarrow> int \<Rightarrow> int list \<Rightarrow> reader \<Rightarrow> reader option" where
  "short_loop s temp [] r = Some r"
| "short_loop s temp (b # bs) r = do {
     let tmp = snd (read_block s b (r_tmp r));
     buf \<leftarrow> copy_to (r_buf r) (r_len r) tmp 0 temp;
     short_loop s temp bs (r\<lparr>r_tmp := tmp, r_buf := buf, r_length := wrap32 (r_length r + temp)\<rparr>)
   }"

text \<open>
  The body that the loop over the direct blocks and the one over the indirect blocks share, up to and
  including \<open>len += temp\<close>. (\<open>len\<close> never leaves the range of an \<open>int\<close>: there are only so many blocks.)
\<close>

definition read_part :: "simdisk \<Rightarrow> int \<Rightarrow> int \<Rightarrow> int \<Rightarrow> int \<Rightarrow> reader \<Rightarrow> reader option" where
  "read_part s tempp fpoff b temp r =
     (if r_flag r then do {
        let tmp = snd (read_block s b (r_tmp r));
        buf \<leftarrow> copy_to (r_buf r) (r_len r - tempp) tmp 0 temp;
        Some (r\<lparr>r_tmp := tmp, r_buf := buf, r_fp := wrap32 (r_fp r + temp), r_len := r_len r + temp\<rparr>)
      }
      else if r_len r + temp \<ge> tempp then
        (let temp = temp - fpoff in
         if temp > 0 then do {
           let tmp = snd (read_block s b (r_tmp r));
           buf \<leftarrow> copy_to (r_buf r) 0 tmp fpoff temp;
           Some (r\<lparr>r_tmp := tmp, r_buf := buf, r_fp := wrap32 (r_fp r + temp), r_flag := True, r_len := r_len r + fpoff + temp\<rparr>)
         }
         else Some (r\<lparr>r_flag := True, r_len := r_len r + temp\<rparr>))
      else Some (r\<lparr>r_len := r_len r + temp\<rparr>))"

fun direct_loop :: "simdisk \<Rightarrow> int \<Rightarrow> int \<Rightarrow> int list \<Rightarrow> reader \<Rightarrow> reader option" where
  "direct_loop s tempp fpoff [] r = Some r"
| "direct_loop s tempp fpoff (b # bs) r = do {
     r \<leftarrow> read_part s tempp fpoff b 1024 r;
     direct_loop s tempp fpoff bs r
   }"

text \<open>The loop over the entries of one indirect block, from entry \<open>j\<close> on.\<close>

fun entry_loop :: "simdisk \<Rightarrow> int \<Rightarrow> int \<Rightarrow> int \<Rightarrow> int \<Rightarrow> int \<Rightarrow> int \<Rightarrow> int list \<Rightarrow> reader \<Rightarrow> reader option" where
  "entry_loop s tempp fpoff count blknum i j [] r = Some r"
| "entry_loop s tempp fpoff count blknum i j (b # bs) r = do {
     let temp = (if 1024 + r_len r > count then count - r_len r else 1024);
     r \<leftarrow> read_part s tempp fpoff b temp r;
     if blknum = j + i * 256 then Some r else entry_loop s tempp fpoff count blknum i (j + 1) bs r
   }"

text \<open>The loop over the indirect blocks, with \<open>left\<close> of them to go; an inode has 30.\<close>

fun indirect_loop :: "simdisk \<Rightarrow> int \<Rightarrow> int \<Rightarrow> int \<Rightarrow> int \<Rightarrow> int list \<Rightarrow> bytes \<Rightarrow> nat \<Rightarrow> nat \<Rightarrow> reader \<Rightarrow> reader option" where
  "indirect_loop s tempp fpoff count blknum ind ib i 0 r = Some r"
| "indirect_loop s tempp fpoff count blknum ind ib i (Suc left) r =
     (if length ind \<le> i then None
      else do {
        let ib = snd (read_block s (ind ! i) ib);
        r \<leftarrow> entry_loop s tempp fpoff count blknum (int i) 0 (ints_of 256 ib) r;
        indirect_loop s tempp fpoff count blknum ind ib (Suc i) left r
      })"

text \<open>
  \<open>stack\<close> is what the stack holds in \<open>tmp\<close> and \<open>ib\<close>. The answer is \<open>len - tempp\<close>, the caller's
  buffer, and \<open>fp\<close> and \<open>length\<close>.
\<close>

definition my_read :: "garbage \<Rightarrow> bytes \<times> bytes \<Rightarrow> int \<Rightarrow> int \<Rightarrow> int \<Rightarrow> int \<Rightarrow> int \<Rightarrow> bytes \<Rightarrow> int \<Rightarrow> simdisk \<Rightarrow>
    (int \<times> bytes \<times> int \<times> int) option" where
  "my_read g stack fp len0 tempp fpoff fdd buf cnt s =
     (if fdd < 0 \<or> int MAX_OPEN_FILES \<le> fdd then None
      else do {
        let count = cnt;
        let blknum = wrap32 (count - 1) sdiv 1024 + 1;
        let this = load_inode s (fd s ! nat fdd) (g_stack_inode g);
        let r = \<lparr>r_buf = buf, r_tmp = fst stack, r_len = 0, r_flag = False, r_fp = fp, r_length = len0\<rparr>;
        r \<leftarrow> (if blknum \<le> 10
             then short_loop s (if count > 1024 then 1024 else count) (take (nat blknum) (i_blocks this)) r
             else Some r);
        r \<leftarrow> direct_loop s tempp fpoff (i_blocks this) r;
        let blknum = blknum - 10;
        let indnum = blknum sdiv 256 + 1;
        r \<leftarrow> indirect_loop s tempp fpoff count blknum (i_ind_blocks this) (snd stack) 0 (nat indnum) r;
        Some (r_len r - tempp, r_buf r, r_fp r, r_length r)
      })"

end
