(* ===== verification/SimReadProps.thy ===== *)
theory SimReadProps
  imports SimRead SimFsProps
begin

text \<open>
  Properties of \<open>my_read\<close> (theory SimRead): where it has no defined behaviour, and what it reads where it has.
\<close>

section \<open>Too few bytes\<close>

lemma copy_to_length: "copy_to buf off src k n = Some buf' \<Longrightarrow> length buf' = length buf"
  by (auto simp: copy_to_def split: if_splits)

lemma copy_negative: "n < 0 \<Longrightarrow> copy_to buf off src k n = None"
  by (simp add: copy_to_def)

lemma read_part_len:
  assumes "read_part s tempp fpoff b 1024 r = Some r'" "fpoff < 1024"
  shows "r_len r' = r_len r + 1024" "r_flag r' \<longleftrightarrow> r_flag r \<or> tempp \<le> r_len r'"
  using assms by (auto simp: read_part_def Let_def split: if_splits bind_splits)

lemma direct_loop_len:
  "direct_loop s tempp fpoff bs r = Some r' \<Longrightarrow> fpoff < 1024 \<Longrightarrow>
    r_len r' = r_len r + 1024 * int (length bs) \<and> (r_flag r' \<longleftrightarrow> r_flag r \<or> bs \<noteq> [] \<and> tempp \<le> r_len r')"
proof (induction bs arbitrary: r)
  case (Cons b bs)
  then obtain r1 where r1: "read_part s tempp fpoff b 1024 r = Some r1" "direct_loop s tempp fpoff bs r1 = Some r'"
    by (auto split: bind_splits)
  note l = read_part_len [OF r1(1) Cons.prems(2)]
  from Cons.IH [OF r1(2) Cons.prems(2)] l show ?case by (cases bs) auto
qed simp

lemma short_loop_keeps: "short_loop s temp bs r = Some r' \<Longrightarrow> r_len r' = r_len r \<and> r_flag r' = r_flag r"
proof (induction bs arbitrary: r)
  case (Cons b bs)
  obtain buf where "short_loop s temp bs (r\<lparr>r_tmp := snd (read_block s b (r_tmp r)), r_buf := buf, r_length := wrap32 (r_length r + temp)\<rparr>) = Some r'"
    using Cons.prems by (auto simp: Let_def split: bind_splits)
  from Cons.IH [OF this] show ?case by simp
qed simp

lemma length_read_block: "length (snd (read_block s b buf)) = max (length buf) (length (snd (read_block s b [])))"
  by (auto simp: read_block_def fill_def Let_def)

lemma small_blknum:
  assumes "0 \<le> cnt" "cnt < 10240"
  shows "1 \<le> wrap32 (cnt - 1) sdiv 1024 + 1" "wrap32 (cnt - 1) sdiv 1024 + 1 \<le> 10"
    "(wrap32 (cnt - 1) sdiv 1024 + 1 - 10) sdiv 256 = 0"
proof -
  have w: "wrap32 (cnt - 1) = cnt - 1" using assms by (simp add: wrap32_id)
  have "(cnt - 1) div 1024 \<le> 9" using assms(2) zdiv_mono1 [of "cnt - 1" 10239 1024] by simp
  then have "0 \<le> (cnt - 1) sdiv 1024 \<and> (cnt - 1) sdiv 1024 \<le> 9"
    using assms by (cases "cnt = 0") (simp_all add: signed_divide_int_def sgn_if)
  then show "1 \<le> wrap32 (cnt - 1) sdiv 1024 + 1" "wrap32 (cnt - 1) sdiv 1024 + 1 \<le> 10"
    "(wrap32 (cnt - 1) sdiv 1024 + 1 - 10) sdiv 256 = 0"
    unfolding w by (auto simp: signed_divide_int_def [of _ 256] sgn_if)
qed

lemma short_read:
  assumes "inode_ok (g_stack_inode g)" "length (snd stack) = 1024" "0 \<le> fp" "fp \<le> 10240" "0 \<le> cnt" "cnt < 10240"
  shows "my_read g stack fp len0 fp (fp smod 1024) fdd buf cnt s = None"
proof (cases "fdd < 0 \<or> int MAX_OPEN_FILES \<le> fdd")
  case True
  then show ?thesis by (simp add: my_read_def)
next
  case False
  define this where "this = load_inode s (fd s ! nat fdd) (g_stack_inode g)"
  define r0 where "r0 = \<lparr>r_buf = buf, r_tmp = fst stack, r_len = 0, r_flag = False, r_fp = fp, r_length = len0\<rparr>"
  let ?n = "wrap32 (cnt - 1) sdiv 1024 + 1" and ?off = "fp smod 1024"
  let ?short = "short_loop s (if cnt > 1024 then 1024 else cnt) (take (nat ?n) (i_blocks this)) r0"
  have off: "?off < 1024" using assms(3) by (cases "fp = 0") (simp_all add: signed_modulo_int_def)
  have sizes: "length (i_blocks this) = 10" "length (i_ind_blocks this) = 30"
    using inode_ok_load [OF assms(1)] by (simp_all add: this_def inode_ok_def)
  note n = small_blknum [OF assms(5,6)]
  have "indirect_loop s fp ?off cnt (?n - 10) (i_ind_blocks this) (snd stack) 0 (Suc 0) r2 = None"
    if r: "r_len r2 = 10240" "r_flag r2" for r2
  proof -
    define ib where "ib = snd (read_block s (i_ind_blocks this ! 0) (snd stack))"
    have "1024 \<le> length ib" unfolding ib_def using assms(2) by (subst length_read_block) simp
    then have "length (ints_of 256 ib) = 256" by (simp add: length_ints_of)
    then obtain b bs where bs: "ints_of 256 ib = b # bs" by (cases "ints_of 256 ib") auto
    have "read_part s fp ?off b (cnt - 10240) r2 = None"
      using r(2) assms(6) by (simp add: read_part_def copy_negative Let_def)
    then show ?thesis using sizes(2) r(1) assms(5,6) by (simp add: bs flip: ib_def)
  qed
  then have last: "indirect_loop s fp ?off cnt (?n - 10) (i_ind_blocks this) (snd stack) 0 (nat ((?n - 10) sdiv 256 + 1)) r2 = None"
    if "r_len r2 = 10240" "r_flag r2" for r2
    unfolding n(3) using that by simp
  show ?thesis
  proof (cases ?short)
    case None
    then show ?thesis using False n(2) by (simp add: my_read_def Let_def flip: this_def r0_def)
  next
    case (Some r1)
    have r1: "r_len r1 = 0" "\<not> r_flag r1" using short_loop_keeps [OF Some] by (simp_all add: r0_def)
    show ?thesis
    proof (cases "direct_loop s fp ?off (i_blocks this) r1")
      case None
      then show ?thesis using False n(2) Some by (simp add: my_read_def Let_def flip: this_def r0_def)
    next
      case (Some r2)
      have "r_len r2 = 10240" "r_flag r2"
        using direct_loop_len [OF Some off] r1 sizes(1) assms(4) by auto
      then show ?thesis using False n(2) Some \<open>?short = Some r1\<close> last by (simp add: my_read_def Let_def flip: this_def r0_def)
    qed
  qed
qed

section \<open>Reading from the start\<close>

text \<open>A reader at the start of a file, or under way, and one that has appended bytes to its buffer.\<close>

definition ready :: "reader \<Rightarrow> bool" where
  "ready r \<longleftrightarrow> 0 \<le> r_len r \<and> nat (r_len r) \<le> length (r_buf r) \<and> length (r_tmp r) = 1024 \<and> (r_flag r \<or> r_len r = 0)"

definition appended :: "reader \<Rightarrow> bytes \<Rightarrow> reader \<Rightarrow> bool" where
  "appended r bs r' \<longleftrightarrow> r_len r' = r_len r + int (length bs) \<and> r_flag r' \<and> length (r_tmp r') = 1024 \<and>
     r_buf r' = take (nat (r_len r)) (r_buf r) @ bs @ drop (nat (r_len r) + length bs) (r_buf r)"

lemma appended_trans:
  assumes "ready r" "appended r xs r1" "appended r1 ys r2"
  shows "appended r (xs @ ys) r2"
proof -
  let ?n = "nat (r_len r)"
  have n: "nat (r_len r1) = ?n + length xs" "?n \<le> length (r_buf r)" using assms(1,2) by (simp_all add: ready_def appended_def nat_add_distrib)
  have "take (?n + length xs) (r_buf r1) = take ?n (r_buf r) @ xs"
    "drop (?n + length xs + length ys) (r_buf r1) = drop (?n + length (xs @ ys)) (r_buf r)"
    using assms(2) n(2) by (simp_all add: appended_def add_ac)
  then show ?thesis using assms(2,3) n(1) by (simp add: appended_def)
qed

lemma appended_ready:
  assumes "ready r" "appended r bs r'" "nat (r_len r) + length bs \<le> length (r_buf r)"
  shows "ready r'" "r_flag r'" "length (r_buf r') = length (r_buf r)"
  using assms by (simp_all add: ready_def appended_def nat_add_distrib)

definition valid :: "simdisk \<Rightarrow> int \<Rightarrow> bool" where
  "valid s b \<longleftrightarrow> 0 \<le> b \<and> b < devsize s"

lemma read_valid: "disk_ok s \<Longrightarrow> valid s b \<Longrightarrow> length buf = 1024 \<Longrightarrow> snd (read_block s b buf) = block_at s b"
  by (simp add: read_block_eq valid_def fill_full length_block_at)

lemma length_valid: "disk_ok s \<Longrightarrow> valid s b \<Longrightarrow> length (block_at s b) = 1024"
  by (simp add: length_block_at valid_def)

lemma length_any_block: "length buf = 1024 \<Longrightarrow> length (snd (read_block s b buf)) = 1024"
  by (subst length_read_block) (simp add: read_block_def fill_def Let_def read_at_def BLOCKSIZE_def)

lemma read_part_block:
  assumes "disk_ok s" "ready r" "valid s b" "0 < n" "n \<le> 1024" "nat (r_len r) + n \<le> length (r_buf r)"
  shows "\<exists>r'. read_part s 0 0 b (int n) r = Some r' \<and> appended r (take n (block_at s b)) r'"
proof -
  have tmp: "snd (read_block s b (r_tmp r)) = block_at s b" "length (block_at s b) = 1024"
    using assms read_valid length_valid by (simp_all add: ready_def)
  have c: "copy_to (r_buf r) (r_len r) (block_at s b) 0 (int n) =
      Some (take (nat (r_len r)) (r_buf r) @ take n (block_at s b) @ drop (nat (r_len r) + n) (r_buf r))"
    using assms tmp(2) by (simp add: copy_to_def ready_def nat_add_distrib)
  show ?thesis
  proof (cases "r_flag r")
    case True
    then show ?thesis using tmp c assms(5) by (simp add: read_part_def Let_def appended_def)
  next
    case False
    then have z: "r_len r = 0" using assms(2) by (simp add: ready_def)
    then show ?thesis using False tmp c assms(4,5) by (simp add: read_part_def Let_def appended_def)
  qed
qed

lemma read_part_nothing:
  assumes "ready r" "r_flag r"
  shows "\<exists>r'. read_part s 0 0 b 0 r = Some r' \<and> appended r [] r'"
  using assms length_any_block [of "r_tmp r" s b]
  by (simp add: read_part_def Let_def appended_def copy_to_def ready_def nat_le_iff linorder_not_less)

lemma direct_loop_blocks:
  assumes "disk_ok s"
  shows "ready r \<Longrightarrow> \<forall>b \<in> set bs. valid s b \<Longrightarrow> nat (r_len r) + 1024 * length bs \<le> length (r_buf r) \<Longrightarrow> bs \<noteq> [] \<Longrightarrow>
    \<exists>r'. direct_loop s 0 0 bs r = Some r' \<and> appended r (concat (map (block_at s) bs)) r'"
proof (induction bs arbitrary: r)
  case (Cons b bs)
  have b: "valid s b" "length (block_at s b) = 1024" using Cons.prems length_valid [OF assms] by simp_all
  have "nat (r_len r) + 1024 \<le> length (r_buf r)" using Cons.prems(3) by simp
  then obtain r1 where r1: "read_part s 0 0 b 1024 r = Some r1" "appended r (block_at s b) r1"
    using read_part_block [OF assms Cons.prems(1) b(1), of 1024] b(2) by auto
  have a: "ready r1" "r_flag r1" "length (r_buf r1) = length (r_buf r)"
    using appended_ready [OF Cons.prems(1) r1(2)] b(2) Cons.prems(3) by simp_all
  show ?case
  proof (cases bs)
    case Nil
    then show ?thesis using r1 by simp
  next
    case (Cons c cs)
    have "nat (r_len r1) = nat (r_len r) + 1024" using r1(2) b(2) \<open>ready r\<close> by (simp add: appended_def ready_def nat_add_distrib)
    then obtain r2 where "direct_loop s 0 0 bs r1 = Some r2" "appended r1 (concat (map (block_at s) bs)) r2"
      using Cons.IH [OF a(1)] Cons.prems Cons a(3) by auto
    then show ?thesis using r1 appended_trans [OF \<open>ready r\<close> r1(2)] by simp
  qed
qed simp

text \<open>How many blocks \<open>n\<close> bytes take.\<close>

definition blocks_for :: "nat \<Rightarrow> nat" where
  "blocks_for n = (n + 1023) div 1024"

lemma blocks_for_step: "0 < n \<Longrightarrow> blocks_for n = Suc (blocks_for (n - min n 1024))"
proof -
  assume "0 < n"
  show ?thesis
  proof (cases "n \<le> 1024")
    case True
    then have "(n + 1023) div 1024 = 1" using \<open>0 < n\<close> by (intro div_nat_eqI) simp_all
    then show ?thesis using True by (simp add: blocks_for_def)
  next
    case False
    then have "n + 1023 = (n - 1024 + 1023) + 1024" by simp
    then have "(n + 1023) div 1024 = Suc ((n - 1024 + 1023) div 1024)" by (simp only: div_add_self2)
    then show ?thesis using False by (simp add: blocks_for_def min_def)
  qed
qed

lemma blocks_for_0 [simp]: "blocks_for 0 = 0"
  by (simp add: blocks_for_def)

lemma blocks_for_eq_0 [simp]: "blocks_for n = 0 \<longleftrightarrow> n = 0"
  using blocks_for_step [of n] by (cases "n = 0") auto

lemma blocks_for_minus: "blocks_for (n - 1024 * k) = blocks_for n - k"
proof (induction k arbitrary: n)
  case (Suc k)
  have "blocks_for (n - 1024 * Suc k) = blocks_for (n - min n 1024 - 1024 * k)" by (simp add: min_def)
  also have "\<dots> = blocks_for n - Suc k" unfolding Suc.IH using blocks_for_step [of n] by (cases "n = 0") simp_all
  finally show ?case .
qed simp

lemma blocks_for_bytes: "k \<le> blocks_for n \<Longrightarrow> n < 1024 * k \<Longrightarrow> blocks_for n = k"
  using blocks_for_minus [of n k] by simp

text \<open>
  The loop over an indirect block, with \<open>n\<close> bytes to go: the break comes at the entry that is one past
  the last one needed, of which no bytes are copied.
\<close>

lemma entry_loop_blocks:
  assumes "disk_ok s"
  shows "ready r \<Longrightarrow> r_flag r \<Longrightarrow> count = r_len r + int n \<Longrightarrow> nat (r_len r) + n \<le> length (r_buf r) \<Longrightarrow>
    blknum = j + i * 256 + int (blocks_for n) \<Longrightarrow> \<forall>b \<in> set (take (blocks_for n) bs). valid s b \<Longrightarrow> bs \<noteq> [] \<Longrightarrow>
    \<exists>r'. entry_loop s 0 0 count blknum i j bs r = Some r' \<and>
      appended r (take n (concat (map (block_at s) (take (blocks_for n) bs)))) r'"
proof (induction bs arbitrary: r n j)
  case (Cons b bs)
  show ?case
  proof (cases "n = 0")
    case True
    then show ?thesis using Cons.prems read_part_nothing [OF Cons.prems(1,2), of s b] by auto
  next
    case False
    define k where "k = min n 1024"
    have k: "0 < k" "k \<le> 1024" "k \<le> n" "blocks_for n = Suc (blocks_for (n - k))"
      using False blocks_for_step [of n] by (simp_all add: k_def)
    have b: "valid s b" "length (block_at s b) = 1024" using Cons.prems(6) k(4) length_valid [OF assms] by simp_all
    have temp: "(if 1024 + r_len r > count then count - r_len r else 1024) = int k"
      using Cons.prems(3) by (auto simp: k_def)
    obtain r1 where r1: "read_part s 0 0 b (int k) r = Some r1" "appended r (take k (block_at s b)) r1"
      using read_part_block [OF assms Cons.prems(1) b(1) k(1,2)] Cons.prems(4) k(3) by auto
    have a: "ready r1" "r_flag r1" "length (r_buf r1) = length (r_buf r)"
      using appended_ready [OF Cons.prems(1) r1(2)] b(2) Cons.prems(4) k(2,3) by simp_all
    have l: "r_len r1 = r_len r + int k" using r1(2) b(2) k(2) by (simp add: appended_def)
    have go: "entry_loop s 0 0 count blknum i j (b # bs) r = entry_loop s 0 0 count blknum i (j + 1) bs r1"
      using r1(1) Cons.prems(5) k(4) by (simp add: temp)
    have data: "take n (concat (map (block_at s) (take (blocks_for n) (b # bs)))) =
        take k (block_at s b) @ take (n - k) (concat (map (block_at s) (take (blocks_for (n - k)) bs)))"
      using b(2) k by (cases "n \<le> 1024") (simp_all add: k_def)
    show ?thesis
    proof (cases "bs = []")
      case True
      then show ?thesis using r1 go data by simp
    next
      case False
      have "\<exists>r'. entry_loop s 0 0 count blknum i (j + 1) bs r1 = Some r' \<and>
          appended r1 (take (n - k) (concat (map (block_at s) (take (blocks_for (n - k)) bs)))) r'"
        by (rule Cons.IH [OF a(1,2)])
          (use Cons.prems l k a(3) False in \<open>simp_all add: nat_add_distrib ready_def of_nat_diff\<close>)
      then show ?thesis using appended_trans [OF Cons.prems(1) r1(2)] unfolding go data by blast
    qed
  qed
qed simp

text \<open>The blocks an indirect block lists, and those of a file.\<close>

definition entries :: "simdisk \<Rightarrow> int \<Rightarrow> int list" where
  "entries s b = ints_of 256 (block_at s b)"

lemma length_entries: "disk_ok s \<Longrightarrow> valid s b \<Longrightarrow> length (entries s b) = 256"
  by (simp add: entries_def length_ints_of length_valid)

lemma length_contents:
  "disk_ok s \<Longrightarrow> \<forall>b \<in> set bs. valid s b \<Longrightarrow> length (concat (map (block_at s) bs)) = 1024 * length bs"
  by (induction bs) (simp_all add: length_valid)

definition listed :: "simdisk \<Rightarrow> int list \<Rightarrow> int list" where
  "listed s ind = concat (map (entries s) ind)"

definition contents :: "simdisk \<Rightarrow> nat \<Rightarrow> int list \<Rightarrow> bytes" where
  "contents s n bs = take n (concat (map (block_at s) (take (blocks_for n) bs)))"

lemma contents_append:
  assumes "disk_ok s" "\<forall>b \<in> set (take (blocks_for n) (bs @ cs)). valid s b" "length bs \<le> blocks_for n"
  shows "contents s n (bs @ cs) = contents s n bs @ contents s (n - 1024 * length bs) cs"
    and "length (contents s n bs) = min n (1024 * length bs)"
proof -
  have v: "\<forall>b \<in> set bs. valid s b" and t: "take (blocks_for n) bs = bs" using assms(2,3) by simp_all
  note l = length_contents [OF assms(1) v]
  show "length (contents s n bs) = min n (1024 * length bs)" using l t by (simp add: contents_def)
  show "contents s n (bs @ cs) = contents s n bs @ contents s (n - 1024 * length bs) cs"
    using t l by (simp add: contents_def blocks_for_minus)
qed

lemma blocks_for_enough: "n \<le> 1024 * blocks_for n"
  using blocks_for_minus [of n "blocks_for n"] blocks_for_eq_0 [of "n - 1024 * blocks_for n"] by simp

lemma length_contents_all:
  assumes "disk_ok s" "\<forall>b \<in> set (take (blocks_for n) bs). valid s b" "blocks_for n \<le> length bs"
  shows "length (contents s n bs) = n"
  using length_contents [OF assms(1,2)] assms(3) blocks_for_enough [of n] by (simp add: contents_def)

lemma length_listed: "disk_ok s \<Longrightarrow> \<forall>b \<in> set bs. valid s b \<Longrightarrow> length (listed s bs) = 256 * length bs"
  by (induction bs) (simp_all add: listed_def length_entries)

text \<open>Enough indirect blocks that are valid list enough blocks.\<close>

lemma listed_enough:
  assumes "disk_ok s" "\<forall>k. 256 * k < q \<longrightarrow> valid s (ind ! k)" "q \<le> 256 * length ind"
  shows "q \<le> length (listed s ind)"
proof -
  define m where "m = (q + 255) div 256"
  have m: "q \<le> 256 * m" "m \<le> length ind"
    using div_le_mono [OF add_right_mono [OF assms(3)], of 255 256] by (simp_all add: m_def)
  have "256 * k < q" if "k < m" for k
  proof -
    have "(k + 1) * 256 \<le> m * 256" using that by (intro mult_right_mono) simp_all
    moreover have "m * 256 \<le> q + 255" unfolding m_def by (rule div_times_less_eq_dividend)
    ultimately have "(k + 1) * 256 \<le> q + 255" by (rule order_trans)
    then show ?thesis by simp
  qed
  then have "\<forall>b \<in> set (take m ind). valid s b" using assms(2) m(2) by (auto simp: in_set_conv_nth)
  from length_listed [OF assms(1) this] have "length (listed s (take m ind)) = 256 * m" using m(2) by simp
  moreover have "listed s ind = listed s (take m ind) @ listed s (drop m ind)"
    by (simp add: listed_def flip: concat_append map_append)
  ultimately show ?thesis using m(1) by simp
qed

lemma indirect_loop_blocks:
  assumes "disk_ok s"
  shows "ready r \<Longrightarrow> r_flag r \<Longrightarrow> count = r_len r + int n \<Longrightarrow> nat (r_len r) + n \<le> length (r_buf r) \<Longrightarrow>
    blknum = 256 * int i + int (blocks_for n) \<Longrightarrow> left = blocks_for n div 256 + 1 \<Longrightarrow> i + left \<le> length ind \<Longrightarrow> length ib = 1024 \<Longrightarrow>
    \<forall>k. 256 * k < blocks_for n \<longrightarrow> valid s (ind ! (i + k)) \<Longrightarrow> \<forall>b \<in> set (take (blocks_for n) (listed s (drop i ind))). valid s b \<Longrightarrow>
    \<exists>r'. indirect_loop s 0 0 count blknum ind ib i left r = Some r' \<and> appended r (contents s n (listed s (drop i ind))) r'"
proof (induction left arbitrary: i n r ib)
  case (Suc left)
  define ib' where "ib' = snd (read_block s (ind ! i) ib)"
  let ?q = "blocks_for n"
  have i: "i < length ind" using Suc.prems(7) by simp
  have dr: "listed s (drop i ind) = entries s (ind ! i) @ listed s (drop (Suc i) ind)"
    using i by (simp add: listed_def Cons_nth_drop_Suc [symmetric])
  have ib': "length ib' = 1024" unfolding ib'_def by (rule length_any_block [OF Suc.prems(8)])
  then have ne: "ints_of 256 ib' \<noteq> []" using length_ints_of [of 256 ib'] by auto
  have go: "indirect_loop s 0 0 count blknum ind ib i (Suc left) r = do {
      r \<leftarrow> entry_loop s 0 0 count blknum (int i) 0 (ints_of 256 ib') r;
      indirect_loop s 0 0 count blknum ind ib' (Suc i) left r
    }" using i by (simp add: ib'_def Let_def)
  show ?case
  proof (cases "n = 0")
    case True
    then have "\<exists>r'. entry_loop s 0 0 count blknum (int i) 0 (ints_of 256 ib') r = Some r' \<and> appended r [] r'"
      using entry_loop_blocks [OF assms Suc.prems(1-4), of blknum 0 "int i" "ints_of 256 ib'"] Suc.prems(5) ne by simp
    then show ?thesis using Suc.prems(6) True unfolding go by (auto simp: contents_def)
  next
    case False
    then have "0 < ?q" using blocks_for_eq_0 [of n] by linarith
    then have v: "valid s (ind ! i)" using Suc.prems(9) [rule_format, of 0] by simp
    have es: "ints_of 256 ib' = entries s (ind ! i)" "length (entries s (ind ! i)) = 256"
      using read_valid [OF assms v Suc.prems(8)] length_entries [OF assms v] by (simp_all add: ib'_def entries_def)
    have "\<forall>b \<in> set (take ?q (entries s (ind ! i))). valid s b" using Suc.prems(10) unfolding dr by simp
    then obtain r1 where r1: "entry_loop s 0 0 count blknum (int i) 0 (entries s (ind ! i)) r = Some r1"
      "appended r (contents s n (entries s (ind ! i))) r1"
      using entry_loop_blocks [OF assms Suc.prems(1-4), of blknum 0 "int i" "entries s (ind ! i)"] Suc.prems(5) ne
      by (auto simp: es(1) contents_def)
    show ?thesis
    proof (cases "?q < 256")
      case True
      then have "left = 0" "contents s n (listed s (drop i ind)) = contents s n (entries s (ind ! i))"
        using Suc.prems(6) es(2) by (simp_all add: contents_def dr)
      then show ?thesis using r1 unfolding go es(1) by simp
    next
      case False
      let ?m = "n - 262144"
      have q: "blocks_for ?m = ?q - 256" using blocks_for_minus [of n 256] by simp
      note ca = contents_append [OF assms, of n "entries s (ind ! i)" "listed s (drop (Suc i) ind)"]
      have all: "\<forall>b \<in> set (take ?q (entries s (ind ! i) @ listed s (drop (Suc i) ind))). valid s b"
        using Suc.prems(10) unfolding dr .
      have data: "contents s n (listed s (drop i ind)) = contents s n (entries s (ind ! i)) @ contents s ?m (listed s (drop (Suc i) ind))"
        and len: "length (contents s n (entries s (ind ! i))) = min n 262144"
        using ca [OF all] False es(2) unfolding dr by simp_all
      have fits: "nat (r_len r) + min n 262144 \<le> length (r_buf r)" using Suc.prems(4) by simp
      note a = appended_ready [OF Suc.prems(1) r1(2), unfolded len, OF fits]
      have l: "r_len r1 = r_len r + int (min n 262144)" using r1(2) len by (simp add: appended_def)
      have nm: "min n 262144 + ?m = n" by simp
      have "\<exists>r'. indirect_loop s 0 0 count blknum ind ib' (Suc i) left r1 = Some r' \<and>
          appended r1 (contents s ?m (listed s (drop (Suc i) ind))) r'"
      proof (rule Suc.IH [OF a(1,2) _ _ _ _ _ ib'])
        show "count = r_len r1 + int ?m" using Suc.prems(3) l by simp
        show "nat (r_len r1) + ?m \<le> length (r_buf r1)"
          using Suc.prems(1,4) l a(3) by (simp add: nat_add_distrib ready_def)
        show "blknum = 256 * int (Suc i) + int (blocks_for ?m)" using Suc.prems(5) q False by (simp add: of_nat_diff)
        show "left = blocks_for ?m div 256 + 1" using Suc.prems(6) q False by (simp add: le_div_geq)
        show "Suc i + left \<le> length ind" using Suc.prems(7) by simp
        show "\<forall>k. 256 * k < blocks_for ?m \<longrightarrow> valid s (ind ! (Suc i + k))"
        proof (intro allI impI)
          fix k assume "256 * k < blocks_for ?m"
          then have "256 * Suc k < ?q" using q by simp
          then have "valid s (ind ! (i + Suc k))" using Suc.prems(9) by blast
          then show "valid s (ind ! (Suc i + k))" by simp
        qed
        show "\<forall>b \<in> set (take (blocks_for ?m) (listed s (drop (Suc i) ind))). valid s b"
          using all es(2) unfolding q by simp
      qed
      then show ?thesis using r1 appended_trans [OF Suc.prems(1) r1(2)] unfolding go es(1) data by auto
    qed
  qed
qed simp

lemma blknum_int:
  assumes "0 < n" "n < 2 ^ 31"
  shows "wrap32 (int n - 1) sdiv 1024 + 1 = int (blocks_for n)"
proof -
  have w: "wrap32 (int n - 1) = int (n - 1)" using assms by (simp add: wrap32_id of_nat_diff)
  have "blocks_for n = (n - 1 + 1024) div 1024" using assms(1) by (simp add: blocks_for_def)
  also have "\<dots> = (n - 1) div 1024 + 1" by (simp only: div_add_self2)
  finally have b: "int (blocks_for n) = int ((n - 1) div 1024) + 1" by simp
  have "int (n - 1) sdiv 1024 = int (n - 1) div 1024" by (cases "n - 1 = 0") (simp_all add: signed_divide_int_def)
  then show ?thesis unfolding w b by (simp add: zdiv_int)
qed

lemma sdiv_nat_256: "int k sdiv 256 = int (k div 256)"
  by (cases "k = 0") (simp_all add: signed_divide_int_def zdiv_int)

lemma indirect_loop_limit:
  "indirect_loop s tempp fpoff count blknum ind ib i left r = Some r' \<Longrightarrow> left = 0 \<or> i + left \<le> length ind"
proof (induction left arbitrary: i ib r)
  case (Suc left)
  then show ?case by (fastforce simp: Let_def split: if_splits bind_splits)
qed simp

lemma long_read:
  assumes "inode_ok (g_stack_inode g)" "7689 * 1024 < cnt" "cnt < 2 ^ 31"
  shows "my_read g stack fp len0 tempp fpoff fdd buf cnt s = None"
proof -
  define n where "n = nat cnt"
  have n: "cnt = int n" "0 < n" "n < 2 ^ 31" using assms(2,3) by (simp_all add: n_def)
  have "blocks_for (7689 * 1024 + 1) = 7690" by (simp add: blocks_for_def)
  moreover have "blocks_for (7689 * 1024 + 1) \<le> blocks_for n"
    unfolding blocks_for_def by (rule div_le_mono) (use assms(2) n(1) in simp)
  ultimately have q: "7690 \<le> blocks_for n" by simp
  then have left: "nat ((int (blocks_for n) - 10) sdiv 256 + 1) = (blocks_for n - 10) div 256 + 1"
    using sdiv_nat_256 [of "blocks_for n - 10"] by (simp add: of_nat_diff nat_add_distrib)
  define ind where "ind = i_ind_blocks (load_inode s (fd s ! nat fdd) (g_stack_inode g))"
  have "30 < (blocks_for n - 10) div 256 + 1" using q div_le_mono [of 7680 "blocks_for n - 10" 256] by simp
  moreover have "length ind = 30" using inode_ok_load [OF assms(1)] by (simp add: inode_ok_def ind_def)
  ultimately have "indirect_loop s tempp fpoff cnt (int (blocks_for n) - 10) ind ib 0 ((blocks_for n - 10) div 256 + 1) r = None" for ib r
    using indirect_loop_limit [of s tempp fpoff cnt "int (blocks_for n) - 10" ind ib 0 "(blocks_for n - 10) div 256 + 1" r]
    by (metis add_0 add_is_0 leD not_None_eq one_neq_zero)
  then show ?thesis
    using q unfolding my_read_def Let_def n(1) ind_def blknum_int [OF n(2,3)] left by (auto split: bind_splits)
qed

text \<open>Up to ten blocks, the first loop copies them all to the start of the buffer.\<close>

lemma short_loop_blocks:
  assumes "disk_ok s"
  shows "r_len r = 0 \<Longrightarrow> \<not> r_flag r \<Longrightarrow> length (r_tmp r) = 1024 \<Longrightarrow> 1024 \<le> length (r_buf r) \<Longrightarrow>
    \<exists>r'. short_loop s 1024 bs r = Some r' \<and> ready r' \<and> r_len r' = 0 \<and> length (r_buf r') = length (r_buf r) \<and>
      drop 1024 (r_buf r') = drop 1024 (r_buf r)"
proof (induction bs arbitrary: r)
  case (Cons b bs)
  define tmp where "tmp = snd (read_block s b (r_tmp r))"
  have tmp: "length tmp = 1024" unfolding tmp_def by (rule length_any_block [OF Cons.prems(3)])
  then have c: "copy_to (r_buf r) 0 tmp 0 1024 = Some (tmp @ drop 1024 (r_buf r))" using Cons.prems(4) by (simp add: copy_to_def)
  define r1 where "r1 = r\<lparr>r_tmp := tmp, r_buf := tmp @ drop 1024 (r_buf r), r_length := wrap32 (r_length r + 1024)\<rparr>"
  have go: "short_loop s 1024 (b # bs) r = short_loop s 1024 bs r1" using Cons.prems(1) c by (simp add: r1_def Let_def flip: tmp_def)
  have "r_len r1 = 0" "\<not> r_flag r1" "length (r_tmp r1) = 1024" "length (r_buf r1) = length (r_buf r)"
    "drop 1024 (r_buf r1) = drop 1024 (r_buf r)"
    using Cons.prems tmp by (simp_all add: r1_def)
  with Cons.IH [of r1] Cons.prems(4) show ?case unfolding go by simp
qed (simp add: ready_def)

text \<open>The first ten blocks: the loop for short reads, when it runs, leaves nothing that the one behind it does not replace.\<close>

lemma read_direct:
  assumes "disk_ok s" "length bs = 10" "\<forall>b \<in> set bs. valid s b" "length (r_tmp r) = 1024" "r_len r = 0" "\<not> r_flag r" "10240 \<le> length (r_buf r)"
  shows "\<exists>r1 r2. (if q \<le> (10 :: int) then short_loop s 1024 (take k bs) r else Some r) = Some r1 \<and> direct_loop s 0 0 bs r1 = Some r2 \<and>
    ready r2 \<and> r_flag r2 \<and> r_len r2 = 10240 \<and> length (r_buf r2) = length (r_buf r) \<and>
    r_buf r2 = concat (map (block_at s) bs) @ drop 10240 (r_buf r)"
proof -
  have "\<exists>r1. (if q \<le> 10 then short_loop s 1024 (take k bs) r else Some r) = Some r1 \<and> ready r1 \<and> r_len r1 = 0 \<and>
      length (r_buf r1) = length (r_buf r) \<and> drop 1024 (r_buf r1) = drop 1024 (r_buf r)"
    using short_loop_blocks [OF assms(1), of r] assms(4-7) by (simp add: ready_def)
  then obtain r1 where r1: "(if q \<le> 10 then short_loop s 1024 (take k bs) r else Some r) = Some r1" "ready r1" "r_len r1 = 0"
    "length (r_buf r1) = length (r_buf r)" "drop 1024 (r_buf r1) = drop 1024 (r_buf r)" by blast
  have len: "length (concat (map (block_at s) bs)) = 10240" using length_contents [OF assms(1,3)] assms(2) by simp
  have "nat (r_len r1) + 1024 * length bs \<le> length (r_buf r1)" "bs \<noteq> []" using r1(3,4) assms(2,7) by auto
  from direct_loop_blocks [OF assms(1) r1(2) assms(3) this] obtain r2
    where r2: "direct_loop s 0 0 bs r1 = Some r2" "appended r1 (concat (map (block_at s) bs)) r2" by blast
  have "ready r2" "r_flag r2" "length (r_buf r2) = length (r_buf r)" "r_len r2 = 10240"
    using appended_ready [OF r1(2) r2(2)] r1(3,4) len assms(7) r2(2) by (simp_all add: appended_def)
  moreover have "drop 10240 (r_buf r1) = drop 9216 (drop 1024 (r_buf r1))" by simp
  then have "drop 10240 (r_buf r1) = drop 10240 (r_buf r)" unfolding r1(5) by simp
  then have "r_buf r2 = concat (map (block_at s) bs) @ drop 10240 (r_buf r)" using r2(2) r1(3) len by (simp add: appended_def)
  ultimately show ?thesis using r1(1) r2(1) by blast
qed

text \<open>
  C24. Reading from the start of a file: for 10240 bytes or more, up to 7689 blocks, with a caller's buffer
  that is large enough and with valid numbers for the blocks the file needs, \<open>my_read\<close> answers the
  number of bytes asked for, and the buffer holds the contents of the direct blocks and then of those
  the indirect blocks list, cut to that number; the rest of it is unchanged. The size of the file
  is not looked at.
\<close>

theorem read_file:
  assumes "disk_ok s" "inode_ok (g_stack_inode g)" "length (fst stack) = 1024" "length (snd stack) = 1024" "0 \<le> fdd" "fdd < 10"
    "10240 \<le> n" "n \<le> 7689 * 1024" "n \<le> length buf"
  defines "this \<equiv> load_inode s (fd s ! nat fdd) (g_stack_inode g)"
  defines "file \<equiv> i_blocks this @ listed s (i_ind_blocks this)"
  assumes "\<forall>b \<in> set (take (blocks_for n) file). valid s b" "\<forall>k. 256 * k + 10 < blocks_for n \<longrightarrow> valid s (i_ind_blocks this ! k)"
  shows "\<exists>fp' len'. my_read g stack 0 len0 0 0 fdd buf (int n) s = Some (int n, contents s n file @ drop n buf, fp', len')"
proof -
  let ?q = "blocks_for n" and ?ind = "i_ind_blocks this"
  have sizes: "length (i_blocks this) = 10" "length ?ind = 30"
    using inode_ok_load [OF assms(2)] by (simp_all add: this_def inode_ok_def)
  have n: "0 < n" "n < 2 ^ 31" using assms(7,8) by simp_all
  have q: "10 \<le> ?q" "?q \<le> 7689"
    using div_le_mono [of "10240 + 1023" "n + 1023" 1024] div_le_mono [of "n + 1023" "7689 * 1024 + 1023" 1024] assms(7,8)
    by (simp_all add: blocks_for_def)
  have rest: "blocks_for (n - 10240) = ?q - 10" using blocks_for_minus [of n 10] by simp
  define r0 where "r0 = \<lparr>r_buf = buf, r_tmp = fst stack, r_len = 0, r_flag = False, r_fp = 0, r_length = len0\<rparr>"
  have v: "\<forall>b \<in> set (i_blocks this). valid s b" using assms(12) q(1) sizes(1) by (simp add: file_def)
  have direct: "contents s n (i_blocks this) = concat (map (block_at s) (i_blocks this))"
    using length_contents [OF assms(1) v] sizes(1) q(1) assms(7) by (simp add: contents_def)
  obtain r1 r2 where r: "(if int ?q \<le> 10 then short_loop s 1024 (take ?q (i_blocks this)) r0 else Some r0) = Some r1"
    "direct_loop s 0 0 (i_blocks this) r1 = Some r2" "ready r2" "r_flag r2" "r_len r2 = 10240" "length (r_buf r2) = length buf"
    "r_buf r2 = concat (map (block_at s) (i_blocks this)) @ drop 10240 buf"
    using read_direct [OF assms(1) sizes(1) v, of r0 "int ?q" ?q] assms(3,7,9) by (auto simp: r0_def)
  have "\<exists>r3. indirect_loop s 0 0 (int n) (int ?q - 10) ?ind (snd stack) 0 ((?q - 10) div 256 + 1) r2 = Some r3 \<and>
      appended r2 (contents s (n - 10240) (listed s (drop 0 ?ind))) r3"
  proof (rule indirect_loop_blocks [OF assms(1) r(3,4)])
    show "int n = r_len r2 + int (n - 10240)" "nat (r_len r2) + (n - 10240) \<le> length (r_buf r2)" using r(5,6) assms(7,9) by simp_all
    show "int ?q - 10 = 256 * int 0 + int (blocks_for (n - 10240))" using rest q(1) by simp
    have "(?q - 10) div 256 \<le> 29" using div_le_mono [of "?q - 10" 7679 256] q(2) by simp
    then show "0 + ((?q - 10) div 256 + 1) \<le> length ?ind" using sizes(2) by simp
    show "\<forall>k. 256 * k < blocks_for (n - 10240) \<longrightarrow> valid s (?ind ! (0 + k))" using assms(13) rest by auto
    show "\<forall>b \<in> set (take (blocks_for (n - 10240)) (listed s (drop 0 ?ind))). valid s b"
      using assms(12) sizes(1) by (simp add: file_def rest)
  qed (simp_all add: rest assms(4))
  then obtain r3 where r3: "indirect_loop s 0 0 (int n) (int ?q - 10) ?ind (snd stack) 0 ((?q - 10) div 256 + 1) r2 = Some r3"
    "appended r2 (contents s (n - 10240) (listed s ?ind)) r3" by auto
  have data: "contents s n file = concat (map (block_at s) (i_blocks this)) @ contents s (n - 10240) (listed s ?ind)"
    using contents_append(1) [OF assms(1), of n "i_blocks this" "listed s ?ind"] assms(12) q(1) sizes(1) direct
    by (simp add: file_def)
  have "?q - 10 \<le> length (listed s ?ind)" using listed_enough [OF assms(1), of "?q - 10" ?ind] assms(13) q sizes(2) by auto
  then have len: "length (contents s (n - 10240) (listed s ?ind)) = n - 10240"
    using length_contents_all [OF assms(1), of "n - 10240" "listed s ?ind"] assms(12) sizes(1) rest by (simp add: file_def)
  have big: "(if int n > 1024 then 1024 else int n) = 1024" using assms(7) by simp
  have "r_len r3 = int n" using r3(2) r(5) len assms(7) by (simp add: appended_def)
  moreover have "r_buf r3 = contents s n file @ drop n buf"
    using r3(2) r(5,7) len length_contents [OF assms(1) v] sizes(1) assms(7) by (simp add: appended_def data)
  moreover have "(if int ?q \<le> 10 then short_loop s (if int n > 1024 then 1024 else int n) (take (nat (int ?q)) (i_blocks this)) r0
      else Some r0) = Some r1" unfolding big nat_int by (rule r(1))
  ultimately show ?thesis
    using r(2) r3(1) assms(5,6) sdiv_nat_256 [of "?q - 10"] q(1)
    unfolding my_read_def Let_def blknum_int [OF n] this_def [symmetric] r0_def [symmetric]
    by (simp add: MAX_OPEN_FILES_def of_nat_diff nat_add_distrib)
qed

text \<open>
  C25. Where \<open>my_read\<close> has no defined behaviour, whatever the caller's buffer and the file: fewer than 10240
  bytes from one of the first 10240 positions, where after the blocks it was asked for it goes on
  with all ten direct blocks and then copies a negative number of bytes; and more than 7689 blocks,
  one less than an inode can name, where it looks for a 31st indirect block.
\<close>

theorem read_undefined:
  assumes "inode_ok (g_stack_inode g)" "length (snd stack) = 1024" "0 \<le> fp"
    "0 \<le> cnt \<and> cnt < 10240 \<and> fp \<le> 10240 \<or> 7689 * 1024 < cnt \<and> cnt < 2 ^ 31"
  shows "my_read g stack fp len0 fp (fp smod 1024) fdd buf cnt s = None"
  using assms short_read [OF assms(1,2,3)] long_read [OF assms(1)] by blast

section \<open>Examples\<close>

definition open_disk :: simdisk where
  "open_disk = zero_disk\<lparr>fd := 1 # replicate 9 (-1)\<rparr>"

definition zero_stack :: "bytes \<times> bytes" where
  "zero_stack = (replicate 1024 0, replicate 1024 0)"

lemma ints_of_zeros: "ints_of n (replicate (4 * n) 0 @ bs) = replicate n 0"
proof (induction n)
  case (Suc n)
  have "replicate (4 * Suc n) (0 :: u8) = 0 # 0 # 0 # 0 # replicate (4 * n) 0" by (simp add: numeral_eq_Suc)
  then show ?case using Suc by (simp add: int_of_bytes_def)
qed (cases bs; simp)

lemma concat_zeros: "concat (replicate k (replicate n 0)) = replicate (n * k) 0"
  by (induction k) (simp_all add: replicate_add)

lemma open_disk_facts:
  "has_table open_disk" "disk_ok open_disk" "fd open_disk ! 0 = 1" "block_at open_disk 0 = replicate 1024 0"
  "inode_at open_disk 1 = replicate 256 0" "valid open_disk 0"
  by (simp_all add: open_disk_def has_table_def disk_ok_def block_at_def inode_at_def read_at_def valid_def) (simp_all add: zero_disk_def)

lemma zero_file:
  "i_blocks (inode_of_bytes (replicate 256 0)) = replicate 10 0" "i_ind_blocks (inode_of_bytes (replicate 256 0)) = replicate 30 0"
  using ints_of_zeros [of 10 "replicate 184 0"] ints_of_zeros [of 30 "replicate 64 0"]
  by (simp_all add: inode_of_bytes_def Let_def flip: replicate_add)

text \<open>Inode 1 of the disk of zeros: a file all of whose blocks are block 0.\<close>

theorem read_file_witness:
  "\<exists>fp' len'. my_read zero_garbage zero_stack 0 0 0 0 0 (replicate 10250 7) 10245 open_disk =
    Some (10245, replicate 10245 0 @ replicate 5 7, fp', len')"
proof -
  let ?ino = "load_inode open_disk (fd open_disk ! nat 0) (g_stack_inode zero_garbage)"
  let ?file = "i_blocks ?ino @ listed open_disk (i_ind_blocks ?ino)"
  have inode: "?ino = inode_of_bytes (replicate 256 0)"
    using load_inode_eq [OF open_disk_facts(1), of 1 "g_stack_inode zero_garbage"] open_disk_facts(3,5) zero_garbage_ok
    by (simp add: garbage_ok_def)
  have e: "entries open_disk 0 = replicate 256 0"
    using ints_of_zeros [of 256 "[]"] by (simp add: entries_def open_disk_facts(4))
  have "listed open_disk (replicate 30 0) = replicate 7680 0"
    using concat_zeros [of 30 256] by (simp add: listed_def e)
  then have blocks: "?file = replicate 7690 0" unfolding inode zero_file by (simp flip: replicate_add)
  have q: "blocks_for 10245 = 11" by (simp add: blocks_for_def)
  have "contents open_disk 10245 ?file = replicate 10245 0"
    unfolding contents_def blocks q using concat_zeros [of 11 1024, where 'a = u8] by (simp add: open_disk_facts(4))
  moreover have "\<exists>fp' len'. my_read zero_garbage zero_stack 0 0 0 0 0 (replicate 10250 7) (int 10245) open_disk =
      Some (int 10245, contents open_disk 10245 ?file @ drop 10245 (replicate 10250 7), fp', len')"
  proof (rule read_file)
    show "\<forall>b \<in> set (take (blocks_for 10245) ?file). valid open_disk b" unfolding blocks by (simp add: open_disk_facts(6))
    show "\<forall>k. 256 * k + 10 < blocks_for 10245 \<longrightarrow> valid open_disk (i_ind_blocks ?ino ! k)"
      unfolding q inode zero_file using open_disk_facts(6) by simp
  qed (use open_disk_facts(2) zero_garbage_ok in \<open>simp_all add: garbage_ok_def zero_stack_def\<close>)
  ultimately show ?thesis by simp
qed

theorem read_undefined_witness:
  "my_read zero_garbage zero_stack 0 0 0 0 0 (replicate 100000 0) 5 open_disk = None"
  using read_undefined [of zero_garbage zero_stack 0 5 0 0 "replicate 100000 0" open_disk] zero_garbage_ok
  by (simp add: garbage_ok_def zero_stack_def signed_modulo_int_def)

end
