(* ===== verification/Chain.thy ===== *)
theory Chain
  imports Prelude
begin

text \<open>
  Singly linked lists in memory, as the kernel's file system switch, device list and heap walk
  them: the search loop, the lists it runs over, and the interface of a registry (add at the
  front, find the first match) that the file system and the device lists provide.
\<close>

section \<open>Walking a list\<close>

text \<open>
  The loop \<open>for (p = head; p != NULL; p = p->next) if (P(p)) break;\<close> and the pointer it leaves.
  On a list that loops back it may not end: \<^term>\<open>None\<close>.
\<close>

partial_function (option) chase :: "(u32 \<Rightarrow> u32) \<Rightarrow> (u32 \<Rightarrow> bool) \<Rightarrow> u32 \<Rightarrow> u32 option" where
  "chase nxt P p =
     (if p = NULL then Some NULL
      else if P p then Some p
      else chase nxt P (nxt p))"

declare chase.simps [code]

text \<open>The list that starts at a pointer and ends with a null pointer.\<close>

fun chain :: "(u32 \<Rightarrow> u32) \<Rightarrow> u32 \<Rightarrow> u32 list \<Rightarrow> bool" where
  "chain nxt p [] \<longleftrightarrow> p = NULL"
| "chain nxt p (a # as) \<longleftrightarrow> p = a \<and> a \<noteq> NULL \<and> chain nxt (nxt a) as"

lemma chain_not_null: "chain nxt p as \<Longrightarrow> a \<in> set as \<Longrightarrow> a \<noteq> NULL"
  by (induction as arbitrary: p) auto

lemma chain_unique: "chain nxt p as \<Longrightarrow> chain nxt p bs \<Longrightarrow> as = bs"
proof (induction as arbitrary: p bs)
  case Nil
  then show ?case by (cases bs) auto
next
  case (Cons a as)
  then show ?case by (cases bs) auto
qed

lemma chain_append: "chain nxt p (as @ b # bs) \<Longrightarrow> chain nxt b (b # bs)"
  by (induction as arbitrary: p) auto

lemma chain_distinct: "chain nxt p as \<Longrightarrow> distinct as"
proof (induction as arbitrary: p)
  case (Cons a as)
  have "a \<notin> set as"
  proof
    assume "a \<in> set as"
    then obtain xs ys where s: "as = xs @ a # ys" by (meson split_list)
    then have "chain nxt a (a # ys)" using Cons.prems chain_append [of nxt "nxt a" xs a ys] by simp
    moreover have "chain nxt a (a # as)" using Cons.prems by simp
    ultimately have "a # ys = a # as" by (rule chain_unique)
    then show False using s by simp
  qed
  then show ?case using Cons by auto
qed simp

lemma chain_cong: "(\<And>a. a \<in> set as \<Longrightarrow> nxt a = nxt' a) \<Longrightarrow> chain nxt p as \<longleftrightarrow> chain nxt' p as"
  by (induction as arbitrary: p) auto

text \<open>The node before a given one, and the list once that node skips it.\<close>

lemma chain_remove: "chain nxt p (ws @ w # d # zs) \<Longrightarrow> chain (nxt(w := nxt d)) p (ws @ w # zs)"
proof (induction ws arbitrary: p)
  case Nil
  then have "w \<notin> set zs" using chain_distinct [OF Nil] by simp
  then have "chain (nxt(w := nxt d)) (nxt d) zs = chain nxt (nxt d) zs" by (intro chain_cong) auto
  then show ?case using Nil by (simp add: fun_upd_def)
next
  case (Cons x ws)
  then have "x \<noteq> w" using chain_distinct [OF Cons.prems] by auto
  then show ?case using Cons by simp
qed

lemma chain_insert:
  assumes "chain nxt p (ys @ a # zs)" "b \<noteq> NULL" "nxt' a = b" "nxt' b = nxt a" "\<And>x. x \<in> set ys \<union> set zs \<Longrightarrow> nxt' x = nxt x"
  shows "chain nxt' p (ys @ a # b # zs)"
  using assms
proof (induction ys arbitrary: p)
  case Nil
  then show ?case using chain_cong [of zs nxt' nxt "nxt a"] by simp
next
  case (Cons y ys)
  then show ?case by simp
qed

text \<open>On a list the search ends at the first match, or at the null pointer.\<close>

definition first_match :: "(u32 \<Rightarrow> bool) \<Rightarrow> u32 list \<Rightarrow> u32" where
  "first_match P as = (case List.find P as of Some a \<Rightarrow> a | None \<Rightarrow> NULL)"

lemma first_match_simps [simp]:
  "first_match P [] = NULL" "first_match P (a # as) = (if P a then a else first_match P as)"
  by (simp_all add: first_match_def)

lemma chase_chain: "chain nxt p as \<Longrightarrow> chase nxt P p = Some (first_match P as)"
  by (induction as arbitrary: p) (simp_all add: chase.simps [of nxt P])

lemma first_match_in: "first_match P as \<noteq> NULL \<Longrightarrow> first_match P as \<in> set as \<and> P (first_match P as)"
  by (induction as) auto

lemma first_match_none: "NULL \<notin> set as \<Longrightarrow> first_match P as = NULL \<longleftrightarrow> (\<forall>a \<in> set as. \<not> P a)"
  by (induction as) auto

lemma first_match_cong: "(\<And>a. a \<in> set as \<Longrightarrow> P a = Q a) \<Longrightarrow> first_match P as = first_match Q as"
  by (induction as) auto

lemma first_match_split: "P m \<Longrightarrow> \<forall>a \<in> set xs. \<not> P a \<Longrightarrow> first_match P (xs @ m # ys) = m"
  by (induction xs) auto

lemma first_match_append: "\<forall>a \<in> set xs. \<not> P a \<Longrightarrow> first_match P (xs @ ys) = first_match P ys"
  by (induction xs) auto

lemma first_match_drop: "\<not> P m \<Longrightarrow> first_match P (xs @ m # ys) = first_match P (xs @ ys)"
  by (induction xs) auto

lemma first_match_pred: "chain nxt p (ws @ w # d # zs) \<Longrightarrow> first_match (\<lambda>a. nxt a = d) (ws @ w # d # zs) = w"
proof (induction ws arbitrary: p)
  case (Cons x ws)
  have "d \<notin> set ws" "w \<noteq> d" using chain_distinct [OF Cons.prems] by auto
  moreover have "nxt x \<in> set (ws @ [w])" using Cons.prems by (cases ws) auto
  ultimately have "nxt x \<noteq> d" by auto
  moreover have "chain nxt (nxt x) (ws @ w # d # zs)" using Cons.prems by simp
  then have "first_match (\<lambda>a. nxt a = d) (ws @ w # d # zs) = w" by (rule Cons.IH)
  ultimately show ?case by (simp only: append_Cons first_match_simps if_False)
qed simp

text \<open>A node that points to itself: the search never ends when it does not match.\<close>

lemma chase_self_loop:
  assumes "p \<noteq> NULL" "nxt p = p" "\<not> P p"
  shows "chase nxt P p = None"
proof (rule ccontr)
  assume "chase nxt P p \<noteq> None"
  then obtain r where r: "chase nxt P p = Some r" by auto
  have "snd ((nxt, P), p) = NULL \<or> snd (fst ((nxt, P), p)) (snd ((nxt, P), p)) \<or>
      fst (fst ((nxt, P), p)) (snd ((nxt, P), p)) \<noteq> snd ((nxt, P), p)"
    by (rule chase.raw_induct [where Pa = "\<lambda>x y. snd x = NULL \<or> snd (fst x) (snd x) \<or> fst (fst x) (snd x) \<noteq> snd x", OF _ r])
      (auto split: if_splits, metis)
  then have "p = NULL \<or> P p \<or> nxt p \<noteq> p" by simp
  with r assms show False by blast
qed

section \<open>The interface of a registry\<close>

text \<open>
  What the list of file system drivers and the list of devices promise their clients: an item that
  may be added (\<open>ok\<close>) is found under its key from then on, and every other key is answered as
  before. The keys of the items do not depend on what is registered.
\<close>

locale registry =
  fixes key :: "'s \<Rightarrow> 'i \<Rightarrow> 'k"
    and addr :: "'s \<Rightarrow> 'i \<Rightarrow> u32"
    and ok :: "'s \<Rightarrow> 'i \<Rightarrow> bool"
    and add :: "'i \<Rightarrow> 's \<Rightarrow> 's"
    and lookup :: "'k \<Rightarrow> 's \<Rightarrow> u32 option"
  assumes lookup_add: "ok s i \<Longrightarrow> lookup k (add i s) = (if key s i = k then Some (addr s i) else lookup k s)"
    and key_add: "ok s i \<Longrightarrow> key (add i s) = key s"
begin

fun adds :: "'i list \<Rightarrow> 's \<Rightarrow> 's" where
  "adds [] s = s"
| "adds (i # is) s = adds is (add i s)"

fun oks :: "'s \<Rightarrow> 'i list \<Rightarrow> bool" where
  "oks s [] \<longleftrightarrow> True"
| "oks s (i # is) \<longleftrightarrow> ok s i \<and> oks (add i s) is"

text \<open>The address of the last item with the key, if there is one.\<close>

fun last_addr :: "'s \<Rightarrow> 'i list \<Rightarrow> 'k \<Rightarrow> u32 option \<Rightarrow> u32 option" where
  "last_addr s [] k r = r"
| "last_addr s (i # is) k r = last_addr (add i s) is k (if key s i = k then Some (addr s i) else r)"

lemma lookup_adds: "oks s is \<Longrightarrow> lookup k (adds is s) = last_addr s is k (lookup k s)"
  by (induction "is" arbitrary: s) (simp_all add: lookup_add)

lemma last_addr_other: "oks s is \<Longrightarrow> \<forall>i \<in> set is. key s i \<noteq> k \<Longrightarrow> last_addr s is k r = r"
  by (induction "is" arbitrary: s r) (simp_all add: key_add)

text \<open>An item stays findable as long as no later item has its key.\<close>

lemma lookup_stays:
  assumes "ok s i" "oks (add i s) is" "\<forall>j \<in> set is. key s j \<noteq> key s i"
  shows "lookup (key s i) (adds (i # is) s) = Some (addr s i)"
proof -
  have "lookup (key s i) (adds is (add i s)) = last_addr (add i s) is (key s i) (lookup (key s i) (add i s))"
    using assms(2) by (rule lookup_adds)
  also have "\<dots> = lookup (key s i) (add i s)"
    using assms by (intro last_addr_other) (simp_all add: key_add)
  finally show ?thesis using assms(1) by (simp add: lookup_add)
qed

end

end
