(* ===== verification/Vfs.thy ===== *)
theory Vfs
  imports Chain "HOL-Library.Monad_Syntax"
begin

text \<open>
  The virtual file system switch: MimicOS/src/kernel/fs/vfs.c with the structures of
  MimicOS/include/kernel/fs/vfs.h (and the device entries of dfs.h, which share its state). The
  kernel's objects are typed stores from addresses to structures; a \<open>char *\<close> of the caller is a
  string, one kept in a structure is the address of a string in a store. A file system driver is
  reached through the function pointers of its call table; what the code behind a pointer does
  is the argument \<open>D\<close> of the operations. \<^term>\<open>None\<close> is undefined behaviour (a null pointer
  followed, a buffer overrun) or a loop that does not end.
\<close>

section \<open>Structures\<close>

definition VFS_MAXFILENAME :: nat where "VFS_MAXFILENAME = 256"
definition VFS_FILE :: int where "VFS_FILE = 0"
definition VFS_DIRECTORY :: int where "VFS_DIRECTORY = 1"
definition VFS_DEVICE :: int where "VFS_DEVICE = 2"
definition VFS_SEEK_START :: u8 where "VFS_SEEK_START = 0"
definition VFS_SEEK_CURRENT :: u8 where "VFS_SEEK_CURRENT = 1"
definition VFS_SEEK_END :: u8 where "VFS_SEEK_END = 2"
definition VFS_MODE_READ :: u32 where "VFS_MODE_READ = 1"
definition VFS_MODE_WRITE :: u32 where "VFS_MODE_WRITE = 2"
definition VFS_MODE_READWRITE :: u32 where "VFS_MODE_READWRITE = (VFS_MODE_READ OR VFS_MODE_WRITE)"
definition VFS_MODE_CREATE :: u32 where "VFS_MODE_CREATE = 4"
definition VFS_MODE_TRUNCATE :: u32 where "VFS_MODE_TRUNCATE = 8"
definition VFS_MODE_APPEND :: u32 where "VFS_MODE_APPEND = 9"
definition VFS_NAMESIZE :: nat where "VFS_NAMESIZE = 32"

lemmas vfs_modes = VFS_MODE_READ_def VFS_MODE_WRITE_def VFS_MODE_READWRITE_def VFS_MODE_CREATE_def
  VFS_MODE_TRUNCATE_def VFS_MODE_APPEND_def

record vfs_handle =
  h_mount :: u32
  h_data_ptr :: u32
  h_mode :: u32

record vfs_calltable =
  ct_open :: u32
  ct_close :: u32
  ct_clone :: u32
  ct_read :: u32
  ct_write :: u32
  ct_seek :: u32
  ct_control :: u32
  ct_create :: u32
  ct_delete :: u32
  ct_rename :: u32
  ct_copy :: u32
  ct_list :: u32
  ct_mount :: u32
  ct_unmount :: u32

record vfs_filesystem =
  fs_type :: int
  fs_calltable :: vfs_calltable
  fs_prev :: u32

record vfs_mountpoint =
  mp_fs :: u32
  mp_data_ptr :: u32
  mp_mountpoint :: u32
  mp_device :: u32
  mp_next :: u32

record vfs_dirlist_entry =
  de_name :: string
  de_attributes :: int
  de_size :: int

record dfs_entry =
  dev_prev :: u32
  dev_calltable :: u32
  dev_name :: u32
  dev_type :: int

text \<open>
  The state: the stores (\<open>io_heap\<close> holds the call tables of the devices, seven function pointers each,
  \<open>dirlist_heap\<close> the directory listings), the heads of the lists, and the memory the kernel heap hands out: \<open>pool\<close>
  holds the addresses the next calls of \<open>mm_kmalloc\<close> answer, \<open>sizes\<close> the bytes each block has
  room for, \<open>freed\<close> the blocks given back. \<open>world\<close> is the state of everything behind the drivers.
\<close>

record 'w vfs =
  fs_heap :: "u32 \<Rightarrow> vfs_filesystem"
  mp_heap :: "u32 \<Rightarrow> vfs_mountpoint"
  handle_heap :: "u32 \<Rightarrow> vfs_handle"
  dev_heap :: "u32 \<Rightarrow> dfs_entry"
  str_heap :: "u32 \<Rightarrow> string"
  io_heap :: "u32 \<Rightarrow> u32 list"
  dirlist_heap :: "u32 \<Rightarrow> vfs_dirlist_entry list"
  vfs_fsHead :: u32
  vfs_mpHead :: u32
  vfs_mpTail :: u32
  dfs_deviceHead :: u32
  pool :: "u32 list"
  sizes :: "u32 \<Rightarrow> nat"
  freed :: "u32 list"
  world :: 'w

definition set_fs :: "u32 \<Rightarrow> (vfs_filesystem \<Rightarrow> vfs_filesystem) \<Rightarrow> 'w vfs \<Rightarrow> 'w vfs" where
  "set_fs a F s = s\<lparr>fs_heap := (fs_heap s)(a := F (fs_heap s a))\<rparr>"

definition set_mp :: "u32 \<Rightarrow> (vfs_mountpoint \<Rightarrow> vfs_mountpoint) \<Rightarrow> 'w vfs \<Rightarrow> 'w vfs" where
  "set_mp a F s = s\<lparr>mp_heap := (mp_heap s)(a := F (mp_heap s a))\<rparr>"

definition set_handle :: "u32 \<Rightarrow> (vfs_handle \<Rightarrow> vfs_handle) \<Rightarrow> 'w vfs \<Rightarrow> 'w vfs" where
  "set_handle a F s = s\<lparr>handle_heap := (handle_heap s)(a := F (handle_heap s a))\<rparr>"

definition set_dev :: "u32 \<Rightarrow> (dfs_entry \<Rightarrow> dfs_entry) \<Rightarrow> 'w vfs \<Rightarrow> 'w vfs" where
  "set_dev a F s = s\<lparr>dev_heap := (dev_heap s)(a := F (dev_heap s a))\<rparr>"

text \<open>
  \<open>mm_kmalloc\<close> rounds the size up to a multiple of eight and answers NULL for no bytes or when
  there is no memory; \<open>mm_kfree\<close> ignores NULL.
\<close>

definition kmalloc :: "nat \<Rightarrow> 'w vfs \<Rightarrow> u32 \<times> 'w vfs" where
  "kmalloc n s =
     (if n = 0 then (NULL, s)
      else case pool s of
        [] \<Rightarrow> (NULL, s)
      | a # as \<Rightarrow> (a, s\<lparr>pool := as, sizes := (sizes s)(a := (n + 7) div 8 * 8)\<rparr>))"

definition kfree :: "u32 \<Rightarrow> 'w vfs \<Rightarrow> 'w vfs" where
  "kfree a s = (if a = NULL then s else s\<lparr>freed := a # freed s\<rparr>)"

definition strcpy :: "u32 \<Rightarrow> string \<Rightarrow> 'w vfs \<Rightarrow> 'w vfs option" where
  "strcpy a t s = (if a = NULL \<or> sizes s a < length t + 1 then None else Some (s\<lparr>str_heap := (str_heap s)(a := t)\<rparr>))"

section \<open>Drivers\<close>

text \<open>
  What the code behind a function pointer does. \<open>open\<close> and \<open>create\<close> may modify the file name in the
  caller's buffer and also answer what it holds afterwards.
\<close>

record 'w drivers =
  call_open :: "u32 \<Rightarrow> u32 \<Rightarrow> string \<Rightarrow> 'w vfs \<Rightarrow> (u32 \<times> string \<times> 'w vfs) option"
  call_close :: "u32 \<Rightarrow> u32 \<Rightarrow> 'w vfs \<Rightarrow> (int \<times> 'w vfs) option"
  call_clone :: "u32 \<Rightarrow> u32 \<Rightarrow> u32 \<Rightarrow> 'w vfs \<Rightarrow> (int \<times> 'w vfs) option"
  call_read :: "u32 \<Rightarrow> u32 \<Rightarrow> u32 \<Rightarrow> u32 \<Rightarrow> 'w vfs \<Rightarrow> (int \<times> 'w vfs) option"
  call_write :: "u32 \<Rightarrow> u32 \<Rightarrow> u32 \<Rightarrow> u32 \<Rightarrow> 'w vfs \<Rightarrow> (int \<times> 'w vfs) option"
  call_seek :: "u32 \<Rightarrow> u32 \<Rightarrow> u32 \<Rightarrow> u8 \<Rightarrow> 'w vfs \<Rightarrow> (int \<times> 'w vfs) option"
  call_control :: "u32 \<Rightarrow> u32 \<Rightarrow> u32 \<Rightarrow> u32 \<Rightarrow> 'w vfs \<Rightarrow> (int \<times> 'w vfs) option"
  call_create :: "u32 \<Rightarrow> u32 \<Rightarrow> string \<Rightarrow> 'w vfs \<Rightarrow> (int \<times> string \<times> 'w vfs) option"
  call_delete :: "u32 \<Rightarrow> u32 \<Rightarrow> string \<Rightarrow> 'w vfs \<Rightarrow> (int \<times> 'w vfs) option"
  call_rename :: "u32 \<Rightarrow> u32 \<Rightarrow> string \<Rightarrow> string \<Rightarrow> 'w vfs \<Rightarrow> (int \<times> 'w vfs) option"
  call_copy :: "u32 \<Rightarrow> u32 \<Rightarrow> string \<Rightarrow> string \<Rightarrow> 'w vfs \<Rightarrow> (int \<times> 'w vfs) option"
  call_list :: "u32 \<Rightarrow> u32 \<Rightarrow> string \<Rightarrow> 'w vfs \<Rightarrow> (u32 \<times> 'w vfs) option"
  call_mount :: "u32 \<Rightarrow> string \<Rightarrow> string \<Rightarrow> int \<Rightarrow> 'w vfs \<Rightarrow> (u32 \<times> 'w vfs) option"
  call_unmount :: "u32 \<Rightarrow> u32 \<Rightarrow> string \<Rightarrow> 'w vfs \<Rightarrow> (int \<times> 'w vfs) option"

text \<open>The call table of the file system behind a mount point, and behind a handle.\<close>

definition mount_calls :: "'w vfs \<Rightarrow> u32 \<Rightarrow> vfs_calltable" where
  "mount_calls s mount = fs_calltable (fs_heap s (mp_fs (mp_heap s mount)))"

definition handle_calls :: "'w vfs \<Rightarrow> u32 \<Rightarrow> vfs_calltable" where
  "handle_calls s handle = mount_calls s (h_mount (handle_heap s handle))"

section \<open>File systems and mount points\<close>

definition vfs_register :: "u32 \<Rightarrow> 'w vfs \<Rightarrow> int \<times> 'w vfs" where
  "vfs_register fs s =
     (let s = set_fs fs (\<lambda>x. x\<lparr>fs_prev := vfs_fsHead s\<rparr>) s in (SUCCESS, s\<lparr>vfs_fsHead := fs\<rparr>))"

definition vfs_unregister :: "int \<Rightarrow> int" where
  "vfs_unregister fstype = FAIL"

definition vfs_find :: "int \<Rightarrow> 'w vfs \<Rightarrow> u32 option" where
  "vfs_find fstype s = chase (\<lambda>a. fs_prev (fs_heap s a)) (\<lambda>a. fs_type (fs_heap s a) = fstype) (vfs_fsHead s)"

text \<open>A new mount point goes behind the last one; its own \<open>next\<close> is not set.\<close>

definition link_mount :: "u32 \<Rightarrow> 'w vfs \<Rightarrow> 'w vfs" where
  "link_mount mount s =
     (let s = (if vfs_mpTail s = NULL then s\<lparr>vfs_mpTail := mount\<rparr>
               else set_mp (vfs_mpHead s) (\<lambda>m. m\<lparr>mp_next := mount\<rparr>) s)
      in s\<lparr>vfs_mpHead := mount\<rparr>)"

definition vfs_mount :: "'w drivers \<Rightarrow> string option \<Rightarrow> string \<Rightarrow> int \<Rightarrow> 'w vfs \<Rightarrow> (int \<times> 'w vfs) option" where
  "vfs_mount D device mountpoint fstype s =
     (let (mount, s) = kmalloc 20 s in
      if mount = NULL then Some (FAIL, s)
      else do {
        fs \<leftarrow> vfs_find fstype s;
        let s = set_mp mount (\<lambda>m. m\<lparr>mp_fs := fs\<rparr>) s;
        if fs = NULL then Some (FAIL, kfree mount s)
        else do {
          let (a, s) = kmalloc (length mountpoint + 1) s;
          let s = set_mp mount (\<lambda>m. m\<lparr>mp_mountpoint := a\<rparr>) s;
          s \<leftarrow> strcpy a mountpoint s;
          dev \<leftarrow> device;
          let (d, s) = kmalloc (length dev + 1) s;
          let s = set_mp mount (\<lambda>m. m\<lparr>mp_device := d\<rparr>) s;
          s \<leftarrow> strcpy d dev s;
          let s = link_mount mount s;
          let code = ct_mount (mount_calls s mount);
          if code = NULL then Some (FAIL, kfree mount s)
          else do {
            (r, s) \<leftarrow> call_mount D code dev mountpoint fstype s;
            let s = set_mp mount (\<lambda>m. m\<lparr>mp_data_ptr := r\<rparr>) s;
            if r = NULL then Some (FAIL, kfree mount s) else Some (SUCCESS, s)
          }
        }
      })"

text \<open>
  The removal. The test of the loop that looks for the predecessor is an assignment, so the loop
  ends at its first node, whose \<open>next\<close> has been overwritten.
\<close>

definition unlink_mount :: "u32 \<Rightarrow> 'w vfs \<Rightarrow> 'w vfs option" where
  "unlink_mount mount s =
     (if mount = vfs_mpTail s then Some (s\<lparr>vfs_mpTail := mp_next (mp_heap s mount)\<rparr>)
      else if vfs_mpTail s = NULL then None
      else (let m = vfs_mpTail s;
                s = set_mp m (\<lambda>x. x\<lparr>mp_next := mount\<rparr>) s
            in Some (set_mp m (\<lambda>x. x\<lparr>mp_next := mp_next (mp_heap s mount)\<rparr>) s)))"

definition vfs_unmount :: "'w drivers \<Rightarrow> string \<Rightarrow> 'w vfs \<Rightarrow> (int \<times> 'w vfs) option" where
  "vfs_unmount D mountpoint s =
     (if VFS_MAXFILENAME \<le> length mountpoint then None
      else do {
        mount \<leftarrow> chase (\<lambda>a. mp_next (mp_heap s a)) (\<lambda>a. str_heap s (mp_mountpoint (mp_heap s a)) = mountpoint)
          (vfs_mpTail s);
        if mount = NULL then Some (FAIL, s)
        else if ct_unmount (mount_calls s mount) = NULL then Some (FAIL, s)
        else do {
          (_, s) \<leftarrow> call_unmount D (ct_unmount (mount_calls s mount)) mount mountpoint s;
          s \<leftarrow> unlink_mount mount s;
          let s = kfree (mp_mountpoint (mp_heap s mount)) s;
          let s = kfree (mp_device (mp_heap s mount)) s;
          Some (SUCCESS, kfree mount s)
        }
      })"

definition vfs_file2mountpoint :: "string \<Rightarrow> 'w vfs \<Rightarrow> u32 option" where
  "vfs_file2mountpoint filename s =
     chase (\<lambda>a. mp_next (mp_heap s a))
       (\<lambda>a. take (length (str_heap s (mp_mountpoint (mp_heap s a)))) filename = str_heap s (mp_mountpoint (mp_heap s a)))
       (vfs_mpTail s)"

text \<open>
  The prologue of the operations on names: the copy into a buffer of 256 bytes on the stack, the
  mount point, and the name behind it.
\<close>

definition behind_mount :: "'w vfs \<Rightarrow> u32 \<Rightarrow> string \<Rightarrow> string" where
  "behind_mount s mount name = drop (length (str_heap s (mp_mountpoint (mp_heap s mount)))) name"

definition resolve_name :: "string \<Rightarrow> 'w vfs \<Rightarrow> u32 option" where
  "resolve_name filename s =
     (if VFS_MAXFILENAME \<le> length filename then None else vfs_file2mountpoint filename s)"

section \<open>Files\<close>

definition vfs_seek :: "'w drivers \<Rightarrow> u32 \<Rightarrow> u32 \<Rightarrow> u8 \<Rightarrow> 'w vfs \<Rightarrow> (int \<times> 'w vfs) option" where
  "vfs_seek D handle offset origin s =
     (if handle = NULL then Some (FAIL, s)
      else if ct_seek (handle_calls s handle) \<noteq> NULL
      then call_seek D (ct_seek (handle_calls s handle)) handle offset origin s
      else Some (FAIL, s))"

definition has_mode :: "'w vfs \<Rightarrow> u32 \<Rightarrow> u32 \<Rightarrow> bool" where
  "has_mode s handle mode \<longleftrightarrow> h_mode (handle_heap s handle) AND mode = mode"

definition seek_if_append :: "'w drivers \<Rightarrow> u32 \<Rightarrow> 'w vfs \<Rightarrow> 'w vfs option" where
  "seek_if_append D handle s =
     (if has_mode s handle VFS_MODE_APPEND
      then map_option snd (vfs_seek D handle 0 VFS_SEEK_END s) else Some s)"

text \<open>
  \<open>vfs_open\<close>, from the new handle on: try to open, and when that fails and the mode says so, create
  the file and try again. The second attempt gets the name as \<open>create\<close> left it in the buffer.
\<close>

definition open_handle :: "'w drivers \<Rightarrow> u32 \<Rightarrow> u32 \<Rightarrow> string \<Rightarrow> 'w vfs \<Rightarrow> (u32 \<times> 'w vfs) option" where
  "open_handle D mount handle filename s = do {
     (r, _, s) \<leftarrow> call_open D (ct_open (mount_calls s mount)) handle (behind_mount s mount filename) s;
     if r \<noteq> NULL then do { s \<leftarrow> seek_if_append D handle s; Some (handle, s) }
     else if has_mode s handle VFS_MODE_CREATE \<and> ct_create (mount_calls s mount) \<noteq> NULL then do {
       (r, name, s) \<leftarrow> call_create D (ct_create (mount_calls s mount)) mount (behind_mount s mount filename) s;
       if r \<noteq> FAIL then do {
         (r, _, s) \<leftarrow> call_open D (ct_open (mount_calls s mount)) handle name s;
         if r \<noteq> NULL then do { s \<leftarrow> seek_if_append D handle s; Some (handle, s) }
         else Some (NULL, kfree handle s)
       }
       else Some (NULL, kfree handle s)
     }
     else Some (NULL, kfree handle s)
   }"

definition vfs_open :: "'w drivers \<Rightarrow> string \<Rightarrow> u32 \<Rightarrow> 'w vfs \<Rightarrow> (u32 \<times> 'w vfs) option" where
  "vfs_open D filename mode s = do {
     mount \<leftarrow> resolve_name filename s;
     if mount = NULL then Some (NULL, s)
     else if ct_open (mount_calls s mount) = NULL then Some (NULL, s)
     else do {
       let (handle, s) = kmalloc 12 s;
       if handle = NULL then None
       else open_handle D mount handle filename
         (set_handle handle (\<lambda>h. h\<lparr>h_mount := mount, h_mode := mode\<rparr>) s)
     }
   }"

definition vfs_close :: "'w drivers \<Rightarrow> u32 \<Rightarrow> 'w vfs \<Rightarrow> (int \<times> 'w vfs) option" where
  "vfs_close D handle s =
     (if handle = NULL then Some (FAIL, s)
      else if ct_close (handle_calls s handle) \<noteq> NULL
      then do {
        (ret, s) \<leftarrow> call_close D (ct_close (handle_calls s handle)) handle s;
        Some (ret, kfree handle s)
      }
      else Some (FAIL, s))"

definition vfs_clone :: "'w drivers \<Rightarrow> u32 \<Rightarrow> 'w vfs \<Rightarrow> (u32 \<times> 'w vfs) option" where
  "vfs_clone D handle s =
     (if handle = NULL then Some (NULL, s)
      else if ct_clone (handle_calls s handle) \<noteq> NULL
      then do {
        let (clone, s) = kmalloc 12 s;
        if clone = NULL then None
        else do {
          let s = set_handle clone (\<lambda>h. h\<lparr>h_mount := h_mount (handle_heap s handle),
                                          h_mode := h_mode (handle_heap s handle)\<rparr>) s;
          (r, s) \<leftarrow> call_clone D (ct_clone (handle_calls s handle)) handle clone s;
          if r = FAIL then Some (NULL, kfree clone s) else Some (clone, s)
        }
      }
      else Some (NULL, s))"

definition vfs_read :: "'w drivers \<Rightarrow> u32 \<Rightarrow> u32 \<Rightarrow> u32 \<Rightarrow> 'w vfs \<Rightarrow> (int \<times> 'w vfs) option" where
  "vfs_read D handle buffer n s =
     (if handle = NULL then Some (FAIL, s)
      else if \<not> has_mode s handle VFS_MODE_READ then Some (FAIL, s)
      else if ct_read (handle_calls s handle) \<noteq> NULL
      then call_read D (ct_read (handle_calls s handle)) handle buffer n s
      else Some (FAIL, s))"

definition vfs_write :: "'w drivers \<Rightarrow> u32 \<Rightarrow> u32 \<Rightarrow> u32 \<Rightarrow> 'w vfs \<Rightarrow> (int \<times> 'w vfs) option" where
  "vfs_write D handle buffer n s =
     (if handle = NULL then Some (FAIL, s)
      else if \<not> has_mode s handle VFS_MODE_WRITE then Some (FAIL, s)
      else if ct_write (handle_calls s handle) \<noteq> NULL
      then do {
        (ret, s) \<leftarrow> call_write D (ct_write (handle_calls s handle)) handle buffer n s;
        if ret \<noteq> FAIL then do { s \<leftarrow> seek_if_append D handle s; Some (ret, s) }
        else Some (FAIL, s)
      }
      else Some (FAIL, s))"

definition vfs_control :: "'w drivers \<Rightarrow> u32 \<Rightarrow> u32 \<Rightarrow> u32 \<Rightarrow> 'w vfs \<Rightarrow> (int \<times> 'w vfs) option" where
  "vfs_control D handle request arg s =
     (if handle = NULL then Some (FAIL, s)
      else if ct_control (handle_calls s handle) \<noteq> NULL
      then do {
        (_, s) \<leftarrow> call_control D (ct_control (handle_calls s handle)) handle request arg s;
        Some (FAIL, s)
      }
      else Some (FAIL, s))"

section \<open>Names\<close>

definition vfs_create :: "'w drivers \<Rightarrow> string \<Rightarrow> 'w vfs \<Rightarrow> (int \<times> 'w vfs) option" where
  "vfs_create D filename s = do {
     mount \<leftarrow> resolve_name filename s;
     if mount = NULL then Some (FAIL, s)
     else if ct_create (mount_calls s mount) \<noteq> NULL
     then map_option (\<lambda>(r, _, s). (r, s))
       (call_create D (ct_create (mount_calls s mount)) mount (behind_mount s mount filename) s)
     else Some (FAIL, s)
   }"

definition vfs_delete :: "'w drivers \<Rightarrow> string \<Rightarrow> 'w vfs \<Rightarrow> (int \<times> 'w vfs) option" where
  "vfs_delete D filename s = do {
     mount \<leftarrow> resolve_name filename s;
     if mount = NULL then Some (FAIL, s)
     else if ct_delete (mount_calls s mount) \<noteq> NULL
     then call_delete D (ct_delete (mount_calls s mount)) mount (behind_mount s mount filename) s
     else Some (FAIL, s)
   }"

text \<open>
  The destination is advanced by the length of the source's mount point, whatever it starts with;
  past its end when it is shorter, which is undefined.
\<close>

definition vfs_rename :: "'w drivers \<Rightarrow> string \<Rightarrow> string \<Rightarrow> 'w vfs \<Rightarrow> (int \<times> 'w vfs) option" where
  "vfs_rename D src dst s =
     (if VFS_MAXFILENAME \<le> length src \<or> VFS_MAXFILENAME \<le> length dst then None
      else do {
        mount \<leftarrow> vfs_file2mountpoint src s;
        if mount = NULL then Some (FAIL, s)
        else if ct_rename (mount_calls s mount) \<noteq> NULL
        then (if length dst < length (str_heap s (mp_mountpoint (mp_heap s mount))) then None
              else call_rename D (ct_rename (mount_calls s mount)) mount (behind_mount s mount src)
                     (behind_mount s mount dst) s)
        else Some (FAIL, s)
      })"

text \<open>
  \<open>vfs_copy\<close> copies the names over its own parameters (\<open>&src\<close> and \<open>&dst\<close>, four bytes each) instead
  of the two buffers it declares; more than three characters overwrite the stack behind them.
\<close>

definition vfs_copy :: "'w drivers \<Rightarrow> string \<Rightarrow> string \<Rightarrow> 'w vfs \<Rightarrow> (int \<times> 'w vfs) option" where
  "vfs_copy D src dst s =
     (if 4 < length src + 1 \<or> 4 < length dst + 1 then None
      else do {
        mount \<leftarrow> vfs_file2mountpoint src s;
        if mount = NULL then Some (FAIL, s)
        else if ct_copy (mount_calls s mount) \<noteq> NULL
        then (if length dst < length (str_heap s (mp_mountpoint (mp_heap s mount))) then None
              else call_copy D (ct_copy (mount_calls s mount)) mount (behind_mount s mount src)
                     (behind_mount s mount dst) s)
        else Some (FAIL, s)
      })"

definition vfs_list :: "'w drivers \<Rightarrow> string \<Rightarrow> 'w vfs \<Rightarrow> (u32 \<times> 'w vfs) option" where
  "vfs_list D dir s =
     (if VFS_MAXFILENAME \<le> length dir \<or> dir = [] then None
      else if last dir \<noteq> CHR ''/'' then Some (NULL, s)
      else do {
        mount \<leftarrow> vfs_file2mountpoint dir s;
        if mount = NULL then Some (NULL, s)
        else if ct_list (mount_calls s mount) \<noteq> NULL
        then call_list D (ct_list (mount_calls s mount)) mount (behind_mount s mount dir) s
        else Some (NULL, s)
      })"

end
