(* ===== verification/Dfs.thy ===== *)
theory Dfs
  imports Vfs
begin

text \<open>
  The device file system: MimicOS/src/kernel/fs/dfs.c with MimicOS/include/kernel/fs/dfs.h, and
  \<open>vfs_init\<close> of vfs.c, which starts it. The devices are a linked list, newest first. The I/O
  subsystem behind a device (io.h; its source is not in the repository) is the argument \<open>io\<close>.
\<close>

section \<open>The I/O subsystem\<close>

text \<open>\<open>io_clone\<close> also sets the clone's data pointer: it is given the old one and answers the new one.\<close>

record 'w io =
  io_open :: "u32 \<Rightarrow> 'w vfs \<Rightarrow> (u32 \<times> 'w vfs) option"
  io_close :: "u32 \<Rightarrow> 'w vfs \<Rightarrow> (int \<times> 'w vfs) option"
  io_clone :: "u32 \<Rightarrow> u32 \<Rightarrow> 'w vfs \<Rightarrow> (int \<times> u32 \<times> 'w vfs) option"
  io_read :: "u32 \<Rightarrow> u32 \<Rightarrow> u32 \<Rightarrow> 'w vfs \<Rightarrow> (int \<times> 'w vfs) option"
  io_write :: "u32 \<Rightarrow> u32 \<Rightarrow> u32 \<Rightarrow> 'w vfs \<Rightarrow> (int \<times> 'w vfs) option"
  io_seek :: "u32 \<Rightarrow> u32 \<Rightarrow> u8 \<Rightarrow> 'w vfs \<Rightarrow> (int \<times> 'w vfs) option"
  io_control :: "u32 \<Rightarrow> u32 \<Rightarrow> u32 \<Rightarrow> 'w vfs \<Rightarrow> (int \<times> 'w vfs) option"

section \<open>The list of devices\<close>

definition DFS_TYPE :: int where "DFS_TYPE = 2"

text \<open>The name and the call table are pointers that the device keeps, not copies.\<close>

definition dfs_add :: "u32 \<Rightarrow> u32 \<Rightarrow> int \<Rightarrow> 'w vfs \<Rightarrow> (u32 \<times> 'w vfs) option" where
  "dfs_add name calltable type s =
     (let (device, s) = kmalloc 16 s in
      if device = NULL then None
      else (let s = set_dev device (\<lambda>d. d\<lparr>dev_prev := dfs_deviceHead s\<rparr>) s;
                s = s\<lparr>dfs_deviceHead := device\<rparr>
            in Some (device, set_dev device (\<lambda>d. d\<lparr>dev_calltable := calltable, dev_name := name, dev_type := type\<rparr>) s)))"

definition dfs_find :: "string \<Rightarrow> 'w vfs \<Rightarrow> u32 option" where
  "dfs_find name s =
     chase (\<lambda>a. dev_prev (dev_heap s a)) (\<lambda>a. str_heap s (dev_name (dev_heap s a)) = name) (dfs_deviceHead s)"

definition dfs_unlink :: "u32 \<Rightarrow> 'w vfs \<Rightarrow> 'w vfs option" where
  "dfs_unlink device s =
     (if device = dfs_deviceHead s then Some (s\<lparr>dfs_deviceHead := dev_prev (dev_heap s device)\<rparr>)
      else do {
        d \<leftarrow> chase (\<lambda>a. dev_prev (dev_heap s a)) (\<lambda>a. dev_prev (dev_heap s a) = device) (dfs_deviceHead s);
        Some (if d = NULL then s else set_dev d (\<lambda>x. x\<lparr>dev_prev := dev_prev (dev_heap s device)\<rparr>) s)
      })"

definition dfs_remove :: "string \<Rightarrow> 'w vfs \<Rightarrow> (int \<times> 'w vfs) option" where
  "dfs_remove name s = do {
     device \<leftarrow> dfs_find name s;
     if device = NULL then Some (FAIL, s)
     else do {
       s \<leftarrow> dfs_unlink device s;
       let s = kfree (dev_calltable (dev_heap s device)) s;
       let s = kfree (dev_name (dev_heap s device)) s;
       Some (SUCCESS, kfree device s)
     }
   }"

section \<open>The driver's operations\<close>

definition dfs_mount :: "int \<Rightarrow> u32" where
  "dfs_mount fstype = (if fstype = DFS_TYPE then 1 else NULL)"

definition dfs_unmount :: int where
  "dfs_unmount = FAIL"

definition dfs_open :: "'w io \<Rightarrow> u32 \<Rightarrow> string \<Rightarrow> 'w vfs \<Rightarrow> (u32 \<times> 'w vfs) option" where
  "dfs_open io handle filename s = do {
     device \<leftarrow> dfs_find filename s;
     if device = NULL then Some (NULL, s)
     else do {
       (p, s) \<leftarrow> io_open io device s;
       let s = set_handle handle (\<lambda>h. h\<lparr>h_data_ptr := p\<rparr>) s;
       if p = NULL then Some (NULL, s) else Some (handle, s)
     }
   }"

definition dfs_close :: "'w io \<Rightarrow> u32 \<Rightarrow> 'w vfs \<Rightarrow> (int \<times> 'w vfs) option" where
  "dfs_close io handle s = io_close io (h_data_ptr (handle_heap s handle)) s"

definition dfs_clone :: "'w io \<Rightarrow> u32 \<Rightarrow> u32 \<Rightarrow> 'w vfs \<Rightarrow> (int \<times> 'w vfs) option" where
  "dfs_clone io handle clone s = do {
     (r, p, s) \<leftarrow> io_clone io (h_data_ptr (handle_heap s handle)) (h_data_ptr (handle_heap s clone)) s;
     Some (r, set_handle clone (\<lambda>h. h\<lparr>h_data_ptr := p\<rparr>) s)
   }"

definition dfs_read :: "'w io \<Rightarrow> u32 \<Rightarrow> u32 \<Rightarrow> u32 \<Rightarrow> 'w vfs \<Rightarrow> (int \<times> 'w vfs) option" where
  "dfs_read io handle buffer n s = io_read io (h_data_ptr (handle_heap s handle)) buffer n s"

definition dfs_write :: "'w io \<Rightarrow> u32 \<Rightarrow> u32 \<Rightarrow> u32 \<Rightarrow> 'w vfs \<Rightarrow> (int \<times> 'w vfs) option" where
  "dfs_write io handle buffer n s = io_write io (h_data_ptr (handle_heap s handle)) buffer n s"

definition dfs_seek :: "'w io \<Rightarrow> u32 \<Rightarrow> u32 \<Rightarrow> u8 \<Rightarrow> 'w vfs \<Rightarrow> (int \<times> 'w vfs) option" where
  "dfs_seek io handle offset origin s = io_seek io (h_data_ptr (handle_heap s handle)) offset origin s"

definition dfs_control :: "'w io \<Rightarrow> u32 \<Rightarrow> u32 \<Rightarrow> u32 \<Rightarrow> 'w vfs \<Rightarrow> (int \<times> 'w vfs) option" where
  "dfs_control io handle request arg s = io_control io (h_data_ptr (handle_heap s handle)) request arg s"

definition dfs_create :: int where
  "dfs_create = FAIL"

definition dfs_delete :: "string \<Rightarrow> 'w vfs \<Rightarrow> (int \<times> 'w vfs) option" where
  "dfs_delete filename s = dfs_remove filename s"

text \<open>
  \<open>dfs_copy\<close> asks for one byte less than the name and its null byte take, and ends without a
  \<open>return\<close>: its answer is whatever the result register holds, the argument \<open>eax\<close>.
\<close>

definition dfs_copy :: "int \<Rightarrow> string \<Rightarrow> string \<Rightarrow> 'w vfs \<Rightarrow> (int \<times> 'w vfs) option" where
  "dfs_copy eax src dst s = do {
     device \<leftarrow> dfs_find src s;
     if device = NULL then Some (FAIL, s)
     else do {
       let (calltable, s) = kmalloc 28 s;
       if calltable = NULL then None
       else do {
         let s = s\<lparr>io_heap := (io_heap s)(calltable := io_heap s (dev_calltable (dev_heap s device)))\<rparr>;
         let (name, s) = kmalloc (length dst) s;
         s \<leftarrow> strcpy name dst s;
         (_, s) \<leftarrow> dfs_add name calltable (dev_type (dev_heap s device)) s;
         Some (eax, s)
       }
     }
   }"

definition dfs_rename :: "int \<Rightarrow> string \<Rightarrow> string \<Rightarrow> 'w vfs \<Rightarrow> (int \<times> 'w vfs) option" where
  "dfs_rename eax src dst s = do {
     (r, s) \<leftarrow> dfs_copy eax src dst s;
     if r = FAIL then Some (FAIL, s) else dfs_delete src s
   }"

text \<open>
  \<open>dfs_list\<close>: the number of devices, then an array of 32 entries with the two dot entries and one
  entry per device. Nothing compares the number of devices with the size of the array.
\<close>

partial_function (option) count_devices :: "('a \<Rightarrow> u32 \<Rightarrow> u32) \<Rightarrow> 'a \<Rightarrow> u32 \<Rightarrow> int \<Rightarrow> int option" where
  "count_devices prv s device count =
     (if device = NULL then Some count else count_devices prv s (prv s device) (count + 1))"

definition device_entry :: "'w vfs \<Rightarrow> u32 \<Rightarrow> vfs_dirlist_entry" where
  "device_entry s device = \<lparr>de_name = take VFS_NAMESIZE (str_heap s (dev_name (dev_heap s device))),
     de_attributes = VFS_DEVICE, de_size = 0\<rparr>"

partial_function (option) fill_devices ::
    "'w vfs \<Rightarrow> u32 \<Rightarrow> nat \<Rightarrow> int \<Rightarrow> vfs_dirlist_entry list \<Rightarrow> vfs_dirlist_entry list option" where
  "fill_devices s device i count entry =
     (if device \<noteq> NULL \<or> count > 0 then
        if device = NULL \<or> length entry \<le> i then None
        else fill_devices s (dev_prev (dev_heap s device)) (i + 1) (count - 1) (entry[i := device_entry s device])
      else Some entry)"

definition dfs_list :: "'w vfs \<Rightarrow> (u32 \<times> 'w vfs) option" where
  "dfs_list s = do {
     count \<leftarrow> count_devices (\<lambda>s a. dev_prev (dev_heap s a)) s (dfs_deviceHead s) 0;
     if count = 0 then Some (NULL, s)
     else do {
       let (entry, s) = kmalloc (40 * 32) s;
       if entry = NULL then None
       else do {
         let entries = replicate 32 \<lparr>de_name = [], de_attributes = 0, de_size = 0\<rparr>;
         let entries = entries[0 := \<lparr>de_name = ''.'', de_attributes = VFS_DIRECTORY, de_size = 0\<rparr>];
         let entries = entries[1 := \<lparr>de_name = ''..'', de_attributes = VFS_DIRECTORY, de_size = 0\<rparr>];
         entries \<leftarrow> fill_devices s (dfs_deviceHead s) 2 count entries;
         Some (entry, s\<lparr>dirlist_heap := (dirlist_heap s)(entry := entries)\<rparr>)
       }
     }
   }"

section \<open>Initialisation\<close>

text \<open>\<open>calls\<close> holds the addresses the linker gives the functions of the driver.\<close>

definition dfs_init :: "vfs_calltable \<Rightarrow> 'w vfs \<Rightarrow> (int \<times> 'w vfs) option" where
  "dfs_init calls s =
     (let (fs, s) = kmalloc 64 s in
      if fs = NULL then None
      else Some (vfs_register fs (set_fs fs (\<lambda>x. x\<lparr>fs_type := DFS_TYPE, fs_calltable := calls\<rparr>) s)))"

text \<open>What the driver's functions do when the switch calls them.\<close>

definition dfs_driver :: "'w io \<Rightarrow> int \<Rightarrow> 'w drivers" where
  "dfs_driver io eax = \<lparr>
     call_open = \<lambda>_ h n s. map_option (\<lambda>(r, s). (r, n, s)) (dfs_open io h n s),
     call_close = \<lambda>_. dfs_close io, call_clone = \<lambda>_. dfs_clone io, call_read = \<lambda>_. dfs_read io,
     call_write = \<lambda>_. dfs_write io, call_seek = \<lambda>_. dfs_seek io, call_control = \<lambda>_. dfs_control io,
     call_create = \<lambda>_ m n s. Some (dfs_create, n, s), call_delete = \<lambda>_ m. dfs_delete,
     call_rename = \<lambda>_ m. dfs_rename eax, call_copy = \<lambda>_ m. dfs_copy eax, call_list = \<lambda>_ m n. dfs_list,
     call_mount = \<lambda>_ d m t s. Some (dfs_mount t, s), call_unmount = \<lambda>_ m n s. Some (dfs_unmount, s)\<rparr>"

text \<open>
  \<open>vfs_init\<close>, with the device file system's driver behind the pointers and the FAT driver's
  initialisation as an argument. The device passed to \<open>vfs_mount\<close> is a null pointer.
\<close>

definition vfs_init :: "'w io \<Rightarrow> int \<Rightarrow> vfs_calltable \<Rightarrow> ('w vfs \<Rightarrow> 'w vfs option) \<Rightarrow> 'w vfs \<Rightarrow> (int \<times> 'w vfs) option" where
  "vfs_init io eax calls fat_init s = do {
     (_, s) \<leftarrow> dfs_init calls s;
     (_, s) \<leftarrow> vfs_mount (dfs_driver io eax) None ''/amos/device/'' DFS_TYPE s;
     s \<leftarrow> fat_init s;
     Some (SUCCESS, s)
   }"

end
