(* ===== verification/VfsProps.thy ===== *)
theory VfsProps
  imports Vfs
begin

text \<open>
  Properties of the file system switch: the driver list as a registry, the list of mount points
  under mounting and unmounting, which mount point a name belongs to, and the life of a handle.
\<close>

section \<open>Stores\<close>

lemma set_fs_simps [simp]:
  "fs_heap (set_fs a F s) = (fs_heap s)(a := F (fs_heap s a))" "vfs_fsHead (set_fs a F s) = vfs_fsHead s"
  by (simp_all add: set_fs_def)

lemma set_mp_simps [simp]:
  "mp_heap (set_mp a F s) = (mp_heap s)(a := F (mp_heap s a))" "vfs_mpHead (set_mp a F s) = vfs_mpHead s"
  "vfs_mpTail (set_mp a F s) = vfs_mpTail s" "fs_heap (set_mp a F s) = fs_heap s" "str_heap (set_mp a F s) = str_heap s"
  "vfs_fsHead (set_mp a F s) = vfs_fsHead s" "pool (set_mp a F s) = pool s" "sizes (set_mp a F s) = sizes s"
  "freed (set_mp a F s) = freed s" "handle_heap (set_mp a F s) = handle_heap s" "world (set_mp a F s) = world s"
  by (simp_all add: set_mp_def)

lemma kfree_simps [simp]:
  "mp_heap (kfree a s) = mp_heap s" "vfs_mpHead (kfree a s) = vfs_mpHead s" "vfs_mpTail (kfree a s) = vfs_mpTail s"
  "fs_heap (kfree a s) = fs_heap s" "str_heap (kfree a s) = str_heap s" "pool (kfree a s) = pool s"
  "handle_heap (kfree a s) = handle_heap s" "a \<noteq> NULL \<Longrightarrow> freed (kfree a s) = a # freed s"
  "dev_heap (kfree a s) = dev_heap s" "dfs_deviceHead (kfree a s) = dfs_deviceHead s" "sizes (kfree a s) = sizes s"
  by (simp_all add: kfree_def)

lemma kmalloc_pool: "0 < n \<Longrightarrow> pool s = a # as \<Longrightarrow> kmalloc n s = (a, s\<lparr>pool := as, sizes := (sizes s)(a := (n + 7) div 8 * 8)\<rparr>)"
  by (simp add: kmalloc_def)

lemma room_for_string: "n \<le> (n + 7) div 8 * 8" for n :: nat
  by presburger

section \<open>The driver list is a registry\<close>

abbreviation drivers_at :: "'w vfs \<Rightarrow> u32 list \<Rightarrow> bool" where
  "drivers_at s xs \<equiv> chain (\<lambda>a. fs_prev (fs_heap s a)) (vfs_fsHead s) xs"

definition driver_ok :: "'w vfs \<Rightarrow> u32 \<Rightarrow> bool" where
  "driver_ok s a \<longleftrightarrow> (\<exists>xs. drivers_at s xs \<and> a \<noteq> NULL \<and> a \<notin> set xs)"

lemma drivers_at_register:
  "drivers_at s xs \<Longrightarrow> a \<noteq> NULL \<Longrightarrow> a \<notin> set xs \<Longrightarrow> drivers_at (snd (vfs_register a s)) (a # xs)"
  by (auto simp: vfs_register_def Let_def intro: chain_cong [THEN iffD1, rotated])

lemma register_types: "fs_type (fs_heap (snd (vfs_register a s)) b) = fs_type (fs_heap s b)"
  by (simp add: vfs_register_def Let_def)

interpretation drv: registry "\<lambda>s a. fs_type (fs_heap s a)" "\<lambda>s a. a" driver_ok "\<lambda>a s. snd (vfs_register a s)" vfs_find
proof
  fix s :: "'w vfs" and i k
  assume "driver_ok s i"
  then obtain xs where xs: "drivers_at s xs" "i \<noteq> NULL" "i \<notin> set xs" by (auto simp: driver_ok_def)
  then have "vfs_find k (snd (vfs_register i s)) = Some (first_match (\<lambda>a. fs_type (fs_heap (snd (vfs_register i s)) a) = k) (i # xs))"
    unfolding vfs_find_def by (intro chase_chain drivers_at_register)
  moreover have "vfs_find k s = Some (first_match (\<lambda>a. fs_type (fs_heap s a) = k) xs)"
    unfolding vfs_find_def using xs(1) by (rule chase_chain)
  ultimately show "vfs_find k (snd (vfs_register i s)) = (if fs_type (fs_heap s i) = k then Some i else vfs_find k s)"
    by (simp add: register_types)
  show "(\<lambda>a. fs_type (fs_heap (snd (vfs_register i s)) a)) = (\<lambda>a. fs_type (fs_heap s a))"
    by (simp add: register_types)
qed

lemma drv_oks:
  "drivers_at s xs \<Longrightarrow> distinct bs \<Longrightarrow> NULL \<notin> set bs \<Longrightarrow> set bs \<inter> set xs = {} \<Longrightarrow> drv.oks s bs"
proof (induction bs arbitrary: s xs)
  case (Cons b bs)
  have b: "b \<noteq> NULL" "b \<notin> set xs" using Cons.prems by auto
  have "drivers_at (snd (vfs_register b s)) (b # xs)" using Cons.prems(1) b by (rule drivers_at_register)
  from Cons.IH [OF this] have "drv.oks (snd (vfs_register b s)) bs" using Cons.prems(2-4) by auto
  moreover have "driver_ok s b" using Cons.prems(1) b by (auto simp: driver_ok_def)
  ultimately show ?case by simp
qed simp

lemma drv_adds: "drv.adds bs s = fold (\<lambda>a s. snd (vfs_register a s)) bs s"
  by (induction bs arbitrary: s) simp_all

lemma register_twice_head:
  assumes "vfs_fsHead s = a" "a \<noteq> NULL" "fs_type (fs_heap s a) \<noteq> t"
  shows "vfs_find t (snd (vfs_register a s)) = None"
  using assms unfolding vfs_find_def by (intro chase_self_loop) (simp_all add: vfs_register_def Let_def)

section \<open>Mount points\<close>

abbreviation mounts_at :: "'w vfs \<Rightarrow> u32 list \<Rightarrow> bool" where
  "mounts_at s xs \<equiv> chain (\<lambda>a. mp_next (mp_heap s a)) (vfs_mpTail s) xs"

text \<open>The list of mount points, and the pointer to its last one.\<close>

definition mounts_ok :: "'w vfs \<Rightarrow> u32 list \<Rightarrow> bool" where
  "mounts_ok s xs \<longleftrightarrow> mounts_at s xs \<and> (xs \<noteq> [] \<longrightarrow> vfs_mpHead s = last xs)"

abbreviation mount_name :: "'w vfs \<Rightarrow> u32 \<Rightarrow> string" where
  "mount_name s a \<equiv> str_heap s (mp_mountpoint (mp_heap s a))"

lemma mounts_end: "mounts_at s (xs @ [x]) \<Longrightarrow> mp_next (mp_heap s x) = NULL"
  using chain_append [of "\<lambda>a. mp_next (mp_heap s a)" "vfs_mpTail s" xs x "[]"] by simp

lemma chain_snoc:
  assumes "chain nxt p xs" "xs \<noteq> []" "m \<noteq> NULL" "m \<notin> set xs" "nxt m = NULL"
  shows "chain (nxt(last xs := m)) p (xs @ [m])"
  using assms
proof (induction xs arbitrary: p)
  case (Cons a as)
  show ?case
  proof (cases "as = []")
    case True
    then show ?thesis using Cons.prems by auto
  next
    case False
    have "a \<noteq> last as" using chain_distinct [OF Cons.prems(1)] False by auto
    then show ?thesis using Cons False by auto
  qed
qed simp

lemma link_mount_ok:
  assumes "mounts_ok s xs" "m \<noteq> NULL" "m \<notin> set xs" "mp_next (mp_heap s m) = NULL"
  shows "mounts_ok (link_mount m s) (xs @ [m])"
proof (cases "xs = []")
  case True
  then show ?thesis using assms by (simp add: mounts_ok_def link_mount_def)
next
  case False
  let ?n = "\<lambda>a. mp_next (mp_heap s a)"
  have h: "vfs_mpHead s = last xs" "chain ?n (vfs_mpTail s) xs" using assms False by (simp_all add: mounts_ok_def)
  then have t: "vfs_mpTail s \<noteq> NULL" using False by (cases xs) auto
  have "chain (?n(last xs := m)) (vfs_mpTail s) (xs @ [m])" using h(2) False assms(2-4) by (rule chain_snoc)
  moreover have "(\<lambda>a. mp_next (mp_heap (link_mount m s) a)) = ?n(last xs := m)"
    using t h by (auto simp: link_mount_def fun_eq_iff)
  ultimately show ?thesis using t by (simp add: mounts_ok_def) (simp add: link_mount_def)
qed

lemma link_mount_frame [simp]:
  "fs_heap (link_mount m s) = fs_heap s" "str_heap (link_mount m s) = str_heap s" "freed (link_mount m s) = freed s"
  "pool (link_mount m s) = pool s" "vfs_mpHead (link_mount m s) = m"
  "mp_fs (mp_heap (link_mount m s) a) = mp_fs (mp_heap s a)"
  "mp_mountpoint (mp_heap (link_mount m s) a) = mp_mountpoint (mp_heap s a)"
  by (simp_all add: link_mount_def)

text \<open>What mounting leaves behind, up to the answer of the driver.\<close>

lemma mount_result:
  fixes f m a d r :: u32 and W :: "'w vfs \<Rightarrow> 'w"
  assumes "pool s = m # a # d # rest" "m \<noteq> NULL" "a \<noteq> NULL" "d \<noteq> NULL" "a \<noteq> d" "vfs_find t s = Some f" "f \<noteq> NULL"
    "ct_mount (fs_calltable (fs_heap s f)) \<noteq> NULL"
    "\<And>st. call_mount D (ct_mount (fs_calltable (fs_heap s f))) dev name t st = Some (r, st\<lparr>world := W st\<rparr>)"
    "mounts_ok s xs" "m \<notin> set xs"
  shows "\<exists>s'. vfs_mount D (Some dev) name t s = Some (if r = NULL then FAIL else SUCCESS, s') \<and>
    vfs_mpHead s' = m \<and> mount_name s' m = name \<and> mp_fs (mp_heap s' m) = f \<and>
    (xs \<noteq> [] \<longrightarrow> mp_next (mp_heap s' (last xs)) = m) \<and> mp_next (mp_heap s' m) = mp_next (mp_heap s m) \<and>
    (mp_next (mp_heap s m) = NULL \<longrightarrow> mounts_ok s' (xs @ [m])) \<and>
    freed s' = (if r = NULL then m # freed s else freed s) \<and> pool s' = rest"
proof -
  have find: "vfs_find t (s\<lparr>pool := x, sizes := y\<rparr>) = Some f" for x y
    using assms(6) by (simp add: vfs_find_def)
  define s1 where "s1 = s\<lparr>pool := a # d # rest, sizes := (sizes s)(m := 24)\<rparr>"
  define s2 where "s2 = set_mp m (\<lambda>x. x\<lparr>mp_fs := f\<rparr>) s1"
  define t3 where "t3 = snd (kmalloc (Suc (length name)) s2)"
  define s3 where "s3 = set_mp m (\<lambda>x. x\<lparr>mp_mountpoint := a\<rparr>) t3"
  define s4 where "s4 = s3\<lparr>str_heap := (str_heap s3)(a := name)\<rparr>"
  define t5 where "t5 = snd (kmalloc (Suc (length dev)) s4)"
  define s5 where "s5 = set_mp m (\<lambda>x. x\<lparr>mp_device := d\<rparr>) t5"
  define s6 where "s6 = s5\<lparr>str_heap := (str_heap s5)(d := dev)\<rparr>"
  have m1: "kmalloc 20 s = (m, s1)" using assms(1) by (simp add: kmalloc_def s1_def)
  have f1: "vfs_find t s1 = Some f" by (simp add: s1_def find)
  have m3: "kmalloc (Suc (length name)) s2 = (a, t3)"
    by (simp add: t3_def kmalloc_def s2_def s1_def)
  have c4: "strcpy a name s3 = Some s4"
    using assms(3) room_for_string [of "Suc (length name)"]
    by (simp add: strcpy_def s4_def s3_def t3_def kmalloc_def s2_def s1_def)
  have p4: "pool s4 = d # rest" by (simp add: s4_def s3_def t3_def kmalloc_def s2_def s1_def)
  then have m5: "kmalloc (Suc (length dev)) s4 = (d, t5)" by (simp add: t5_def kmalloc_def)
  have c6: "strcpy d dev s5 = Some s6"
    using assms(4) p4 room_for_string [of "Suc (length dev)"] by (simp add: strcpy_def s6_def s5_def t5_def kmalloc_def)
  have heap6: "mp_heap s6 = (mp_heap s)(m := (mp_heap s m)\<lparr>mp_fs := f, mp_mountpoint := a, mp_device := d\<rparr>)"
    "fs_heap s6 = fs_heap s" "str_heap s6 a = name" "freed s6 = freed s" "pool s6 = rest" "vfs_mpTail s6 = vfs_mpTail s"
    "vfs_mpHead s6 = vfs_mpHead s"
    using assms(5) p4 by (simp_all add: s6_def s5_def t5_def t3_def kmalloc_def s4_def s3_def s2_def s1_def fun_eq_iff)
  have ok6: "mounts_ok s6 xs"
    using assms(10,11) heap6 unfolding mounts_ok_def
    by (auto intro: chain_cong [THEN iffD1, rotated])
  define s7 where "s7 = link_mount m s6"
  have code: "ct_mount (mount_calls s7 m) = ct_mount (fs_calltable (fs_heap s f))"
    by (simp add: mount_calls_def s7_def heap6)
  define s8 where "s8 = set_mp m (\<lambda>x. x\<lparr>mp_data_ptr := r\<rparr>) (s7\<lparr>world := W s7\<rparr>)"
  have res: "vfs_mount D (Some dev) name t s = Some (if r = NULL then (FAIL, kfree m s8) else (SUCCESS, s8))"
    unfolding vfs_mount_def m1
    using assms(2,7,8,9) f1 c4 c6 code
    by (simp add: Let_def m3 m5 flip: s2_def s3_def s4_def s5_def s6_def s7_def) (simp add: s8_def)
  have last: "mp_next (mp_heap s7 (last xs)) = m" if "xs \<noteq> []"
  proof -
    have "vfs_mpTail s6 \<noteq> NULL" using ok6 that by (cases xs) (auto simp: mounts_ok_def)
    moreover have "vfs_mpHead s6 = last xs" using ok6 that by (simp add: mounts_ok_def)
    ultimately show ?thesis by (simp add: s7_def link_mount_def)
  qed
  have nl: "xs \<noteq> [] \<Longrightarrow> last xs \<noteq> m" using assms(11) by auto
  have nextm: "mp_next (mp_heap s7 m) = mp_next (mp_heap s m)"
  proof (cases "xs = []")
    case True
    then have "vfs_mpTail s6 = NULL" using ok6 by (simp add: mounts_ok_def)
    then show ?thesis by (simp add: s7_def link_mount_def heap6)
  next
    case False
    then have "vfs_mpHead s6 = last xs" using ok6 by (simp add: mounts_ok_def)
    then show ?thesis using nl [OF False] by (simp add: s7_def link_mount_def heap6)
  qed
  have ok7: "mounts_ok s7 (xs @ [m])" if "mp_next (mp_heap s m) = NULL"
    unfolding s7_def using ok6 assms(2,11) that heap6 by (intro link_mount_ok) simp_all
  have ok8: "mounts_ok s8 ys = mounts_ok s7 ys" for ys
  proof -
    have "(\<lambda>b. mp_next (mp_heap s8 b)) = (\<lambda>b. mp_next (mp_heap s7 b))" by (auto simp: s8_def fun_eq_iff)
    then show ?thesis by (simp add: mounts_ok_def) (simp add: s8_def)
  qed
  have ok9: "mounts_ok (kfree m s8) ys = mounts_ok s8 ys" for ys by (simp add: mounts_ok_def)
  have s8: "vfs_mpHead s8 = m" "mount_name s8 m = name" "mp_fs (mp_heap s8 m) = f" "freed s8 = freed s" "pool s8 = rest"
    "mp_next (mp_heap s8 b) = mp_next (mp_heap s7 b)" for b
    by (simp_all add: s8_def s7_def heap6)
  show ?thesis
    by (cases "r = NULL") (simp_all add: res ok9 ok8 ok7 s8 last nextm assms(2))
qed

section \<open>Unmounting\<close>

text \<open>What is left of the list: all that stood between the first mount point and the removed one goes too.\<close>

definition after_unmount :: "u32 list \<Rightarrow> u32 list \<Rightarrow> u32 list" where
  "after_unmount ys zs = (case ys of [] \<Rightarrow> zs | y # _ \<Rightarrow> y # zs)"

lemma chain_suffix: "chain nxt p (ys @ m # zs) \<Longrightarrow> chain nxt (nxt m) zs"
  using chain_append [of nxt p ys m zs] by simp

lemma unlink_mount_result:
  assumes "mounts_at s (ys @ m # zs)"
  shows "\<exists>s'. unlink_mount m s = Some s' \<and> mounts_at s' (after_unmount ys zs) \<and> vfs_mpHead s' = vfs_mpHead s \<and>
    freed s' = freed s \<and> mp_mountpoint (mp_heap s' b) = mp_mountpoint (mp_heap s b) \<and>
    mp_device (mp_heap s' b) = mp_device (mp_heap s b)"
proof (cases ys)
  case Nil
  then have "vfs_mpTail s = m" "mounts_at s (m # zs)" using assms by auto
  then show ?thesis using Nil by (simp add: unlink_mount_def after_unmount_def)
next
  case (Cons y ys')
  let ?n = "\<lambda>a. mp_next (mp_heap s a)"
  have d: "distinct (ys @ m # zs)" using assms by (rule chain_distinct)
  have y: "vfs_mpTail s = y" "y \<noteq> NULL" "y \<noteq> m" "y \<notin> set zs" using assms Cons d by auto
  have z: "chain ?n (?n m) zs" using assms by (rule chain_suffix)
  define s' where "s' = set_mp y (\<lambda>x. x\<lparr>mp_next := ?n m\<rparr>) (set_mp y (\<lambda>x. x\<lparr>mp_next := m\<rparr>) s)"
  have "unlink_mount m s = Some s'" using y by (simp add: unlink_mount_def Let_def s'_def)
  moreover have "chain (\<lambda>a. mp_next (mp_heap s' a)) (?n m) zs"
    using z y by (auto simp: s'_def intro: chain_cong [THEN iffD1, rotated])
  then have "mounts_at s' (after_unmount ys zs)" using y Cons by (simp add: after_unmount_def s'_def)
  ultimately show ?thesis by (simp add: s'_def)
qed

section \<open>Handles\<close>

text \<open>
  What a driver does while one file is opened: \<open>opens_file D m a s ok t\<close> says that calls of the driver's
  open (for handle \<open>a\<close>), create (on mount point \<open>m\<close>) and seek functions, and nothing else, lead from
  \<open>s\<close> to \<open>t\<close>, and \<open>ok\<close> that the last open succeeded; after that there are only seeks. The calls may
  do anything to the state.
\<close>

inductive opens_file :: "'w drivers \<Rightarrow> u32 \<Rightarrow> u32 \<Rightarrow> 'w vfs \<Rightarrow> bool \<Rightarrow> 'w vfs \<Rightarrow> bool" for D m a s where
  start: "opens_file D m a s False s"
| call_open: "opens_file D m a s False t \<Longrightarrow> call_open D c a n t = Some (r, n', u) \<Longrightarrow> opens_file D m a s (r \<noteq> NULL) u"
| call_create: "opens_file D m a s False t \<Longrightarrow> call_create D c m n t = Some (r, n', u) \<Longrightarrow> opens_file D m a s False u"
| call_seek: "opens_file D m a s True t \<Longrightarrow> call_seek D c a x y t = Some (r, u) \<Longrightarrow> opens_file D m a s True u"

lemma opens_file_append:
  assumes "opens_file D m a s True t" "seek_if_append D a t = Some u"
  shows "opens_file D m a s True u"
  using assms by (auto simp: seek_if_append_def vfs_seek_def split: if_splits intro: call_seek)

text \<open>The end of both attempts: the answer of the driver's open decides.\<close>

lemma opens_file_attempt:
  assumes "(if r \<noteq> NULL then do { z \<leftarrow> seek_if_append D a y; Some (a, z) } else Some (NULL, kfree a y)) = Some (h, s')"
    "opens_file D m a s (r \<noteq> NULL) y" "a \<noteq> NULL"
  shows "\<exists>t. opens_file D m a s (h \<noteq> NULL) t \<and> (h = NULL \<and> s' = kfree a t \<or> h = a \<and> s' = t)"
  using assms by (auto simp: bind_eq_Some_conv split: if_splits intro: opens_file_append)

text \<open>On success the handle is answered; on failure the state is the one the driver left, the handle freed.\<close>

lemma open_handle_cases:
  assumes o: "open_handle D m a filename s = Some (h, s')" and a: "a \<noteq> NULL"
  shows "\<exists>t. opens_file D m a s (h \<noteq> NULL) t \<and> (h = NULL \<and> s' = kfree a t \<or> h = a \<and> s' = t)"
proof -
  obtain r n1 s1 where 1: "call_open D (ct_open (mount_calls s m)) a (behind_mount s m filename) s = Some (r, n1, s1)"
    using o unfolding open_handle_def by (auto simp: bind_eq_Some_conv)
  note k1 = opens_file.call_open [OF opens_file.start 1]
  show ?thesis
  proof (cases "r = NULL \<and> has_mode s1 a VFS_MODE_CREATE \<and> ct_create (mount_calls s1 m) \<noteq> NULL")
    case False
    then have "(if r \<noteq> NULL then do { z \<leftarrow> seek_if_append D a s1; Some (a, z) } else Some (NULL, kfree a s1)) = Some (h, s')"
      using o unfolding open_handle_def 1 by (auto split: if_splits)
    then show ?thesis using k1 a by (rule opens_file_attempt)
  next
    case True
    then have k1: "opens_file D m a s False s1" using k1 by simp
    have o2: "do {
       (r, name, s) \<leftarrow> call_create D (ct_create (mount_calls s1 m)) m (behind_mount s1 m filename) s1;
       if r \<noteq> FAIL then do {
         (r, _, s) \<leftarrow> call_open D (ct_open (mount_calls s m)) a name s;
         if r \<noteq> NULL then do { s \<leftarrow> seek_if_append D a s; Some (a, s) } else Some (NULL, kfree a s)
       }
       else Some (NULL, kfree a s)} = Some (h, s')"
      using o True unfolding open_handle_def 1 by simp
    then obtain r2 n2 s2 where
      2: "call_create D (ct_create (mount_calls s1 m)) m (behind_mount s1 m filename) s1 = Some (r2, n2, s2)"
      by (auto simp: bind_eq_Some_conv)
    note k2 = opens_file.call_create [OF k1 2]
    show ?thesis
    proof (cases "r2 = FAIL")
      case True
      then have "h = NULL" "s' = kfree a s2" using o2 unfolding 2 by simp_all
      then show ?thesis using k2 by auto
    next
      case False
      then have o3: "do {
         (r, _, s) \<leftarrow> call_open D (ct_open (mount_calls s2 m)) a n2 s2;
         if r \<noteq> NULL then do { s \<leftarrow> seek_if_append D a s; Some (a, s) } else Some (NULL, kfree a s)} = Some (h, s')"
        using o2 unfolding 2 by simp
      then obtain r3 n3 s3 where 3: "call_open D (ct_open (mount_calls s2 m)) a n2 s2 = Some (r3, n3, s3)"
        by (auto simp: bind_eq_Some_conv)
      have "(if r3 \<noteq> NULL then do { z \<leftarrow> seek_if_append D a s3; Some (a, z) } else Some (NULL, kfree a s3)) = Some (h, s')"
        using o3 unfolding 3 by simp
      then show ?thesis using opens_file.call_open [OF k2 3] a by (rule opens_file_attempt)
    qed
  qed
qed

text \<open>The state in which the driver is first called: a block taken, and filled in.\<close>

definition new_handle :: "u32 \<Rightarrow> u32 \<Rightarrow> u32 \<Rightarrow> 'w vfs \<Rightarrow> 'w vfs" where
  "new_handle a m mode s = s\<lparr>pool := tl (pool s), sizes := (sizes s)(a := 16),
     handle_heap := (handle_heap s)(a := (handle_heap s a)\<lparr>h_mount := m, h_mode := mode\<rparr>)\<rparr>"

lemma open_cases:
  assumes "vfs_open D filename mode s = Some (h, s')"
  shows "h = NULL \<and> s' = s \<or>
    (\<exists>a m t. pool s \<noteq> [] \<and> a = hd (pool s) \<and> a \<noteq> NULL \<and> resolve_name filename s = Some m \<and> m \<noteq> NULL \<and>
      opens_file D m a (new_handle a m mode s) (h \<noteq> NULL) t \<and> (h = NULL \<and> s' = kfree a t \<or> h = a \<and> s' = t))"
proof -
  from assms obtain m where m: "resolve_name filename s = Some m"
    by (auto simp: vfs_open_def bind_eq_Some_conv)
  show ?thesis
  proof (cases "m = NULL \<or> ct_open (mount_calls s m) = NULL")
    case True
    have "vfs_open D filename mode s = Some (NULL, s)"
      unfolding vfs_open_def m using True by auto
    then show ?thesis using assms by simp
  next
    case False
    obtain a s1 where k: "kmalloc 12 s = (a, s1)" by force
    have o: "a \<noteq> NULL \<and> open_handle D m a filename (set_handle a (\<lambda>h. h\<lparr>h_mount := m, h_mode := mode\<rparr>) s1) = Some (h, s')"
      using assms False unfolding vfs_open_def m by (auto simp: k split: if_splits)
    then have s1: "pool s = a # tl (pool s)" "s1 = s\<lparr>pool := tl (pool s), sizes := (sizes s)(a := 16)\<rparr>"
      using k by (auto simp: kmalloc_def split: list.splits)
    have s2: "set_handle a (\<lambda>h. h\<lparr>h_mount := m, h_mode := mode\<rparr>) s1 = new_handle a m mode s"
      unfolding s1(2) set_handle_def new_handle_def by simp
    have p: "pool s \<noteq> []" "a = hd (pool s)" using s1(1) by (metis list.distinct(1), metis list.sel(1))
    have o': "open_handle D m a filename (new_handle a m mode s) = Some (h, s')" using o unfolding s2 by simp
    have na: "a \<noteq> NULL" using o by simp
    from open_handle_cases [OF o' na] obtain t where
      "opens_file D m a (new_handle a m mode s) (h \<noteq> NULL) t" "h = NULL \<and> s' = kfree a t \<or> h = a \<and> s' = t" by blast
    then show ?thesis using p na m False by blast
  qed
qed

section \<open>An example system\<close>

text \<open>
  For the witnesses: a kernel with one driver, of type 1 at address 0x100, whose entry points are all
  at address 0x1000 and answer without changing anything, and memory at 0x200, 0x210, ... to hand out.
\<close>

definition ex_calls :: vfs_calltable where
  "ex_calls = \<lparr>ct_open = 0x1000, ct_close = 0x1000, ct_clone = 0x1000, ct_read = 0x1000, ct_write = 0x1000,
     ct_seek = 0x1000, ct_control = 0x1000, ct_create = 0x1000, ct_delete = 0x1000, ct_rename = 0x1000,
     ct_copy = 0x1000, ct_list = 0x1000, ct_mount = 0x1000, ct_unmount = 0x1000\<rparr>"

definition ex_fs :: "u32 \<Rightarrow> vfs_filesystem" where
  "ex_fs a = \<lparr>fs_type = (if a = 0x100 then 1 else 2), fs_calltable = ex_calls, fs_prev = NULL\<rparr>"

definition ex_state :: "u32 \<Rightarrow> (u32 \<Rightarrow> vfs_mountpoint) \<Rightarrow> (u32 \<Rightarrow> string) \<Rightarrow> u32 \<Rightarrow> u32 \<Rightarrow> unit vfs" where
  "ex_state head mps strs tail lst = \<lparr>fs_heap = ex_fs, mp_heap = mps,
     handle_heap = (\<lambda>_. \<lparr>h_mount = NULL, h_data_ptr = NULL, h_mode = 0\<rparr>),
     dev_heap = (\<lambda>_. \<lparr>dev_prev = NULL, dev_calltable = NULL, dev_name = NULL, dev_type = 0\<rparr>), str_heap = strs,
     io_heap = (\<lambda>_. []), dirlist_heap = (\<lambda>_. []),
     vfs_fsHead = head, vfs_mpHead = lst, vfs_mpTail = tail, dfs_deviceHead = NULL,
     pool = [0x200, 0x210, 0x220, 0x230], sizes = (\<lambda>_. 0), freed = [], world = ()\<rparr>"

definition no_mount :: "u32 \<Rightarrow> vfs_mountpoint" where
  "no_mount a = \<lparr>mp_fs = NULL, mp_data_ptr = NULL, mp_mountpoint = NULL, mp_device = NULL, mp_next = NULL\<rparr>"

definition ex_drivers :: "u32 \<Rightarrow> unit drivers" where
  "ex_drivers r = \<lparr>call_open = \<lambda>c h n s. Some (r, n, s), call_close = \<lambda>c h s. Some (0, s), call_clone = \<lambda>c h k s. Some (0, s),
     call_read = \<lambda>c h b n s. Some (0, s), call_write = \<lambda>c h b n s. Some (0, s), call_seek = \<lambda>c h x y s. Some (0, s),
     call_control = \<lambda>c h x y s. Some (0, s), call_create = \<lambda>c m n s. Some (0, n, s), call_delete = \<lambda>c m n s. Some (0, s),
     call_rename = \<lambda>c m x y s. Some (0, s), call_copy = \<lambda>c m x y s. Some (0, s), call_list = \<lambda>c m n s. Some (0, s),
     call_mount = \<lambda>c d m t s. Some (r, s), call_unmount = \<lambda>c m n s. Some (0, s)\<rparr>"

lemma ex_state_simps [simp]:
  "fs_heap (ex_state h0 mps strs t0 lst) = ex_fs" "mp_heap (ex_state h0 mps strs t0 lst) = mps"
  "str_heap (ex_state h0 mps strs t0 lst) = strs" "vfs_fsHead (ex_state h0 mps strs t0 lst) = h0"
  "vfs_mpHead (ex_state h0 mps strs t0 lst) = lst" "vfs_mpTail (ex_state h0 mps strs t0 lst) = t0"
  "pool (ex_state h0 mps strs t0 lst) = [0x200, 0x210, 0x220, 0x230]" "freed (ex_state h0 mps strs t0 lst) = []"
  by (simp_all add: ex_state_def)

lemma ex_drivers_simps [simp]:
  "call_mount (ex_drivers r) c d m t s = Some (r, s)" "call_unmount (ex_drivers r) c a n s = Some (0, s)"
  "call_open (ex_drivers r) c h n s = Some (r, n, s)" "call_create (ex_drivers r) c h n s = Some (0, n, s)"
  "call_seek (ex_drivers r) c h x y s = Some (0, s)"
  by (simp_all add: ex_drivers_def)

lemma unit_world [simp]: "s\<lparr>world := w\<rparr> = s" for s :: "unit vfs"
  by (cases s) simp

lemmas ex_defs = ex_fs_def ex_calls_def no_mount_def

text \<open>Three mount points at 0x300, 0x310 and 0x320, named /, /a/ and /b/.\<close>

definition ex_mounts :: "u32 \<Rightarrow> vfs_mountpoint" where
  "ex_mounts a = \<lparr>mp_fs = 0x100, mp_data_ptr = 1, mp_mountpoint = a + 1, mp_device = a + 2,
     mp_next = (if a = 0x300 then 0x310 else if a = 0x310 then 0x320 else NULL)\<rparr>"

definition ex_strs :: "u32 \<Rightarrow> string" where
  "ex_strs a = (if a = 0x301 then ''/'' else if a = 0x311 then ''/a/'' else if a = 0x321 then ''/b/'' else [])"

abbreviation ex_mounted :: "unit vfs" where
  "ex_mounted \<equiv> ex_state 0x100 ex_mounts ex_strs 0x300 0x320"

lemma ex_mounted_ok: "mounts_ok ex_mounted [0x300, 0x310, 0x320]"
  by (simp add: mounts_ok_def ex_mounts_def)

section \<open>Properties\<close>

text \<open>
  C26. A registered driver is found under its type for as long as no other driver of that type is
  registered after it. Registering the newest driver a second time makes its list run in a
  circle: looking a type up that it does not have then never ends.
\<close>

theorem register_find:
  assumes "drivers_at s xs" "distinct (a # bs)" "NULL \<notin> set (a # bs)" "set (a # bs) \<inter> set xs = {}"
    "\<forall>b \<in> set bs. fs_type (fs_heap s b) \<noteq> fs_type (fs_heap s a)" "t \<noteq> fs_type (fs_heap s a)"
  shows "vfs_find (fs_type (fs_heap s a)) (fold (\<lambda>b s. snd (vfs_register b s)) (a # bs) s) = Some a
    \<and> vfs_find t (snd (vfs_register a (snd (vfs_register a s)))) = None"
proof
  have oks: "drv.oks s (a # bs)" using assms(1-4) by (intro drv_oks) auto
  have "vfs_find (fs_type (fs_heap s a)) (drv.adds (a # bs) s) = Some a"
    using oks assms(5) by (intro drv.lookup_stays) simp_all
  then show "vfs_find (fs_type (fs_heap s a)) (fold (\<lambda>b s. snd (vfs_register b s)) (a # bs) s) = Some a"
    by (simp only: drv_adds)
  show "vfs_find t (snd (vfs_register a (snd (vfs_register a s)))) = None"
    using assms(3,6) register_types [of a s a]
    by (intro register_twice_head) (simp_all add: vfs_register_def Let_def)
qed

theorem register_find_witness:
  "vfs_find 1 (fold (\<lambda>b s. snd (vfs_register b s)) [0x100, 0x110] (ex_state NULL no_mount (\<lambda>_. []) NULL NULL)) = Some 0x100"
  using register_find [of "ex_state NULL no_mount (\<lambda>_. []) NULL NULL" "[]" "0x100" "[0x110]" 3] by (simp add: ex_defs)

text \<open>
  Mounting puts the new mount point behind the last one and makes it the last, with its name and
  file system; that it ends the list is only so if the memory it was given happened to hold a
  null pointer where \<open>next\<close> is, because the code never sets it. When the driver refuses, the
  call fails and frees the mount point, which stays in the list.
\<close>

theorem mount_links:
  fixes f m a d r :: u32 and W :: "'w vfs \<Rightarrow> 'w"
  assumes "pool s = m # a # d # rest" "m \<noteq> NULL" "a \<noteq> NULL" "d \<noteq> NULL" "a \<noteq> d" "vfs_find t s = Some f" "f \<noteq> NULL"
    "ct_mount (fs_calltable (fs_heap s f)) \<noteq> NULL"
    "\<And>st. call_mount D (ct_mount (fs_calltable (fs_heap s f))) dev name t st = Some (r, st\<lparr>world := W st\<rparr>)"
    "mounts_ok s xs" "m \<notin> set xs"
  shows "\<exists>s'. vfs_mount D (Some dev) name t s = Some (if r = NULL then FAIL else SUCCESS, s') \<and>
    vfs_mpHead s' = m \<and> mount_name s' m = name \<and> mp_fs (mp_heap s' m) = f \<and>
    (xs \<noteq> [] \<longrightarrow> mp_next (mp_heap s' (last xs)) = m) \<and> mp_next (mp_heap s' m) = mp_next (mp_heap s m) \<and>
    (mp_next (mp_heap s m) = NULL \<longrightarrow> mounts_ok s' (xs @ [m])) \<and>
    freed s' = (if r = NULL then m # freed s else freed s) \<and> pool s' = rest"
  using assms by (rule mount_result)

theorem mount_links_witness:
  "\<exists>s'. vfs_mount (ex_drivers NULL) (Some ''hd'') ''/c/'' 1 ex_mounted = Some (FAIL, s') \<and>
     mounts_ok s' [0x300, 0x310, 0x320, 0x200] \<and> freed s' = [0x200]"
proof -
  have f: "vfs_find 1 ex_mounted = Some 0x100"
    unfolding vfs_find_def by (simp add: chase.simps ex_defs)
  have n: "mp_next (mp_heap ex_mounted 0x200) = NULL" by (simp add: ex_mounts_def)
  have "\<exists>s'. vfs_mount (ex_drivers NULL) (Some ''hd'') ''/c/'' 1 ex_mounted = Some (if (NULL :: u32) = NULL then FAIL else SUCCESS, s') \<and>
    vfs_mpHead s' = 0x200 \<and> mount_name s' 0x200 = ''/c/'' \<and> mp_fs (mp_heap s' 0x200) = 0x100 \<and>
    ([0x300, 0x310, 0x320] \<noteq> ([] :: u32 list) \<longrightarrow> mp_next (mp_heap s' (last [0x300, 0x310, 0x320])) = 0x200) \<and>
    mp_next (mp_heap s' 0x200) = mp_next (mp_heap ex_mounted 0x200) \<and>
    (mp_next (mp_heap ex_mounted 0x200) = NULL \<longrightarrow> mounts_ok s' ([0x300, 0x310, 0x320] @ [0x200])) \<and>
    freed s' = (if (NULL :: u32) = NULL then 0x200 # freed ex_mounted else freed ex_mounted) \<and> pool s' = [0x230]"
    by (rule mount_links [where a = "0x210" and d = "0x220" and W = "\<lambda>_. ()"])
      (simp_all add: f ex_mounted_ok, simp add: ex_defs)
  then show ?thesis using n by auto
qed

text \<open>
  A name belongs to the first mount point, in the order of mounting, that it starts with, and to
  none when there is no such mount point. A mount point whose name extends that of an earlier one
  is never reached.
\<close>

theorem file2mountpoint_first:
  assumes "mounts_ok s (xs @ m # ys)" "n \<in> set ys" "take (length (mount_name s m)) (mount_name s n) = mount_name s m"
  shows "\<exists>r. vfs_file2mountpoint filename s = Some r \<and> r \<noteq> n \<and>
    (if r = NULL then \<forall>a \<in> set (xs @ m # ys). take (length (mount_name s a)) filename \<noteq> mount_name s a
     else r \<in> set (xs @ m # ys) \<and> take (length (mount_name s r)) filename = mount_name s r)"
proof -
  let ?P = "\<lambda>a. take (length (mount_name s a)) filename = mount_name s a"
  let ?l = "xs @ m # ys"
  have c: "mounts_at s ?l" using assms(1) by (simp add: mounts_ok_def)
  have r: "vfs_file2mountpoint filename s = Some (first_match ?P ?l)"
    unfolding vfs_file2mountpoint_def using c by (rule chase_chain)
  have nn: "NULL \<notin> set ?l" using chain_not_null [OF c] by blast
  have "first_match ?P ?l \<noteq> n"
  proof
    assume n: "first_match ?P ?l = n"
    have "n \<noteq> NULL" using nn assms(2) by auto
    then have pn: "?P n" using first_match_in [of ?P ?l] n by auto
    have "take (length (mount_name s m)) filename = take (length (mount_name s m)) (take (length (mount_name s n)) filename)"
      using arg_cong [OF assms(3), of length] by simp
    then have "?P m" using pn assms(3) by simp
    moreover have "distinct ?l" using c by (rule chain_distinct)
    then have "n \<noteq> m" "n \<notin> set xs" using assms(2) by auto
    moreover have "first_match ?P (as @ m # bs) \<noteq> n" if "?P m" "n \<notin> set as" "n \<noteq> m" for as bs
      using that by (induction as) auto
    ultimately show False using n by blast
  qed
  then show ?thesis using r first_match_none [OF nn, of ?P] first_match_in [of ?P ?l] by auto
qed

theorem file2mountpoint_first_witness:
  "\<exists>r. vfs_file2mountpoint ''/b/x'' ex_mounted = Some r \<and> r \<noteq> 0x320"
  using file2mountpoint_first [of ex_mounted "[]" "0x300" "[0x310, 0x320]" "0x320" "''/b/x''"] ex_mounted_ok
  by (auto simp: ex_mounts_def ex_strs_def)

text \<open>
  C27. Unmounting frees the mount point and its two strings and takes it out of the list, but unless
  it is first or second it also drops every mount point that stood between the first and it; and
  the pointer to the last mount point is not moved, so it may point to the freed one.
\<close>

theorem unmount_drops:
  assumes "mounts_ok s (ys @ m # zs)" "length name < VFS_MAXFILENAME" "mount_name s m = name"
    "\<forall>y \<in> set ys. mount_name s y \<noteq> name" "ct_unmount (mount_calls s m) \<noteq> NULL"
    "call_unmount D (ct_unmount (mount_calls s m)) m name s = Some (r, s\<lparr>world := w\<rparr>)"
    "mp_mountpoint (mp_heap s m) \<noteq> NULL" "mp_device (mp_heap s m) \<noteq> NULL"
  shows "\<exists>s'. vfs_unmount D name s = Some (SUCCESS, s') \<and>
    mounts_at s' (case ys of [] \<Rightarrow> zs | y # _ \<Rightarrow> y # zs) \<and>
    freed s' = [m, mp_device (mp_heap s m), mp_mountpoint (mp_heap s m)] @ freed s \<and>
    (zs = [] \<longrightarrow> vfs_mpHead s' = m)"
proof -
  let ?l = "ys @ m # zs"
  have c: "mounts_at s ?l" using assms(1) by (simp add: mounts_ok_def)
  have m0: "m \<noteq> NULL" using chain_not_null [OF c] by simp
  have "first_match (\<lambda>a. mount_name s a = name) ?l = m"
    using assms(3,4) by (induction ys) auto
  then have f: "chase (\<lambda>a. mp_next (mp_heap s a)) (\<lambda>a. mount_name s a = name) (vfs_mpTail s) = Some m"
    using chase_chain [OF c] by simp
  have "mounts_at (s\<lparr>world := w\<rparr>) ?l" using c by simp
  from unlink_mount_result [OF this] obtain s1 where
    s1: "unlink_mount m (s\<lparr>world := w\<rparr>) = Some s1" "mounts_at s1 (after_unmount ys zs)" "vfs_mpHead s1 = vfs_mpHead s"
      "freed s1 = freed s" "mp_mountpoint (mp_heap s1 m) = mp_mountpoint (mp_heap s m)"
      "mp_device (mp_heap s1 m) = mp_device (mp_heap s m)" by fastforce
  define s' where "s' = kfree m (kfree (mp_device (mp_heap s m)) (kfree (mp_mountpoint (mp_heap s m)) s1))"
  have "vfs_unmount D name s = Some (SUCCESS, s')"
    unfolding vfs_unmount_def f using assms(2,5) m0 s1(1,5,6) by (simp add: assms(6) Let_def s'_def)
  moreover have "mounts_at s' (case ys of [] \<Rightarrow> zs | y # _ \<Rightarrow> y # zs)"
    using s1(2) by (simp add: s'_def after_unmount_def)
  moreover have "freed s' = [m, mp_device (mp_heap s m), mp_mountpoint (mp_heap s m)] @ freed s"
    using m0 assms(7,8) s1(4) by (simp add: s'_def)
  moreover have "vfs_mpHead s' = m" if "zs = []" using assms(1) that s1(3) by (simp add: s'_def mounts_ok_def)
  ultimately show ?thesis by blast
qed

theorem unmount_drops_witness:
  "\<exists>s'. vfs_unmount (ex_drivers 1) ''/b/'' ex_mounted = Some (SUCCESS, s') \<and> mounts_at s' [0x300] \<and> vfs_mpHead s' = 0x320"
  using unmount_drops [of ex_mounted "[0x300, 0x310]" "0x320" "[]" "''/b/''" "ex_drivers 1" 0 "()"] ex_mounted_ok
  by (simp add: ex_mounts_def ex_strs_def ex_calls_def ex_fs_def mount_calls_def VFS_MAXFILENAME_def) blast

text \<open>
  C28. Opening a file neither leaks the switch's handle nor frees it twice, whatever the driver does.
  Either the name has no mount point or no open function, and nothing happens; or the first free
  block becomes the handle, with the mount point and the mode in it, and from there on only the driver's
  open, create and seek calls change the state, up to one of two ends: the last open succeeded,
  and the answer is the handle in exactly the state the driver left; or it did not, the answer is NULL,
  and the state is the driver's with the handle freed, once.
\<close>

theorem open_no_leak:
  assumes "vfs_open D filename mode s = Some (h, s')"
  shows "h = NULL \<and> s' = s \<or>
    (\<exists>a m t. pool s \<noteq> [] \<and> a = hd (pool s) \<and> a \<noteq> NULL \<and> resolve_name filename s = Some m \<and> m \<noteq> NULL \<and>
      opens_file D m a (s\<lparr>pool := tl (pool s), sizes := (sizes s)(a := 16),
        handle_heap := (handle_heap s)(a := (handle_heap s a)\<lparr>h_mount := m, h_mode := mode\<rparr>)\<rparr>) (h \<noteq> NULL) t \<and>
      (h = NULL \<and> s' = t\<lparr>freed := a # freed t\<rparr> \<or> h = a \<and> s' = t))"
  using open_cases [OF assms] unfolding new_handle_def kfree_def by fastforce

text \<open>A driver like the FAT one: its open takes a block for itself and, failing, frees it.\<close>

definition ex_busy_drivers :: "unit drivers" where
  "ex_busy_drivers = (ex_drivers NULL)\<lparr>call_open := \<lambda>c h n s. (let (b, s) = kmalloc 24 s in Some (NULL, n, kfree b s))\<rparr>"

theorem open_no_leak_witness:
  "\<exists>s' t. vfs_open ex_busy_drivers ''/x'' 0 ex_mounted = Some (NULL, s') \<and>
     freed t = [0x210] \<and> s' = t\<lparr>freed := 0x200 # freed t\<rparr>"
proof -
  have r: "resolve_name ''/x'' ex_mounted = Some 0x300"
    by (simp add: resolve_name_def VFS_MAXFILENAME_def vfs_file2mountpoint_def chase.simps ex_mounts_def ex_strs_def)
  define s2 where "s2 = set_handle 0x200 (\<lambda>h. h\<lparr>h_mount := 0x300, h_mode := 0\<rparr>) (snd (kmalloc 12 ex_mounted))"
  define s3 where "s3 = kfree 0x210 (snd (kmalloc 24 s2))"
  have p2: "pool s2 = [0x210, 0x220, 0x230]" "freed s2 = []" by (simp_all add: s2_def set_handle_def kmalloc_pool)
  have h: "\<not> has_mode s3 0x200 VFS_MODE_CREATE"
    by (simp add: s3_def s2_def set_handle_def has_mode_def kmalloc_pool vfs_modes)
  have c: "call_open ex_busy_drivers c 0x200 n s2 = Some (NULL, n, s3)" for c n
    using p2 by (simp add: ex_busy_drivers_def s3_def kmalloc_pool)
  have o: "vfs_open ex_busy_drivers ''/x'' 0 ex_mounted = Some (NULL, kfree 0x200 s3)"
    unfolding vfs_open_def r
    using h c by (simp add: kmalloc_pool mount_calls_def ex_defs ex_mounts_def open_handle_def flip: s2_def)
      (simp add: s2_def kmalloc_pool)
  have "pool (kfree 0x200 s3) \<noteq> pool ex_mounted" by (simp add: s3_def kmalloc_pool p2)
  then have "kfree 0x200 s3 \<noteq> ex_mounted" by metis
  with open_no_leak [OF o] obtain t where t: "kfree 0x200 s3 = t\<lparr>freed := 0x200 # freed t\<rparr>" by auto
  have "freed (kfree 0x200 s3) = [0x200, 0x210]" by (simp add: s3_def kmalloc_pool p2)
  then have "freed t = [0x210]" unfolding t by simp
  then show ?thesis using o t by blast
qed

text \<open>
  Reading needs the read bit of the handle's mode and writing the write bit; without it the
  driver is not called. The append mode is the bits of read and truncate together: a handle opened
  for append cannot be written, and one opened to read and truncate counts as append.
\<close>

theorem mode_guards:
  assumes "h \<noteq> NULL"
  shows "(\<not> bit (h_mode (handle_heap s h)) 0 \<longrightarrow> vfs_read D h buf n s = Some (FAIL, s)) \<and>
    (\<not> bit (h_mode (handle_heap s h)) 1 \<longrightarrow> vfs_write D h buf n s = Some (FAIL, s)) \<and>
    (h_mode (handle_heap s h) = VFS_MODE_APPEND \<longrightarrow> vfs_write D h buf n s = Some (FAIL, s)) \<and>
    (h_mode (handle_heap s h) = VFS_MODE_READ OR VFS_MODE_TRUNCATE \<longrightarrow>
       seek_if_append D h s = map_option snd (vfs_seek D h 0 VFS_SEEK_END s))"
proof -
  have "x AND 2 ^ k = 2 ^ k \<longleftrightarrow> bit x k" if "k < 32" for x :: u32 and k
  proof
    assume "x AND 2 ^ k = 2 ^ k"
    then have "bit (x AND 2 ^ k) k = bit (2 ^ k :: u32) k" by simp
    then show "bit x k" using that by (simp add: bit_and_iff bit_exp_iff)
  next
    assume "bit x k"
    then show "x AND 2 ^ k = 2 ^ k" by (intro bit_word_eqI) (auto simp: bit_and_iff bit_exp_iff)
  qed
  from this [of 0] this [of 1] have "x AND 1 = 1 \<longleftrightarrow> bit x 0" "x AND 2 = 2 \<longleftrightarrow> bit x 1" for x :: u32
    by simp_all
  then show ?thesis using assms
    by (auto simp: vfs_read_def vfs_write_def has_mode_def seek_if_append_def vfs_modes)
qed

theorem mode_guards_witness:
  "vfs_write (ex_drivers 1) 0x400 0 1 (ex_mounted\<lparr>handle_heap := (\<lambda>_. \<lparr>h_mount = 0x300, h_data_ptr = 1, h_mode = VFS_MODE_APPEND\<rparr>)\<rparr>)
     = Some (FAIL, ex_mounted\<lparr>handle_heap := (\<lambda>_. \<lparr>h_mount = 0x300, h_data_ptr = 1, h_mode = VFS_MODE_APPEND\<rparr>)\<rparr>)"
  using mode_guards [of "0x400" "ex_mounted\<lparr>handle_heap := (\<lambda>_. \<lparr>h_mount = 0x300, h_data_ptr = 1, h_mode = VFS_MODE_APPEND\<rparr>)\<rparr>"
      "ex_drivers 1" 0 1] by simp

end
