(* ===== verification/DfsProps.thy ===== *)
theory DfsProps
  imports Dfs VfsProps
begin

text \<open>
  Properties of the device file system: the device list as a registry, removal, copying and renaming
  of devices, the directory listing, and the way from a name through the switch to a device.
\<close>

section \<open>The device list\<close>

abbreviation devices_at :: "'w vfs \<Rightarrow> u32 list \<Rightarrow> bool" where
  "devices_at s xs \<equiv> chain (\<lambda>a. dev_prev (dev_heap s a)) (dfs_deviceHead s) xs"

abbreviation device_name :: "'w vfs \<Rightarrow> u32 \<Rightarrow> string" where
  "device_name s a \<equiv> str_heap s (dev_name (dev_heap s a))"

lemma set_dev_simps [simp]:
  "dev_heap (set_dev a F s) = (dev_heap s)(a := F (dev_heap s a))" "str_heap (set_dev a F s) = str_heap s"
  "dfs_deviceHead (set_dev a F s) = dfs_deviceHead s" "pool (set_dev a F s) = pool s" "freed (set_dev a F s) = freed s"
  "io_heap (set_dev a F s) = io_heap s" "sizes (set_dev a F s) = sizes s"
  by (simp_all add: set_dev_def)

lemma dfs_find_chain: "devices_at s xs \<Longrightarrow> dfs_find name s = Some (first_match (\<lambda>a. device_name s a = name) xs)"
  unfolding dfs_find_def by (rule chase_chain)

lemma dfs_add_result:
  assumes "pool s = a # as" "a \<noteq> NULL" "devices_at s xs" "a \<notin> set xs"
  obtains s' where "dfs_add n c t s = Some (a, s')" "devices_at s' (a # xs)" "str_heap s' = str_heap s"
    "dev_heap s' = (dev_heap s)(a := \<lparr>dev_prev = dfs_deviceHead s, dev_calltable = c, dev_name = n, dev_type = t\<rparr>)"
    "pool s' = as" "freed s' = freed s" "io_heap s' = io_heap s"
proof -
  define s' where "s' = set_dev a (\<lambda>d. d\<lparr>dev_calltable := c, dev_name := n, dev_type := t\<rparr>)
     ((set_dev a (\<lambda>d. d\<lparr>dev_prev := dfs_deviceHead s\<rparr>) (snd (kmalloc 16 s)))\<lparr>dfs_deviceHead := a\<rparr>)"
  have k: "kmalloc 16 s = (a, snd (kmalloc 16 s))" "dev_heap (snd (kmalloc 16 s)) = dev_heap s"
    "str_heap (snd (kmalloc 16 s)) = str_heap s" "dfs_deviceHead (snd (kmalloc 16 s)) = dfs_deviceHead s"
    "pool (snd (kmalloc 16 s)) = as" "freed (snd (kmalloc 16 s)) = freed s" "io_heap (snd (kmalloc 16 s)) = io_heap s"
    using assms(1) by (simp_all add: kmalloc_pool)
  have r: "dfs_add n c t s = Some (a, s')"
    unfolding dfs_add_def by (subst k(1)) (simp add: assms(2) Let_def s'_def k(4))
  have h: "dev_heap s' = (dev_heap s)(a := \<lparr>dev_prev = dfs_deviceHead s, dev_calltable = c, dev_name = n, dev_type = t\<rparr>)"
    by (simp add: s'_def k(2) fun_eq_iff)
  have "chain (\<lambda>b. dev_prev (dev_heap s' b)) (dfs_deviceHead s) xs"
    using assms(3,4) by (auto simp: h intro: chain_cong [THEN iffD1, rotated])
  moreover have "dfs_deviceHead s' = a" by (simp add: s'_def)
  ultimately have d: "devices_at s' (a # xs)" using assms(2) by (simp add: h)
  have f: "str_heap s' = str_heap s" "pool s' = as" "freed s' = freed s" "io_heap s' = io_heap s"
    by (simp_all add: s'_def k(2-))
  show thesis by (rule that [OF r d f(1) h f(2-4)])
qed

definition device_ok :: "'w vfs \<Rightarrow> u32 \<times> u32 \<times> int \<Rightarrow> bool" where
  "device_ok s i \<longleftrightarrow> (\<exists>xs a as. devices_at s xs \<and> pool s = a # as \<and> a \<noteq> NULL \<and> a \<notin> set xs)"

definition add_device :: "u32 \<times> u32 \<times> int \<Rightarrow> 'w vfs \<Rightarrow> 'w vfs" where
  "add_device i s = (case i of (n, c, t) \<Rightarrow> snd (the (dfs_add n c t s)))"

interpretation devs: registry "\<lambda>s i. str_heap s (fst i)" "\<lambda>s i. hd (pool s)" device_ok add_device dfs_find
proof
  fix s :: "'w vfs" and i :: "u32 \<times> u32 \<times> int" and k
  assume "device_ok s i"
  then obtain xs a as where x: "devices_at s xs" "pool s = a # as" "a \<noteq> NULL" "a \<notin> set xs"
    by (auto simp: device_ok_def)
  obtain n c t where i: "i = (n, c, t)" by (cases i)
  obtain s' where s': "dfs_add n c t s = Some (a, s')" "devices_at s' (a # xs)" "str_heap s' = str_heap s"
      "dev_heap s' = (dev_heap s)(a := \<lparr>dev_prev = dfs_deviceHead s, dev_calltable = c, dev_name = n, dev_type = t\<rparr>)"
    by (rule dfs_add_result [OF x(2,3,1,4)])
  have ad: "add_device i s = s'" using s'(1) i by (simp add: add_device_def)
  have m: "first_match (\<lambda>b. device_name s' b = k) xs = first_match (\<lambda>b. device_name s b = k) xs"
    using x(4) by (intro first_match_cong) (auto simp: s'(3,4))
  have "device_name s' a = str_heap s n" by (simp add: s'(3,4))
  then have "first_match (\<lambda>b. device_name s' b = k) (a # xs) =
      (if str_heap s n = k then a else first_match (\<lambda>b. device_name s b = k) xs)"
    unfolding first_match_simps m by simp
  then show "dfs_find k (add_device i s) = (if str_heap s (fst i) = k then Some (hd (pool s)) else dfs_find k s)"
    unfolding ad dfs_find_chain [OF s'(2), of k] dfs_find_chain [OF x(1), of k] by (simp add: x(2) i)
  show "(\<lambda>j :: u32 \<times> u32 \<times> int. str_heap (add_device i s) (fst j)) = (\<lambda>j. str_heap s (fst j))"
    using ad s'(3) by simp
qed

text \<open>Several devices added one after the other.\<close>

fun dfs_adds :: "(u32 \<times> u32 \<times> int) list \<Rightarrow> 'w vfs \<Rightarrow> 'w vfs option" where
  "dfs_adds [] s = Some s"
| "dfs_adds ((n, c, t) # is) s = do { (_, s) \<leftarrow> dfs_add n c t s; dfs_adds is s }"

lemma devs_oks:
  "devices_at s xs \<Longrightarrow> pool s = as @ rest \<Longrightarrow> length as = length is \<Longrightarrow> distinct as \<Longrightarrow> NULL \<notin> set as \<Longrightarrow>
     set as \<inter> set xs = {} \<Longrightarrow> devs.oks s is \<and> dfs_adds is s = Some (devs.adds is s)"
proof (induction "is" arbitrary: s xs as)
  case (Cons i "is")
  obtain n c t where i: "i = (n, c, t)" by (cases i)
  obtain a bs where as: "as = a # bs" using Cons.prems(3) by (cases as) auto
  have a: "pool s = a # (bs @ rest)" "a \<noteq> NULL" "a \<notin> set xs" using Cons.prems as by auto
  obtain s' where s': "dfs_add n c t s = Some (a, s')" "devices_at s' (a # xs)" "pool s' = bs @ rest"
    by (rule dfs_add_result [OF a(1,2) Cons.prems(1) a(3), of n c t])
  have ad: "add_device i s = s'" using s'(1) i by (simp add: add_device_def)
  have "devs.oks s' is \<and> dfs_adds is s' = Some (devs.adds is s')"
    using Cons.IH [OF s'(2,3)] Cons.prems(3-6) as by auto
  moreover have "device_ok s i" unfolding device_ok_def using Cons.prems(1) a by blast
  ultimately show ?case using s'(1) by (simp add: ad) (simp add: i)
qed simp

section \<open>Removal\<close>

lemma dfs_unlink_result:
  assumes "devices_at s (ys @ d # zs)"
  obtains s' where "dfs_unlink d s = Some s'" "devices_at s' (ys @ zs)" "str_heap s' = str_heap s"
    "\<And>a. dev_name (dev_heap s' a) = dev_name (dev_heap s a)"
    "\<And>a. dev_calltable (dev_heap s' a) = dev_calltable (dev_heap s a)"
    "freed s' = freed s" "pool s' = pool s"
proof (cases ys rule: rev_cases)
  case Nil
  then have "dfs_deviceHead s = d" "chain (\<lambda>a. dev_prev (dev_heap s a)) (dev_prev (dev_heap s d)) zs"
    using assms by auto
  then show thesis using Nil by (intro that [of "s\<lparr>dfs_deviceHead := dev_prev (dev_heap s d)\<rparr>"]) (simp_all add: dfs_unlink_def)
next
  case (snoc ws w)
  let ?n = "\<lambda>a. dev_prev (dev_heap s a)"
  have c: "devices_at s (ws @ w # d # zs)" using assms snoc by simp
  have wd: "w \<noteq> d" using chain_distinct [OF c] by auto
  have w0: "w \<noteq> NULL" using chain_not_null [OF c] by simp
  have hd: "d \<noteq> dfs_deviceHead s" using c wd chain_distinct [OF c] by (cases ws) auto
  have f: "chase ?n (\<lambda>a. ?n a = d) (dfs_deviceHead s) = Some w"
    using chase_chain [OF c] first_match_pred [OF c] by simp
  let ?s = "set_dev w (\<lambda>x. x\<lparr>dev_prev := ?n d\<rparr>) s"
  have "dfs_unlink d s = Some ?s" using hd w0 by (simp add: dfs_unlink_def f)
  moreover have "(\<lambda>a. dev_prev (dev_heap ?s a)) = ?n(w := ?n d)" by (simp add: fun_eq_iff)
  then have "devices_at ?s (ys @ zs)" using chain_remove [OF c] snoc by simp
  ultimately show thesis by (rule that) simp_all
qed

lemma dfs_remove_result:
  assumes "devices_at s (ys @ d # zs)" "\<forall>y \<in> set ys. device_name s y \<noteq> device_name s d"
    "dev_calltable (dev_heap s d) \<noteq> NULL" "dev_name (dev_heap s d) \<noteq> NULL"
  obtains s' where "dfs_remove (device_name s d) s = Some (SUCCESS, s')" "devices_at s' (ys @ zs)"
    "\<And>a. device_name s' a = device_name s a"
    "freed s' = [d, dev_name (dev_heap s d), dev_calltable (dev_heap s d)] @ freed s" "pool s' = pool s"
proof -
  obtain t where t: "dfs_unlink d s = Some t" "devices_at t (ys @ zs)" "str_heap t = str_heap s"
    "\<And>a. dev_name (dev_heap t a) = dev_name (dev_heap s a)"
    "\<And>a. dev_calltable (dev_heap t a) = dev_calltable (dev_heap s a)" "freed t = freed s" "pool t = pool s"
    by (rule dfs_unlink_result [OF assms(1)], rule that)
  have f: "dfs_find (device_name s d) s = Some d"
    unfolding dfs_find_chain [OF assms(1)] using assms(2) by (subst first_match_split) auto
  have d: "d \<noteq> NULL" using chain_not_null [OF assms(1)] by simp
  let ?s = "kfree d (kfree (dev_name (dev_heap s d)) (kfree (dev_calltable (dev_heap s d)) t))"
  have "dfs_remove (device_name s d) s = Some (SUCCESS, ?s)"
    unfolding dfs_remove_def f using d by (simp add: t Let_def)
  then show thesis by (rule that) (use t d assms(3,4) in simp_all)
qed

section \<open>Copying and renaming\<close>

lemma round8_room: "n + 1 \<le> (n + 7) div 8 * 8 \<longleftrightarrow> \<not> 8 dvd n" for n :: nat
  by presburger

lemma dfs_copy_result:
  assumes "devices_at s (ys @ d # zs)" "\<forall>y \<in> set ys. device_name s y \<noteq> device_name s d"
    "pool s = c # n # e # rest" "c \<noteq> NULL" "n \<noteq> NULL" "e \<noteq> NULL" "e \<notin> set (ys @ d # zs)"
  shows "8 dvd length dst \<Longrightarrow> dfs_copy eax (device_name s d) dst s = None"
    and "\<not> 8 dvd length dst \<Longrightarrow> \<exists>s'. dfs_copy eax (device_name s d) dst s = Some (eax, s') \<and> devices_at s' (e # ys @ d # zs) \<and>
      dev_heap s' = (dev_heap s)(e := \<lparr>dev_prev = dfs_deviceHead s, dev_calltable = c, dev_name = n, dev_type = dev_type (dev_heap s d)\<rparr>) \<and>
      str_heap s' = (str_heap s)(n := dst) \<and> io_heap s' = (io_heap s)(c := io_heap s (dev_calltable (dev_heap s d))) \<and>
      freed s' = freed s \<and> pool s' = rest"
proof -
  let ?xs = "ys @ d # zs"
  have f: "dfs_find (device_name s d) s = Some d"
    unfolding dfs_find_chain [OF assms(1)] using assms(2) by (subst first_match_split) auto
  have d: "d \<noteq> NULL" using chain_not_null [OF assms(1)] by simp
  define s1 where "s1 = s\<lparr>pool := n # e # rest, sizes := (sizes s)(c := 32)\<rparr>"
  define s2 where "s2 = s1\<lparr>io_heap := (io_heap s1)(c := io_heap s1 (dev_calltable (dev_heap s1 d)))\<rparr>"
  define s3 where "s3 = s2\<lparr>pool := e # rest, sizes := (sizes s2)(n := (length dst + 7) div 8 * 8)\<rparr>"
  define s4 where "s4 = s3\<lparr>str_heap := (str_heap s3)(n := dst)\<rparr>"
  have k1: "kmalloc 28 s = (c, s1)" using assms(3) by (simp add: kmalloc_pool s1_def)
  have k3: "kmalloc (length dst) s2 = (n, s3)" if "length dst \<noteq> 0"
    using that by (simp add: kmalloc_pool s2_def s1_def s3_def)
  have copy: "dfs_copy eax (device_name s d) dst s =
      (let (name, t) = kmalloc (length dst) s2 in strcpy name dst t \<bind>
         (\<lambda>t. dfs_add name c (dev_type (dev_heap t d)) t \<bind> (\<lambda>(_, t). Some (eax, t))))"
    unfolding dfs_copy_def f using d assms(4) by (simp add: k1 flip: s2_def)
  show "dfs_copy eax (device_name s d) dst s = None" if a: "8 dvd length dst"
  proof (cases "length dst = 0")
    case True
    then show ?thesis unfolding copy by (simp add: kmalloc_def strcpy_def)
  next
    case False
    then show ?thesis unfolding copy k3 [OF False]
      using a round8_room [of "length dst"] by (simp add: strcpy_def s3_def)
  qed
  assume a: "\<not> 8 dvd length dst"
  then have n0: "length dst \<noteq> 0" by (metis dvd_0_right)
  have st: "strcpy n dst s3 = Some s4"
    using a round8_room [of "length dst"] assms(5) by (simp add: strcpy_def s3_def s4_def)
  have h4: "pool s4 = e # rest" "dev_heap s4 = dev_heap s" "dfs_deviceHead s4 = dfs_deviceHead s" "freed s4 = freed s"
    "str_heap s4 = (str_heap s)(n := dst)" "io_heap s4 = (io_heap s)(c := io_heap s (dev_calltable (dev_heap s d)))"
    by (simp_all add: s4_def s3_def s2_def s1_def)
  have "devices_at s4 ?xs" using assms(1) by (simp add: h4)
  then obtain s' where s': "dfs_add n c (dev_type (dev_heap s d)) s4 = Some (e, s')" "devices_at s' (e # ?xs)"
    "str_heap s' = str_heap s4"
    "dev_heap s' = (dev_heap s4)(e := \<lparr>dev_prev = dfs_deviceHead s4, dev_calltable = c, dev_name = n, dev_type = dev_type (dev_heap s d)\<rparr>)"
    "pool s' = rest" "freed s' = freed s4" "io_heap s' = io_heap s4"
    by (rule dfs_add_result [OF h4(1) assms(6) _ assms(7), of n c "dev_type (dev_heap s d)"])
  have "dfs_copy eax (device_name s d) dst s = Some (eax, s')"
    unfolding copy k3 [OF n0] by (simp add: st h4(2) s'(1))
  then show "\<exists>s'. dfs_copy eax (device_name s d) dst s = Some (eax, s') \<and> devices_at s' (e # ?xs) \<and>
      dev_heap s' = (dev_heap s)(e := \<lparr>dev_prev = dfs_deviceHead s, dev_calltable = c, dev_name = n, dev_type = dev_type (dev_heap s d)\<rparr>) \<and>
      str_heap s' = (str_heap s)(n := dst) \<and> io_heap s' = (io_heap s)(c := io_heap s (dev_calltable (dev_heap s d))) \<and>
      freed s' = freed s \<and> pool s' = rest"
    using s'(2-7) unfolding h4 by (intro exI [of _ s'] conjI)
qed

section \<open>Listing\<close>

lemma count_devices_chain: "chain (prv s) p xs \<Longrightarrow> count_devices prv s p c = Some (c + int (length xs))"
  by (induction xs arbitrary: p c) (simp_all add: count_devices.simps [of prv s])

lemma fill_devices_chain:
  "chain (\<lambda>a. dev_prev (dev_heap s a)) p xs \<Longrightarrow> i \<le> length entry \<Longrightarrow>
     fill_devices s p i (int (length xs)) entry =
       (if i + length xs \<le> length entry
        then Some (take i entry @ map (device_entry s) xs @ drop (i + length xs) entry) else None)"
proof (induction xs arbitrary: p i entry)
  case Nil
  then show ?case by (simp add: fill_devices.simps [of s])
next
  case (Cons x xs)
  show ?case
  proof (cases "i < length entry")
    case False
    then show ?thesis using Cons.prems by (simp add: fill_devices.simps [of s])
  next
    case True
    let ?e = "entry[i := device_entry s x]"
    have "fill_devices s p i (int (length (x # xs))) entry =
        fill_devices s (dev_prev (dev_heap s x)) (i + 1) (int (length xs)) ?e"
      using Cons.prems True by (simp add: fill_devices.simps [of s x])
    moreover have "take (i + 1) ?e = take i entry @ [device_entry s x]"
      using True by (simp add: take_Suc_conv_app_nth)
    ultimately show ?thesis using Cons.prems True Cons.IH [of "dev_prev (dev_heap s x)" "i + 1" ?e] by simp
  qed
qed

section \<open>Properties\<close>

text \<open>
  Every device of a sequence of additions is found under its name from then on, unless a later
  one has the same name; a name none of them has is answered as before.
\<close>

theorem dfs_add_find:
  assumes "devices_at s xs" "pool s = as @ rest" "length as = length ((n, c, t) # is)" "distinct as" "NULL \<notin> set as"
    "set as \<inter> set xs = {}" "\<forall>j \<in> set is. str_heap s (fst j) \<noteq> str_heap s n"
  shows "\<exists>s'. dfs_adds ((n, c, t) # is) s = Some s' \<and> dfs_find (str_heap s n) s' = Some (hd as) \<and>
    (\<forall>k. (\<forall>j \<in> set ((n, c, t) # is). str_heap s (fst j) \<noteq> k) \<longrightarrow> dfs_find k s' = dfs_find k s)"
proof -
  let ?is = "(n, c, t) # is"
  have o: "devs.oks s ?is" "dfs_adds ?is s = Some (devs.adds ?is s)"
    using devs_oks [OF assms(1-6)] by blast+
  have k: "dfs_find (str_heap s (fst (n, c, t))) (devs.adds ?is s) = Some (hd (pool s))"
    using o(1) assms(7) by (intro devs.lookup_stays) simp_all
  have "dfs_find k (devs.adds ?is s) = dfs_find k s" if "\<forall>j \<in> set ?is. str_heap s (fst j) \<noteq> k" for k
    unfolding devs.lookup_adds [OF o(1)] by (rule devs.last_addr_other [OF o(1) that])
  moreover have "hd (pool s) = hd as" using assms(2,3) by (cases as) auto
  ultimately show ?thesis using o(2) k by (metis fst_conv)
qed

definition ex_dev :: "(u32 \<Rightarrow> dfs_entry) \<Rightarrow> u32 \<Rightarrow> (u32 \<Rightarrow> string) \<Rightarrow> unit vfs" where
  "ex_dev devs front strs = (ex_state 0x100 ex_mounts ex_strs 0x300 0x320)
     \<lparr>dev_heap := devs, dfs_deviceHead := front, str_heap := strs\<rparr>"

text \<open>Two devices, kbd at 0x500 and vga at 0x510, with their names 4 bytes and their tables 8 bytes behind.\<close>

definition ex_devs :: "u32 \<Rightarrow> dfs_entry" where
  "ex_devs a = \<lparr>dev_prev = (if a = 0x510 then 0x500 else NULL), dev_calltable = a + 8, dev_name = a + 4, dev_type = 1\<rparr>"

definition ex_dev_strs :: "u32 \<Rightarrow> string" where
  "ex_dev_strs a = (if a = 0x504 then ''kbd'' else if a = 0x514 then ''vga'' else if a = 0x524 then ''hd''
     else if a = 0x301 then ''/dev/'' else [])"

abbreviation ex_two :: "unit vfs" where
  "ex_two \<equiv> ex_dev ex_devs 0x510 ex_dev_strs"

lemma ex_dev_simps [simp]:
  "dev_heap (ex_dev d h t) = d" "dfs_deviceHead (ex_dev d h t) = h" "str_heap (ex_dev d h t) = t"
  "pool (ex_dev d h t) = [0x200, 0x210, 0x220, 0x230]" "freed (ex_dev d h t) = []"
  "mp_heap (ex_dev d h t) = ex_mounts" "fs_heap (ex_dev d h t) = ex_fs" "vfs_mpTail (ex_dev d h t) = 0x300"
  by (simp_all add: ex_dev_def)

lemma ex_devs_simps [simp]:
  "dev_prev (ex_devs a) = (if a = 0x510 then 0x500 else NULL)" "dev_calltable (ex_devs a) = a + 8"
  "dev_name (ex_devs a) = a + 4" "dev_type (ex_devs a) = 1"
  by (simp_all add: ex_devs_def)

lemma ex_two_devices: "devices_at ex_two [0x510, 0x500]"
  by simp

theorem dfs_add_find_witness:
  "\<exists>s'. dfs_adds [(0x524, 0x528, 1)] ex_two = Some s' \<and> dfs_find ''hd'' s' = Some 0x200"
  using dfs_add_find [of ex_two "[0x510, 0x500]" "[0x200]" "[0x210, 0x220, 0x230]" "0x524" "0x528" 1 "[]"]
  by (auto simp: ex_dev_strs_def)

text \<open>
  C29. Removing a device takes the newest device of that name out of the list, frees its call table,
  its name and the entry, and leaves the other devices in order, so that an older device of
  the name shows up again; a name that no device has fails and changes nothing.
\<close>

theorem dfs_remove_correct:
  assumes "devices_at s xs"
  shows "((\<forall>x \<in> set xs. device_name s x \<noteq> name) \<longrightarrow> dfs_remove name s = Some (FAIL, s)) \<and>
    (\<forall>ys d zs. xs = ys @ d # zs \<and> (\<forall>y \<in> set ys. device_name s y \<noteq> name) \<and> device_name s d = name \<and>
        dev_calltable (dev_heap s d) \<noteq> NULL \<and> dev_name (dev_heap s d) \<noteq> NULL \<longrightarrow>
      (\<exists>s'. dfs_remove name s = Some (SUCCESS, s') \<and> devices_at s' (ys @ zs) \<and>
        freed s' = [d, dev_name (dev_heap s d), dev_calltable (dev_heap s d)] @ freed s \<and>
        dfs_find name s' = Some (first_match (\<lambda>a. device_name s a = name) zs) \<and>
        (\<forall>k. k \<noteq> name \<longrightarrow> dfs_find k s' = dfs_find k s)))"
proof (intro conjI impI allI)
  assume a: "\<forall>x \<in> set xs. device_name s x \<noteq> name"
  have "first_match (\<lambda>b. device_name s b = name) xs = NULL" using a by (induction xs) auto
  then show "dfs_remove name s = Some (FAIL, s)"
    by (simp add: dfs_remove_def dfs_find_chain [OF assms])
next
  fix ys d zs
  assume a: "xs = ys @ d # zs \<and> (\<forall>y \<in> set ys. device_name s y \<noteq> name) \<and> device_name s d = name \<and>
        dev_calltable (dev_heap s d) \<noteq> NULL \<and> dev_name (dev_heap s d) \<noteq> NULL"
  then have c: "devices_at s (ys @ d # zs)" using assms by blast
  obtain s' where s': "dfs_remove name s = Some (SUCCESS, s')" "devices_at s' (ys @ zs)"
    "\<And>a. device_name s' a = device_name s a"
    "freed s' = [d, dev_name (dev_heap s d), dev_calltable (dev_heap s d)] @ freed s"
    using dfs_remove_result [OF c] a by metis
  have f: "dfs_find k s' = Some (first_match (\<lambda>b. device_name s b = k) (ys @ zs))" for k
    unfolding dfs_find_chain [OF s'(2)] by (simp add: s'(3))
  have "dfs_find name s' = Some (first_match (\<lambda>b. device_name s b = name) zs)"
    unfolding f using a by (subst first_match_append) auto
  moreover have "dfs_find k s' = dfs_find k s" if "k \<noteq> name" for k
    unfolding f dfs_find_chain [OF c] using that a by (subst first_match_drop) auto
  ultimately show "\<exists>s'. dfs_remove name s = Some (SUCCESS, s') \<and> devices_at s' (ys @ zs) \<and>
        freed s' = [d, dev_name (dev_heap s d), dev_calltable (dev_heap s d)] @ freed s \<and>
        dfs_find name s' = Some (first_match (\<lambda>a. device_name s a = name) zs) \<and>
        (\<forall>k. k \<noteq> name \<longrightarrow> dfs_find k s' = dfs_find k s)"
    using s'(1,2,4) by blast
qed

theorem dfs_remove_correct_witness:
  "\<exists>s'. dfs_remove ''kbd'' ex_two = Some (SUCCESS, s') \<and> devices_at s' [0x510] \<and> dfs_find ''kbd'' s' = Some NULL"
proof -
  note p = dfs_remove_correct [OF ex_two_devices, of "''kbd''"]
  have "[0x510, 0x500] = [0x510] @ 0x500 # ([] :: u32 list)" by simp
  then show ?thesis using p [THEN conjunct2, rule_format, of "[0x510]" "0x500" "[]"] by (auto simp: ex_dev_strs_def)
qed

text \<open>
  Copying a device needs a name whose length is not a multiple of eight: for such a name the buffer
  is one byte too short and the copy of the name overruns it. Otherwise the copy is found under its
  name and has the type and the I/O table of the original, but the answer is whatever the
  result register held: when that is \<open>FAIL\<close>, a rename reports failure with the copy made and
  the original still there, else it removes the original.
\<close>

theorem dfs_copy_rename:
  assumes "devices_at s (ys @ d # zs)" "\<forall>y \<in> set ys. device_name s y \<noteq> src" "device_name s d = src"
    "pool s = c # n # e # rest" "c \<noteq> NULL" "n \<noteq> NULL" "e \<noteq> NULL" "e \<notin> set (ys @ d # zs)"
    "n \<notin> (\<lambda>a. dev_name (dev_heap s a)) ` set (ys @ d # zs)" "src \<noteq> dst"
    "dev_calltable (dev_heap s d) \<noteq> NULL" "dev_name (dev_heap s d) \<noteq> NULL"
  shows "if 8 dvd length dst then dfs_copy eax src dst s = None \<and> dfs_rename eax src dst s = None
    else (\<exists>s'. dfs_copy eax src dst s = Some (eax, s') \<and> devices_at s' (e # ys @ d # zs) \<and> dfs_find dst s' = Some e \<and>
      dev_type (dev_heap s' e) = dev_type (dev_heap s d) \<and>
      io_heap s' (dev_calltable (dev_heap s' e)) = io_heap s (dev_calltable (dev_heap s d)) \<and>
      (if eax = FAIL then dfs_rename eax src dst s = Some (FAIL, s')
       else \<exists>s''. dfs_rename eax src dst s = Some (SUCCESS, s'') \<and> devices_at s'' (e # ys @ zs) \<and> dfs_find dst s'' = Some e))"
proof (cases "8 dvd length dst")
  case True
  then have "dfs_copy eax src dst s = None" using dfs_copy_result(1) [OF assms(1) _ assms(4-8)] assms(2,3) by simp
  then show ?thesis using True by (simp add: dfs_rename_def)
next
  case False
  obtain s' where c: "dfs_copy eax src dst s = Some (eax, s')" and l: "devices_at s' (e # ys @ d # zs)"
    and h: "dev_heap s' = (dev_heap s)(e := \<lparr>dev_prev = dfs_deviceHead s, dev_calltable = c, dev_name = n, dev_type = dev_type (dev_heap s d)\<rparr>)"
      "str_heap s' = (str_heap s)(n := dst)" "io_heap s' = (io_heap s)(c := io_heap s (dev_calltable (dev_heap s d)))"
    using dfs_copy_result(2) [OF assms(1) _ assms(4-8) False, of eax] assms(2,3) by blast
  have names: "device_name s' x = device_name s x" if "x \<in> set (ys @ d # zs)" for x
    using that assms(8,9) by (auto simp: h)
  have ne: "device_name s' e = dst" by (simp add: h)
  have fd: "dfs_find dst s' = Some e" unfolding dfs_find_chain [OF l] using ne by simp
  have de: "d \<noteq> e" using assms(8) by auto
  have l2: "devices_at s' ((e # ys) @ d # zs)" using l by simp
  have src: "device_name s' d = src" using names [of d] assms(3) by simp
  have first: "\<forall>y \<in> set (e # ys). device_name s' y \<noteq> device_name s' d"
    using names assms(2,10) ne unfolding src by auto
  have ren: "\<exists>s''. dfs_rename eax src dst s = Some (SUCCESS, s'') \<and> devices_at s'' (e # ys @ zs) \<and> dfs_find dst s'' = Some e"
    if "eax \<noteq> FAIL"
  proof -
    have ct: "dev_calltable (dev_heap s' d) \<noteq> NULL" "dev_name (dev_heap s' d) \<noteq> NULL"
      using de assms(11,12) by (simp_all add: h)
    obtain s'' where r: "dfs_remove src s' = Some (SUCCESS, s'')" "devices_at s'' ((e # ys) @ zs)"
      "\<And>a. device_name s'' a = device_name s' a"
      by (rule dfs_remove_result [OF l2 first ct, unfolded src], rule that)
    have "dfs_find dst s'' = Some e" unfolding dfs_find_chain [OF r(2)] using ne r(3) by simp
    then show ?thesis using r that by (simp add: dfs_rename_def c dfs_delete_def)
  qed
  have "dfs_rename eax src dst s = Some (FAIL, s')" if "eax = FAIL" using c that by (simp add: dfs_rename_def)
  then have r: "if eax = FAIL then dfs_rename eax src dst s = Some (FAIL, s')
       else \<exists>s''. dfs_rename eax src dst s = Some (SUCCESS, s'') \<and> devices_at s'' (e # ys @ zs) \<and> dfs_find dst s'' = Some e"
    using ren by simp
  have "dev_type (dev_heap s' e) = dev_type (dev_heap s d)"
    "io_heap s' (dev_calltable (dev_heap s' e)) = io_heap s (dev_calltable (dev_heap s d))"
    by (simp_all add: h)
  with c l fd r show ?thesis unfolding if_not_P [OF False] by (intro exI [of _ s'] conjI)
qed

theorem dfs_copy_rename_witness:
  "dfs_copy 5 ''kbd'' ''keyboard'' ex_two = None \<and> (\<exists>s'. dfs_rename 5 ''kbd'' ''key'' ex_two = Some (SUCCESS, s') \<and> devices_at s' [0x220, 0x510])"
proof -
  have p: "if 8 dvd length dst then dfs_copy 5 ''kbd'' dst ex_two = None \<and> dfs_rename 5 ''kbd'' dst ex_two = None
    else (\<exists>s'. dfs_copy 5 ''kbd'' dst ex_two = Some (5, s') \<and> devices_at s' (0x220 # [0x510] @ 0x500 # []) \<and> dfs_find dst s' = Some 0x220 \<and>
      dev_type (dev_heap s' 0x220) = dev_type (dev_heap ex_two 0x500) \<and>
      io_heap s' (dev_calltable (dev_heap s' 0x220)) = io_heap ex_two (dev_calltable (dev_heap ex_two 0x500)) \<and>
      (if (5 :: int) = FAIL then dfs_rename 5 ''kbd'' dst ex_two = Some (FAIL, s')
       else \<exists>s''. dfs_rename 5 ''kbd'' dst ex_two = Some (SUCCESS, s'') \<and> devices_at s'' (0x220 # [0x510] @ []) \<and> dfs_find dst s'' = Some 0x220))"
    if "dst \<noteq> ''kbd''" for dst
    using that by (intro dfs_copy_rename [of ex_two "[0x510]" "0x500" "[]" "''kbd''" "0x200" "0x210"])
      (auto simp: ex_dev_strs_def)
  have l: "length ''keyboard'' = 8" "length ''key'' = 3" by simp_all
  have "dfs_copy 5 ''kbd'' ''keyboard'' ex_two = None" using p [of "''keyboard''"] unfolding l by simp
  moreover have "\<exists>s'. dfs_rename 5 ''kbd'' ''key'' ex_two = Some (SUCCESS, s') \<and> devices_at s' [0x220, 0x510]"
    using p [of "''key''"] unfolding l by (simp add: FAIL_def) blast
  ultimately show ?thesis by blast
qed

text \<open>
  Listing a directory of the device file system counts the devices, whatever the directory, and
  answers NULL when there are none. Up to 30 devices it fills an array of 32 entries with the two
  dot entries and the devices, newest first; with more it writes past the array.
\<close>

theorem dfs_list_correct:
  assumes "devices_at s xs" "pool s = e # rest" "e \<noteq> NULL"
  shows "if xs = [] then dfs_list s = Some (NULL, s)
    else if 30 < length xs then dfs_list s = None
    else \<exists>s'. dfs_list s = Some (e, s') \<and> pool s' = rest \<and> length (dirlist_heap s' e) = 32 \<and>
      map de_name (take (2 + length xs) (dirlist_heap s' e)) =
        [''.'', ''..''] @ map (\<lambda>a. take VFS_NAMESIZE (device_name s a)) xs \<and>
      map de_attributes (take (2 + length xs) (dirlist_heap s' e)) =
        [VFS_DIRECTORY, VFS_DIRECTORY] @ replicate (length xs) VFS_DEVICE"
proof -
  have c: "count_devices (\<lambda>s a. dev_prev (dev_heap s a)) s (dfs_deviceHead s) 0 = Some (int (length xs))"
    using count_devices_chain [of "\<lambda>s a. dev_prev (dev_heap s a)" s, OF assms(1)] by simp
  define t where "t = s\<lparr>pool := rest, sizes := (sizes s)(e := 1280)\<rparr>"
  have k: "kmalloc (40 * 32) s = (e, t)" using assms(2) by (simp add: kmalloc_pool t_def)
  let ?z = "\<lparr>de_name = [], de_attributes = 0, de_size = 0\<rparr>"
  let ?en = "(replicate 32 ?z)[0 := \<lparr>de_name = ''.'', de_attributes = VFS_DIRECTORY, de_size = 0\<rparr>,
     1 := \<lparr>de_name = ''..'', de_attributes = VFS_DIRECTORY, de_size = 0\<rparr>]"
  have h: "dfs_deviceHead t = dfs_deviceHead s" "dev_heap t = dev_heap s" "str_heap t = str_heap s" "pool t = rest"
    by (simp_all add: t_def)
  have f: "fill_devices t (dfs_deviceHead s) 2 (int (length xs)) ?en =
      (if 2 + length xs \<le> 32 then Some (take 2 ?en @ map (device_entry t) xs @ drop (2 + length xs) ?en) else None)"
    using fill_devices_chain [of t "dfs_deviceHead s" xs 2 ?en] assms(1) by (simp add: h)
  have t2: "take 2 ?en = [\<lparr>de_name = ''.'', de_attributes = VFS_DIRECTORY, de_size = 0\<rparr>,
      \<lparr>de_name = ''..'', de_attributes = VFS_DIRECTORY, de_size = 0\<rparr>]"
    by (simp add: numeral_eq_Suc)
  let ?l = "take 2 ?en @ map (device_entry t) xs @ drop (2 + length xs) ?en"
  have l: "dfs_list s = (if xs = [] then Some (NULL, s) else if 2 + length xs \<le> 32
      then Some (e, t\<lparr>dirlist_heap := (dirlist_heap t)(e := ?l)\<rparr>) else None)"
    unfolding dfs_list_def c k using assms(3) f by (simp add: h)
  have "map de_name (take (2 + length xs) ?l) = [''.'', ''..''] @ map (\<lambda>a. take VFS_NAMESIZE (device_name s a)) xs"
    "map de_attributes (take (2 + length xs) ?l) = [VFS_DIRECTORY, VFS_DIRECTORY] @ replicate (length xs) VFS_DEVICE"
    unfolding t2 by (simp_all add: device_entry_def h comp_def map_replicate_const)
  moreover have "length xs \<le> 30 \<Longrightarrow> length ?l = 32" by simp
  ultimately show ?thesis unfolding l by (simp add: h)
qed

theorem dfs_list_correct_witness:
  "\<exists>s'. dfs_list ex_two = Some (0x200, s') \<and> map de_name (take 4 (dirlist_heap s' 0x200)) = [''.'', ''..'', ''vga'', ''kbd'']"
proof -
  have ne: "([0x510, 0x500] :: u32 list) = [] \<longleftrightarrow> False" "30 < length ([0x510, 0x500] :: u32 list) \<longleftrightarrow> False"
    "2 + length ([0x510, 0x500] :: u32 list) = 4" by simp_all
  have names: "map (\<lambda>a. take VFS_NAMESIZE (device_name ex_two a)) [0x510, 0x500] = [''vga'', ''kbd'']"
    by (simp add: ex_dev_strs_def VFS_NAMESIZE_def)
  have "pool ex_two = 0x200 # [0x210, 0x220, 0x230]" by simp
  from dfs_list_correct [OF ex_two_devices this, unfolded ne if_False names]
  obtain s' where "dfs_list ex_two = Some (0x200, s')"
    "map de_name (take 4 (dirlist_heap s' 0x200)) = [''.'', ''..''] @ [''vga'', ''kbd'']" by auto
  then show ?thesis by auto
qed

text \<open>
  C30. The way of a name through the switch to a device, outside append mode. What the I/O subsystem does
  for a device \<open>x\<close> of the list is arbitrary: it answers \<open>P x\<close> and leaves the state \<open>T x\<close>, as long as it leaves
  handles, mount points and file systems alone. Opening a name behind the mount point of the device file
  system, whose table has the four calls, opens with it the newest device of that name, and no other: the handle is answered with that
  device's own answer in it, reads (when the mode allows them) and the close through the handle reach the I/O subsystem with
  that answer, and the close frees the handle. When the I/O subsystem refuses, and when no device has the
  name, nothing is created: the answer is NULL and the handle is freed.
\<close>

theorem device_open_read_close:
  assumes "resolve_name (mp @ name) s = Some m" "m \<noteq> NULL" "mount_name s m = mp" "\<forall>g \<in> {ct_open, ct_read, ct_close, ct_create}. g (mount_calls s m) \<noteq> NULL"
    "pool s = h # rest" "h \<noteq> NULL" "devices_at s xs" "mode AND VFS_MODE_APPEND \<noteq> VFS_MODE_APPEND"
    "\<forall>x \<in> set xs. io_open io x (new_handle h m mode s) = Some (P x, T x) \<and> handle_heap (T x) = handle_heap (new_handle h m mode s) \<and>
       mp_heap (T x) = mp_heap s \<and> fs_heap (T x) = fs_heap s"
    "d = first_match (\<lambda>x. device_name s x = name) xs" "t = set_handle h (\<lambda>x. x\<lparr>h_data_ptr := P d\<rparr>) (T d)"
  shows "if d = NULL then vfs_open (dfs_driver io eax) (mp @ name) mode s = Some (NULL, kfree h (new_handle h m mode s))
    else if P d = NULL then vfs_open (dfs_driver io eax) (mp @ name) mode s = Some (NULL, kfree h t)
    else vfs_open (dfs_driver io eax) (mp @ name) mode s = Some (h, t) \<and>
      (mode AND VFS_MODE_READ = VFS_MODE_READ \<longrightarrow> (\<forall>buf n. vfs_read (dfs_driver io eax) h buf n t = io_read io (P d) buf n t)) \<and>
      vfs_close (dfs_driver io eax) h t = map_option (\<lambda>(r, t). (r, kfree h t)) (io_close io (P d) t)"
proof -
  let ?D = "dfs_driver io eax"
  define s1 where "s1 = new_handle h m mode s"
  have s1: "mp_heap s1 = mp_heap s" "fs_heap s1 = fs_heap s" "str_heap s1 = str_heap s" "dev_heap s1 = dev_heap s"
    "dfs_deviceHead s1 = dfs_deviceHead s" "h_mount (handle_heap s1 h) = m" "h_mode (handle_heap s1 h) = mode"
    by (simp_all add: s1_def new_handle_def)
  have o: "vfs_open ?D (mp @ name) mode s = open_handle ?D m h (mp @ name) s1"
    unfolding vfs_open_def assms(1) s1_def using assms(2,4,5,6)
    by (simp add: kmalloc_pool set_handle_def new_handle_def)
  have f: "dfs_find name s1 = Some d"
    using dfs_find_chain [of s1 xs name] assms(7,10) by (simp add: s1)
  have b: "behind_mount s1 m (mp @ name) = name" using assms(3) by (simp add: behind_mount_def s1)
  show ?thesis
  proof (cases "d = NULL")
    case True
    then have "dfs_open io h name s1 = Some (NULL, s1)" by (simp add: dfs_open_def f)
    then have "open_handle ?D m h (mp @ name) s1 = Some (NULL, kfree h s1)"
      by (simp add: open_handle_def dfs_driver_def b dfs_create_def)
    then show ?thesis using True o by (simp add: s1_def)
  next
    case False
    then have "d \<in> set xs" using first_match_in [of "\<lambda>x. device_name s x = name" xs] assms(10) by simp
    then have io: "io_open io d s1 = Some (P d, T d)" "handle_heap (T d) = handle_heap s1" "mp_heap (T d) = mp_heap s"
      "fs_heap (T d) = fs_heap s" using assms(9) by (simp_all add: s1_def)
    have do: "dfs_open io h name s1 = Some (if P d = NULL then NULL else h, t)"
      unfolding dfs_open_def f using False io(1) assms(11) by simp
    have t: "h_mode (handle_heap t h) = mode" "h_mount (handle_heap t h) = m" "h_data_ptr (handle_heap t h) = P d"
      "mount_calls t m = mount_calls s m"
      using s1 io(2-4) assms(11) by (simp_all add: set_handle_def mount_calls_def)
    show ?thesis
    proof (cases "P d = NULL")
      case True
      then have "open_handle ?D m h (mp @ name) s1 = Some (NULL, kfree h t)"
        using do by (simp add: open_handle_def dfs_driver_def b dfs_create_def)
      then show ?thesis using False True o by simp
    next
      case p: False
      have op: "open_handle ?D m h (mp @ name) s1 = Some (h, t)"
        using do p assms(6,8) t(1) by (simp add: open_handle_def dfs_driver_def b seek_if_append_def has_mode_def)
      have rd: "vfs_read ?D h buf n t = io_read io (P d) buf n t" if "mode AND VFS_MODE_READ = VFS_MODE_READ" for buf n
        using assms(4,6) that t by (simp add: vfs_read_def has_mode_def handle_calls_def dfs_driver_def dfs_read_def)
      have "vfs_close ?D h t = map_option (\<lambda>(r, t). (r, kfree h t)) (io_close io (P d) t)"
        using assms(4,6) t by (cases "io_close io (P d) t") (auto simp: vfs_close_def handle_calls_def dfs_driver_def dfs_close_def)
      then show ?thesis using False p o op rd by simp
    qed
  qed
qed

definition ex_io :: "unit io" where
  "ex_io = \<lparr>io_open = \<lambda>d s. Some (d + 1, s), io_close = \<lambda>p s. Some (SUCCESS, s), io_clone = \<lambda>p q s. Some (SUCCESS, q, s),
     io_read = \<lambda>p b n s. Some (uint n, s), io_write = \<lambda>p b n s. Some (uint n, s), io_seek = \<lambda>p x y s. Some (SUCCESS, s),
     io_control = \<lambda>p x y s. Some (SUCCESS, s)\<rparr>"

text \<open>The newest device, vga, is not the one named: the handle gets the answer for kbd, 0x501.\<close>

theorem device_open_read_close_witness:
  "\<exists>t. vfs_open (dfs_driver ex_io 0) ''/dev/kbd'' VFS_MODE_READ ex_two = Some (0x200, t) \<and>
     h_data_ptr (handle_heap t 0x200) = 0x501 \<and> vfs_read (dfs_driver ex_io 0) 0x200 0 7 t = Some (7, t)"
proof -
  have r: "resolve_name (''/dev/'' @ ''kbd'') ex_two = Some 0x300"
    by (simp add: resolve_name_def VFS_MAXFILENAME_def vfs_file2mountpoint_def chase.simps ex_mounts_def ex_dev_strs_def)
  have n: "mount_name ex_two 0x300 = ''/dev/''" by (simp add: ex_mounts_def ex_dev_strs_def)
  have g: "\<forall>g \<in> {ct_open, ct_read, ct_close, ct_create}. g (mount_calls ex_two 0x300) \<noteq> NULL"
    by (simp add: mount_calls_def ex_mounts_def ex_defs)
  have d: "0x500 = first_match (\<lambda>x. device_name ex_two x = ''kbd'') [0x510, 0x500]" by (simp add: ex_dev_strs_def)
  define s1 where "s1 = new_handle 0x200 0x300 VFS_MODE_READ ex_two"
  define t where "t = set_handle 0x200 (\<lambda>x. x\<lparr>h_data_ptr := 0x500 + 1\<rparr>) s1"
  have io: "\<forall>x \<in> set [0x510, 0x500]. io_open ex_io x s1 = Some (x + 1, s1) \<and> handle_heap s1 = handle_heap s1 \<and>
      mp_heap s1 = mp_heap ex_two \<and> fs_heap s1 = fs_heap ex_two"
    by (simp add: ex_io_def s1_def new_handle_def)
  have "vfs_open (dfs_driver ex_io 0) (''/dev/'' @ ''kbd'') VFS_MODE_READ ex_two = Some (0x200, t) \<and>
      (\<forall>buf n. vfs_read (dfs_driver ex_io 0) 0x200 buf n t = io_read ex_io (0x500 + 1) buf n t)"
    using device_open_read_close [OF r _ n g _ _ _ _ io [unfolded s1_def] d refl, of "[0x210, 0x220, 0x230]" 0]
    by (simp add: vfs_modes t_def s1_def)
  then show ?thesis by (simp add: ex_io_def) (simp add: t_def set_handle_def)
qed

text \<open>
  Starting the switch registers the driver of the device file system and then mounts it with a null
  pointer as the device, whose length the mounting takes: unless the mount point itself cannot
  be allocated, the call never completes, and no other file system is started.
\<close>

theorem vfs_init_null_device:
  assumes "pool s = f # m # a # rest" "f \<noteq> NULL" "m \<noteq> NULL" "a \<noteq> NULL"
  shows "vfs_init io eax calls fat_init s = None \<and>
    (\<exists>t. dfs_init calls s = Some (SUCCESS, t) \<and> vfs_find DFS_TYPE t = Some f \<and> fs_calltable (fs_heap t f) = calls)"
proof -
  define s1 where "s1 = set_fs f (\<lambda>x. x\<lparr>fs_type := DFS_TYPE, fs_calltable := calls\<rparr>)
    (s\<lparr>pool := m # a # rest, sizes := (sizes s)(f := 64)\<rparr>)"
  define t where "t = snd (vfs_register f s1)"
  have k: "kmalloc 64 s = (f, s\<lparr>pool := m # a # rest, sizes := (sizes s)(f := 64)\<rparr>)"
    using assms(1) by (simp add: kmalloc_pool)
  have i: "dfs_init calls s = Some (SUCCESS, t)"
    unfolding dfs_init_def k using assms(2) by (simp add: t_def s1_def vfs_register_def Let_def)
  have t: "vfs_fsHead t = f" "fs_type (fs_heap t f) = DFS_TYPE" "fs_calltable (fs_heap t f) = calls" "pool t = m # a # rest"
    by (simp_all add: t_def vfs_register_def s1_def set_fs_def Let_def)
  have find: "vfs_find DFS_TYPE (t\<lparr>pool := x, sizes := y\<rparr>) = Some f" for x y
    using t assms(2) by (simp add: vfs_find_def chase.simps [of _ _ f])
  have find0: "vfs_find DFS_TYPE t = Some f" using t assms(2) by (simp add: vfs_find_def chase.simps [of _ _ f])
  have "vfs_mount D None name DFS_TYPE t = None" for D :: "'a drivers" and name
    using assms(2-4) t(4) room_for_string [of "length name + 1"]
    by (simp add: vfs_mount_def kmalloc_pool find Let_def strcpy_def)
  then have "vfs_init io eax calls fat_init s = None" by (simp add: vfs_init_def i)
  with i find0 t(3) show ?thesis by blast
qed

theorem vfs_init_null_device_witness:
  "vfs_init ex_io 0 ex_calls Some ex_two = None"
  using vfs_init_null_device [of ex_two "0x200" "0x210" "0x220" "[0x230]" ex_io 0 ex_calls Some] by simp

end
