(* ===== verification/Heap.thy ===== *)
theory Heap
  imports Chain PageMem Physical "HOL-Library.Signed_Division" "HOL-Library.Monad_Syntax"
begin

text \<open>
  The kernel heap: MimicOS/src/kernel/mm/mm.c with MimicOS/include/kernel/mm/mm.h. The heap is a
  list of items in memory, each a header of three words before its data. Memory is the kernel's
  virtual memory; the pages behind the heap come from the physical page allocator, and
  \<open>paging_map\<close>, which the repository declares but does not define, is a log of what is mapped.
\<close>

section \<open>The model\<close>

definition KERNEL_HEAP_VADDRESS :: u32 where "KERNEL_HEAP_VADDRESS = 0xD0000000"
definition PAGE_SIZE :: u32 where "PAGE_SIZE = SIZE_4KB"

text \<open>
  The kernel process's heap, the memory, the page allocator with its log, and the pages mapped so
  far: linear address, physical address, present.
\<close>

record mm =
  heap_base :: u32
  heap_top :: u32
  hp_mem :: memory
  hp_phys :: phys
  hp_maps :: "(u32 \<times> u32 \<times> bool) list"

definition hp_emit :: "event \<Rightarrow> mm \<Rightarrow> mm" where
  "hp_emit e s = s\<lparr>hp_phys := emit e (hp_phys s)\<rparr>"

text \<open>\<open>struct MM_HEAPITEM\<close>: next, size and used, four bytes each.\<close>

definition HEAPITEM_SIZE :: u32 where "HEAPITEM_SIZE = 12"

definition item_next :: "memory \<Rightarrow> u32 \<Rightarrow> u32" where "item_next m a = load32 m a"
definition item_size :: "memory \<Rightarrow> u32 \<Rightarrow> u32" where "item_size m a = load32 m (a + 4)"
definition item_used :: "memory \<Rightarrow> u32 \<Rightarrow> bool" where "item_used m a \<longleftrightarrow> load32 m (a + 8) \<noteq> 0"

definition put_next :: "u32 \<Rightarrow> u32 \<Rightarrow> memory \<Rightarrow> memory" where "put_next a v m = store32 m a v"
definition put_size :: "u32 \<Rightarrow> u32 \<Rightarrow> memory \<Rightarrow> memory" where "put_size a v m = store32 m (a + 4) v"
definition put_used :: "u32 \<Rightarrow> bool \<Rightarrow> memory \<Rightarrow> memory" where
  "put_used a b m = store32 m (a + 8) (if b then 1 else 0)"

subsection \<open>Growing\<close>

fun morecore_pages :: "nat \<Rightarrow> mm \<Rightarrow> mm option" where
  "morecore_pages 0 s = Some s"
| "morecore_pages (Suc pages) s = do {
     (physicalAddress, ph) \<leftarrow> physical_pageAlloc (hp_phys s);
     let s = s\<lparr>hp_phys := ph, hp_maps := hp_maps s @ [(heap_top s, physicalAddress, True)]\<rparr>;
     let s = s\<lparr>hp_mem := memset (hp_mem s) (heap_top s) 0x00 (unat PAGE_SIZE)\<rparr>;
     morecore_pages pages (s\<lparr>heap_top := heap_top s + PAGE_SIZE\<rparr>)
   }"

definition mm_morecore :: "u32 \<Rightarrow> mm \<Rightarrow> (u32 \<times> mm) option" where
  "mm_morecore n s =
     (let pages = unat (n div PAGE_SIZE) + 1;
          s = (if heap_top s = NULL then s\<lparr>heap_top := heap_base s\<rparr> else s);
          prevTop = heap_top s
      in map_option (\<lambda>s. (prevTop, s)) (morecore_pages pages s))"

subsection \<open>Freeing\<close>

text \<open>The inner \<open>while\<close>: merge an item with the free items right behind it in the list.\<close>

partial_function (option) merge_free :: "u32 \<Rightarrow> memory \<Rightarrow> memory option" where
  "merge_free tmp_item m =
     (if \<not> item_used m tmp_item \<and> item_next m tmp_item \<noteq> NULL \<and> \<not> item_used m (item_next m tmp_item)
      then let m = put_size tmp_item (item_size m tmp_item + (HEAPITEM_SIZE + item_size m (item_next m tmp_item))) m;
               m = put_next tmp_item (item_next m (item_next m tmp_item)) m
           in merge_free tmp_item m
      else Some m)"

partial_function (option) coalesce :: "u32 \<Rightarrow> memory \<Rightarrow> memory option" where
  "coalesce tmp_item m =
     (if tmp_item = NULL then Some m
      else Option.bind (merge_free tmp_item m) (\<lambda>m. coalesce (item_next m tmp_item) m))"

definition mm_kfree :: "u32 \<Rightarrow> mm \<Rightarrow> mm option" where
  "mm_kfree address s =
     (if address = NULL then Some s
      else do {
        let s = hp_emit (mutex_lock mm_kmallocLock) s;
        let item = address - HEAPITEM_SIZE;
        tmp_item \<leftarrow> chase (item_next (hp_mem s)) (\<lambda>a. a = item) (heap_base s);
        m \<leftarrow> (if tmp_item = NULL then Some (hp_mem s)
             else coalesce (heap_base s) (put_used tmp_item False (hp_mem s)));
        Some (hp_emit (mutex_unlock mm_kmallocLock) (s\<lparr>hp_mem := m\<rparr>))
      })"

subsection \<open>Allocating\<close>

definition total_size :: "u32 \<Rightarrow> u32" where
  "total_size n = ((n + 7) AND NOT 7) + HEAPITEM_SIZE"

text \<open>
  The size of the free item behind a new one at the end of the heap, where \<open>total_size\<close> is a signed
  integer.
\<close>

definition leftover_size :: "u32 \<Rightarrow> u32" where
  "leftover_size tot =
     (let r = word_of_int (sint tot smod uint PAGE_SIZE) :: u32
      in PAGE_SIZE - (if r \<noteq> 0 then r else tot) - HEAPITEM_SIZE)"

definition find_fit :: "u32 \<Rightarrow> mm \<Rightarrow> u32 option" where
  "find_fit tot s =
     (if heap_top s \<noteq> NULL
      then chase (item_next (hp_mem s)) (\<lambda>a. \<not> item_used (hp_mem s) a \<and> tot \<le> item_size (hp_mem s) a) (heap_base s)
      else Some NULL)"

definition mm_kmalloc :: "u32 \<Rightarrow> mm \<Rightarrow> (u32 \<times> mm) option" where
  "mm_kmalloc n s =
     (if n = 0 then Some (NULL, s)
      else do {
        let s = hp_emit (mutex_lock mm_kmallocLock) s;
        let tot = total_size n;
        new_item \<leftarrow> find_fit tot s;
        (new_item, s) \<leftarrow>
          (if new_item \<noteq> NULL
           then let tmp_item = new_item + tot; m = hp_mem s;
                    m = put_size tmp_item (item_size m new_item - tot) m;
                    m = put_used tmp_item False m;
                    m = put_next tmp_item (item_next m new_item) m
                in Some (new_item, s\<lparr>hp_mem := m\<rparr>)
           else do {
             (new_item, s) \<leftarrow> mm_morecore tot s;
             Some (new_item, if new_item = NULL then s else
               let tmp_item = new_item + tot; m = hp_mem s;
                   m = put_size tmp_item (leftover_size tot) m;
                   m = put_used tmp_item False m;
                   m = put_next tmp_item NULL m
               in s\<lparr>hp_mem := m\<rparr>)
           });
        if new_item = NULL then Some (NULL, hp_emit (mutex_unlock mm_kmallocLock) s)
        else let m = put_size new_item n (hp_mem s);
                 m = put_used new_item True m;
                 m = put_next new_item (new_item + tot) m
             in Some (new_item + HEAPITEM_SIZE, hp_emit (mutex_unlock mm_kmallocLock) (s\<lparr>hp_mem := m\<rparr>))
      })"

subsection \<open>Start-up and physical copies\<close>

text \<open>
  \<open>segmentation_init\<close>, \<open>paging_init\<close> and \<open>paging_mapQuick\<close> are declared by the repository and not
  defined in it: arguments. The answer of \<open>physical_init\<close> is ignored.
\<close>

definition mm_init :: "(mm \<Rightarrow> mm) \<Rightarrow> (mm \<Rightarrow> mm) \<Rightarrow> u32 \<Rightarrow> u32 \<Rightarrow> multiboot_info \<Rightarrow> mm \<Rightarrow> (int \<times> mm) option" where
  "mm_init segmentation_init paging_init start_sym end_sym m s = do {
     (_, ph) \<leftarrow> physical_init start_sym end_sym m (hp_phys s);
     let s = paging_init (segmentation_init (s\<lparr>hp_phys := ph\<rparr>));
     let s = s\<lparr>heap_base := KERNEL_HEAP_VADDRESS, heap_top := NULL\<rparr>;
     Some (SUCCESS, hp_emit (mutex_init mm_kmallocLock) s)
   }"

definition mm_pmemcpyto :: "(u32 \<Rightarrow> mm \<Rightarrow> u32 \<times> mm) \<Rightarrow> u32 \<Rightarrow> u32 \<Rightarrow> u32 \<Rightarrow> mm \<Rightarrow> mm" where
  "mm_pmemcpyto paging_mapQuick dst_paddress src_vaddress n s =
     (let s = hp_emit interrupt_disableAll s;
          (tmpAddress, s) = paging_mapQuick dst_paddress s;
          s = s\<lparr>hp_mem := memcpy (hp_mem s) tmpAddress (hp_mem s) src_vaddress (unat n)\<rparr>
      in hp_emit interrupt_enableAll s)"

definition mm_pmemcpyfrom :: "(u32 \<Rightarrow> mm \<Rightarrow> u32 \<times> mm) \<Rightarrow> u32 \<Rightarrow> u32 \<Rightarrow> u32 \<Rightarrow> mm \<Rightarrow> mm" where
  "mm_pmemcpyfrom paging_mapQuick dst_vaddress src_paddress n s =
     (let s = hp_emit interrupt_disableAll s;
          (tmpAddress, s) = paging_mapQuick src_paddress s;
          s = s\<lparr>hp_mem := memcpy (hp_mem s) dst_vaddress (hp_mem s) tmpAddress (unat n)\<rparr>
      in hp_emit interrupt_enableAll s)"

end
