(* ===== verification/HeapProps.thy ===== *)
theory HeapProps
  imports Heap PhysicalInit
begin

text \<open>
  Properties of the kernel heap: the headers of the items as fields in memory, the invariant that
  the items follow each other without overlap below the top of the heap, and the abstract heap, a
  list of addresses, sizes and use marks, that \<open>mm_kmalloc\<close> and \<open>mm_kfree\<close> implement.
\<close>

section \<open>Headers\<close>

lemma aligned4_add: "aligned4 a \<Longrightarrow> aligned4 b \<Longrightarrow> aligned4 (a + b)"
  by (auto simp: aligned4_def unat_word_ariths mod_mod_cancel)

lemma aligned4_fields: "aligned4 a \<Longrightarrow> aligned4 (a + 4)" "aligned4 a \<Longrightarrow> aligned4 (a + 8)"
  by (rule aligned4_add, assumption, simp add: aligned4_def)+

definition apart :: "u32 \<Rightarrow> u32 \<Rightarrow> bool" where
  "apart a b \<longleftrightarrow> a \<noteq> b \<and> a \<noteq> b + 4 \<and> a \<noteq> b + 8 \<and> b \<noteq> a + 4 \<and> b \<noteq> a + 8"

lemma apart_sym: "apart a b \<Longrightarrow> apart b a"
  by (auto simp: apart_def)

lemma apart_shift: "apart a b \<Longrightarrow> a + 4 \<noteq> b + 8" "apart a b \<Longrightarrow> a + 8 \<noteq> b + 4"
proof -
  have "a = b + 4" if "a + 4 = b + 8"
  proof -
    have "a + 4 - 4 = b + 8 - 4" using that by simp
    then show ?thesis by simp
  qed
  moreover have "b = a + 4" if "a + 8 = b + 4"
  proof -
    have "a + 8 - 4 = b + 4 - 4" using that by simp
    then show ?thesis by (simp add: eq_commute)
  qed
  ultimately show "apart a b \<Longrightarrow> a + 4 \<noteq> b + 8" "apart a b \<Longrightarrow> a + 8 \<noteq> b + 4" by (auto simp: apart_def)
qed

lemma item_put_same [simp]:
  assumes "aligned4 a"
  shows "item_next (put_next a v m) a = v" "item_next (put_size a n m) a = item_next m a" "item_next (put_used a u m) a = item_next m a"
    "item_size (put_next a v m) a = item_size m a" "item_size (put_size a n m) a = n" "item_size (put_used a u m) a = item_size m a"
    "item_used (put_next a v m) a = item_used m a" "item_used (put_size a n m) a = item_used m a" "item_used (put_used a u m) a = u"
  using assms aligned4_fields [OF assms]
  by (simp_all add: item_next_def item_size_def item_used_def put_next_def put_size_def put_used_def load32_store32_aligned)

lemma item_put_apart [simp]:
  assumes "aligned4 a" "aligned4 b" "apart a b"
  shows "item_next (put_next a v m) b = item_next m b" "item_next (put_size a n m) b = item_next m b" "item_next (put_used a u m) b = item_next m b"
    "item_size (put_next a v m) b = item_size m b" "item_size (put_size a n m) b = item_size m b" "item_size (put_used a u m) b = item_size m b"
    "item_used (put_next a v m) b = item_used m b" "item_used (put_size a n m) b = item_used m b" "item_used (put_used a u m) b = item_used m b"
  using assms aligned4_fields [OF assms(1)] aligned4_fields [OF assms(2)] apart_shift [OF assms(3)] apart_shift [OF apart_sym [OF assms(3)]]
  by (auto simp: item_next_def item_size_def item_used_def put_next_def put_size_def put_used_def load32_store32_aligned apart_def)

lemma store32_byte: "4 \<le> unat (x - a) \<Longrightarrow> store32 m a v x = m x"
  by (auto simp: store32_def)

lemma put_byte [simp]:
  assumes "12 \<le> unat (x - a)"
  shows "put_next a v m x = m x" "put_size a n m x = m x" "put_used a u m x = m x"
proof -
  have e: "unat (4 :: u32) = 4" "unat (8 :: u32) = 8" by simp_all
  have "unat (x - a - 4) = unat (x - a) - 4" "unat (x - a - 8) = unat (x - a) - 8"
    using unat_sub_nowrap [of 4 "x - a"] unat_sub_nowrap [of 8 "x - a"] assms unfolding e by linarith+
  then have "unat (x - (a + 4)) = unat (x - a) - 4" "unat (x - (a + 8)) = unat (x - a) - 8"
    by (simp_all only: diff_diff_add)
  then show "put_next a v m x = m x" "put_size a n m x = m x" "put_used a u m x = m x"
    using assms by (simp_all add: put_next_def put_size_def put_used_def store32_byte)
qed

text \<open>A header is unchanged when its twelve bytes are.\<close>

lemma header_cong:
  assumes "\<And>k. k < 12 \<Longrightarrow> m' (a + of_nat k) = m (a + of_nat k)"
  shows "item_next m' a = item_next m a" "item_size m' a = item_size m a" "item_used m' a = item_used m a"
  using assms [of 0] assms [of 1] assms [of 2] assms [of 3] assms [of 4] assms [of 5]
    assms [of 6] assms [of 7] assms [of 8] assms [of 9] assms [of 10] assms [of 11]
  by (simp_all add: item_next_def item_size_def item_used_def load32_def add.assoc)

section \<open>The items of the heap\<close>

fun tiled :: "memory \<Rightarrow> nat \<Rightarrow> u32 list \<Rightarrow> bool" where
  "tiled m t [] \<longleftrightarrow> True"
| "tiled m t (a # as) \<longleftrightarrow> aligned4 a \<and>
     unat a + 12 + unat (item_size m a) \<le> (case as of [] \<Rightarrow> t | b # _ \<Rightarrow> unat b) \<and> tiled m t as"

definition item_of :: "memory \<Rightarrow> u32 \<Rightarrow> u32 \<times> u32 \<times> bool" where
  "item_of m a = (a, item_size m a, item_used m a)"

abbreviation heap_items :: "memory \<Rightarrow> u32 list \<Rightarrow> (u32 \<times> u32 \<times> bool) list" where
  "heap_items m xs \<equiv> map (item_of m) xs"

lemma tiled_after:
  "tiled m t (a # as) \<Longrightarrow> b \<in> set as \<Longrightarrow> unat a + 12 + unat (item_size m a) \<le> unat b"
proof (induction as arbitrary: a)
  case (Cons c cs)
  show ?case
  proof (cases "b = c")
    case False
    then have "unat c + 12 + unat (item_size m c) \<le> unat b" using Cons by simp
    then show ?thesis using Cons.prems(1) by simp
  qed (use Cons in simp)
qed simp

lemma tiled_head: "tiled m t (a # as) \<Longrightarrow> unat a + 12 + unat (item_size m a) \<le> t"
proof (induction as arbitrary: a)
  case (Cons c cs)
  then have "unat c + 12 + unat (item_size m c) \<le> t" by simp
  then show ?case using Cons.prems by simp
qed simp

lemma tiled_below: "tiled m t xs \<Longrightarrow> a \<in> set xs \<Longrightarrow> aligned4 a \<and> unat a + 12 + unat (item_size m a) \<le> t"
proof (induction xs)
  case (Cons b xs)
  then show ?case using tiled_head [OF Cons.prems(1)] by auto
qed simp

lemma unat_fields:
  fixes a :: u32
  assumes "unat a + 12 < 2 ^ 32"
  shows "unat (a + 4) = unat a + 4" "unat (a + 8) = unat a + 8"
proof -
  have e: "unat (4 :: u32) = 4" "unat (8 :: u32) = 8" by simp_all
  show "unat (a + 4) = unat a + 4" "unat (a + 8) = unat a + 8"
    using unat_add_nowrap [of a 4] unat_add_nowrap [of a 8] assms unfolding e by linarith+
qed

lemma apartI:
  assumes "unat a + 12 \<le> unat b" "unat b + 12 < 2 ^ 32"
  shows "apart a b"
proof -
  have u: "unat (a + 4) = unat a + 4" "unat (a + 8) = unat a + 8" "unat (b + 4) = unat b + 4" "unat (b + 8) = unat b + 8"
    using assms unat_fields [of a] unat_fields [of b] by auto
  then show ?thesis using assms(1) unfolding apart_def word_unat_eq_iff by auto
qed

lemma tiled_apart:
  assumes "tiled m t xs" "t < 2 ^ 32" "a \<in> set xs" "b \<in> set xs" "a \<noteq> b"
  shows "apart a b"
  using assms
proof (induction xs)
  case (Cons c cs)
  have d: "apart c x" if "x \<in> set cs" for x
    using tiled_after [OF Cons.prems(1) that] tiled_below [OF Cons.prems(1), of x] that Cons.prems(2)
    by (intro apartI) auto
  show ?case
  proof (cases "a = c \<or> b = c")
    case True
    then show ?thesis using d Cons.prems(3-5) apart_sym by auto
  next
    case False
    then show ?thesis using Cons by auto
  qed
qed simp

lemma tiled_cong: "(\<And>a. a \<in> set xs \<Longrightarrow> item_size m a = item_size m' a) \<Longrightarrow> tiled m t xs \<longleftrightarrow> tiled m' t xs"
  by (induction xs) (auto split: list.splits)

lemma heap_items_cong:
  "(\<And>a. a \<in> set xs \<Longrightarrow> item_size m a = item_size m' a \<and> item_used m a = item_used m' a) \<Longrightarrow>
     heap_items m xs = heap_items m' xs"
  by (simp add: item_of_def)

section \<open>Freeing\<close>

text \<open>What merging does to the abstract heap.\<close>

fun squash :: "(u32 \<times> u32 \<times> bool) list \<Rightarrow> (u32 \<times> u32 \<times> bool) list" where
  "squash ((a, n, u) # (b, k, v) # r) =
     (if \<not> u \<and> \<not> v then squash ((a, n + (12 + k), u) # r) else (a, n, u) # squash ((b, k, v) # r))"
| "squash r = r"

lemma squash_used: "filter (\<lambda>(a, n, u). u) (squash r) = filter (\<lambda>(a, n, u). u) r"
  by (induction r rule: squash.induct) auto

text \<open>No two free items in a row are left.\<close>

fun no_free_pair :: "(u32 \<times> u32 \<times> bool) list \<Rightarrow> bool" where
  "no_free_pair ((a, n, u) # (b, k, v) # r) \<longleftrightarrow> (u \<or> v) \<and> no_free_pair ((b, k, v) # r)"
| "no_free_pair r \<longleftrightarrow> True"

lemma squash_head: "\<exists>m l. squash ((a, n, u) # r) = (a, m, u) # l"
proof (induction r arbitrary: n)
  case (Cons x r)
  then show ?case by (cases x) auto
qed simp

lemma no_free_pair_squash: "no_free_pair (squash r)"
proof (induction r rule: squash.induct)
  case (1 a n u b k v r)
  show ?case
  proof (cases "\<not> u \<and> \<not> v")
    case False
    obtain m l where "squash ((b, k, v) # r) = (b, m, v) # l" using squash_head by blast
    then show ?thesis using 1 False by auto
  qed (use 1 in simp)
qed simp_all

text \<open>One merge, and the walk over the whole list.\<close>

lemma coalesce_merge:
  assumes "p \<noteq> NULL" "\<not> item_used m p" "item_next m p \<noteq> NULL" "\<not> item_used m (item_next m p)" "item_next m p = b"
    "m1 = put_next p (item_next (put_size p (item_size m p + (12 + item_size m b)) m) (item_next (put_size p (item_size m p + (12 + item_size m b)) m) p))
       (put_size p (item_size m p + (12 + item_size m b)) m)"
  shows "coalesce p m = coalesce p m1"
  unfolding coalesce.simps [of p] merge_free.simps [of p m]
  using assms by (simp add: Let_def HEAPITEM_SIZE_def)

lemma coalesce_skip:
  assumes "p \<noteq> NULL" "item_used m p \<or> item_next m p = NULL \<or> item_used m (item_next m p)"
  shows "coalesce p m = coalesce (item_next m p) m"
  unfolding coalesce.simps [of p] merge_free.simps [of p m] using assms by auto

text \<open>Coalescing a list of items is squashing the abstract heap; nothing but headers changes.\<close>

definition outside_headers :: "u32 list \<Rightarrow> u32 \<Rightarrow> bool" where
  "outside_headers xs x \<longleftrightarrow> (\<forall>a \<in> set xs. 12 \<le> unat (x - a))"

lemma unat_sub_wrap_nat: "unat (x - a :: u32) = (if unat a \<le> unat x then unat x - unat a else 4294967296 + unat x - unat a)"
  by (rule unat_diff)

lemma header_outside:
  assumes "tiled m t xs" "t < 2 ^ 32" "unat a + 12 < 2 ^ 32" "\<forall>b \<in> set xs. unat a + 12 \<le> unat b" "k < 12"
  shows "outside_headers xs (a + of_nat k)"
  unfolding outside_headers_def
proof
  fix b assume b: "b \<in> set xs"
  have k: "unat (of_nat k :: u32) = k" using assms(5) by (subst unat_of_nat) simp
  have ak: "unat (a + of_nat k) = unat a + k" using assms(3,5) k by (subst unat_add_nowrap) simp_all
  have "unat b + 12 < 2 ^ 32" using tiled_below [OF assms(1) b] assms(2) by simp
  then show "12 \<le> unat (a + of_nat k - b)"
    using assms(4,5) b ak unat_diff [of "a + of_nat k" b] by auto
qed

lemma coalesce_tiled:
  "chain (item_next m) p xs \<Longrightarrow> tiled m t xs \<Longrightarrow> t < 2 ^ 32 \<Longrightarrow>
     \<exists>m' ys. coalesce p m = Some m' \<and> chain (item_next m') p ys \<and> tiled m' t ys \<and> set ys \<subseteq> set xs \<and>
       heap_items m' ys = squash (heap_items m xs) \<and> (\<forall>x. outside_headers xs x \<longrightarrow> m' x = m x)"
proof (induction xs arbitrary: p m rule: length_induct)
  case (1 xs)
  show ?case
  proof (cases xs)
    case Nil
    then have "p = NULL" using "1.prems"(1) by simp
    then show ?thesis using Nil by (intro exI [of _ m] exI [of _ "[]"]) (simp add: coalesce.simps)
  next
    case (Cons a as)
    then have a: "p = a" "a \<noteq> NULL" "chain (item_next m) (item_next m a) as" "tiled m t as" "aligned4 a"
      using "1.prems" by simp_all
    show ?thesis
    proof (cases "\<not> item_used m a \<and> item_next m a \<noteq> NULL \<and> \<not> item_used m (item_next m a)")
      case False
      then have s: "coalesce a m = coalesce (item_next m a) m" using a(2) by (intro coalesce_skip) auto
      have "length as < length xs" using Cons by simp
      from "1.IH" [rule_format, OF this a(3,4) "1.prems"(3)] obtain m' ys where
        m': "coalesce (item_next m a) m = Some m'" "chain (item_next m') (item_next m a) ys" "tiled m' t ys"
          "set ys \<subseteq> set as" "heap_items m' ys = squash (heap_items m as)" "\<forall>x. outside_headers as x \<longrightarrow> m' x = m x"
        by blast
      have after: "unat a + 12 + unat (item_size m a) \<le> unat b" if "b \<in> set as" for b
        using tiled_after "1.prems"(2) that unfolding Cons by blast
      have top: "unat a + 12 + unat (item_size m a) \<le> t" using tiled_head "1.prems"(2) unfolding Cons by blast
      have "m' (a + of_nat k) = m (a + of_nat k)" if "k < 12" for k
        using header_outside [OF a(4) "1.prems"(3), of a k] after top that "1.prems"(3) m'(6) by fastforce
      note same = header_cong [of m' a m, OF this]
      have "tiled m' t (a # ys)"
        using m'(3,4) a(5) top after same by (cases ys) auto
      moreover have "chain (item_next m') p (a # ys)" using m'(2) a(1,2) same by simp
      moreover have "heap_items m' (a # ys) = squash (heap_items m xs)"
      proof -
        have "squash (heap_items m xs) = item_of m a # squash (heap_items m as)"
          using False a(3) unfolding Cons by (cases as) (auto simp: item_of_def)
        then show ?thesis using m'(5) same by (simp add: item_of_def)
      qed
      moreover have "\<forall>x. outside_headers xs x \<longrightarrow> m' x = m x"
        using m'(6) unfolding Cons outside_headers_def by auto
      moreover have "set (a # ys) \<subseteq> set xs" using m'(4) unfolding Cons by auto
      ultimately show ?thesis using s m'(1) a(1) by metis
    next
      case True
      then obtain b bs where as: "as = b # bs" "item_next m a = b" using a(3) by (cases as) auto
      let ?n = "item_size m a + (12 + item_size m b)"
      define m1 where "m1 = put_next a (item_next (put_size a ?n m) (item_next (put_size a ?n m) a)) (put_size a ?n m)"
      have s: "coalesce a m = coalesce a m1"
        using a(2) True as(2) by (intro coalesce_merge [where b = b]) (simp_all add: m1_def)
      have tl: "tiled m t (a # b # bs)" using "1.prems"(2) unfolding Cons as(1) .
      have al: "aligned4 x" if "x \<in> set (b # bs)" for x using tiled_below [OF tl] that by auto
      have ap: "apart a x" if "x \<in> set (b # bs)" for x
        using tiled_apart [OF tl "1.prems"(3), of a x] chain_distinct [OF "1.prems"(1)] that unfolding Cons as(1) by auto
      have f: "item_next m1 x = item_next m x \<and> item_size m1 x = item_size m x \<and> item_used m1 x = item_used m x" if "x \<in> set (b # bs)" for x
        using al [OF that] ap [OF that] a(5) by (simp add: m1_def)
      have fa: "item_next m1 a = item_next m b" "item_size m1 a = ?n" "item_used m1 a = item_used m a"
        using a(5) as(2) al [of b] ap [of b] by (simp_all add: m1_def)
      have sz: "unat a + 12 + unat (item_size m a) \<le> unat b" "unat b + 12 + unat (item_size m b) \<le> t"
        using tl tiled_below [OF tl, of b] by simp_all
      have un: "unat ?n = unat (item_size m a) + 12 + unat (item_size m b)"
      proof -
        have e: "unat (12 :: u32) = 12" by simp
        have "unat (12 + item_size m b) = 12 + unat (item_size m b)"
          using unat_add_nowrap [of 12 "item_size m b"] sz "1.prems"(3) unfolding e by linarith
        then show ?thesis using unat_add_nowrap [of "item_size m a" "12 + item_size m b"] sz "1.prems"(3) by linarith
      qed
      have c1: "chain (item_next m1) p (a # bs)"
        using a(1-3) as f fa(1) chain_cong [of bs "item_next m1" "item_next m" "item_next m b"] by auto
      have "tiled m1 t bs = tiled m t bs" using f by (intro tiled_cong) auto
      then have t1: "tiled m1 t (a # bs)"
        using tl sz(1) un fa(2) a(5) by (cases bs) auto
      have "length (a # bs) < length xs" using Cons as by simp
      from "1.IH" [rule_format, OF this c1 t1 "1.prems"(3)] obtain m' ys where
        m': "coalesce p m1 = Some m'" "chain (item_next m') p ys" "tiled m' t ys"
          "set ys \<subseteq> set (a # bs)" "heap_items m' ys = squash (heap_items m1 (a # bs))" "\<forall>x. outside_headers (a # bs) x \<longrightarrow> m' x = m1 x"
        by blast
      have "heap_items m1 bs = heap_items m bs" using f by (intro heap_items_cong) auto
      then have "squash (heap_items m1 (a # bs)) = squash (heap_items m xs)"
        using fa True as(2) unfolding Cons as(1) by (simp add: item_of_def del: map_eq_conv)
      moreover have "m' x = m x" if "outside_headers xs x" for x
      proof -
        have "outside_headers (a # bs) x" "12 \<le> unat (x - a)" using that unfolding Cons as(1) outside_headers_def by auto
        then show ?thesis using m'(6) by (simp add: m1_def)
      qed
      moreover have "set ys \<subseteq> set xs" using m'(4) unfolding Cons as(1) by auto
      ultimately show ?thesis using s m'(1-3,5) a(1) by metis
    qed
  qed
qed

definition heap_ok :: "mm \<Rightarrow> u32 list \<Rightarrow> bool" where
  "heap_ok s xs \<longleftrightarrow> chain (item_next (hp_mem s)) (heap_base s) xs \<and> tiled (hp_mem s) (unat (heap_top s)) xs \<and> heap_top s \<noteq> NULL"

lemma heap_okD:
  assumes "heap_ok s xs" "a \<in> set xs"
  shows "aligned4 a" "unat a + 12 + unat (item_size (hp_mem s) a) \<le> unat (heap_top s)" "unat a + 12 < 2 ^ 32"
    "unat (a + 12) = unat a + 12" "a \<noteq> NULL" "a + 12 \<noteq> NULL"
proof -
  show a: "aligned4 a" "unat a + 12 + unat (item_size (hp_mem s) a) \<le> unat (heap_top s)"
    using assms tiled_below unfolding heap_ok_def by blast+
  then show b: "unat a + 12 < 2 ^ 32" using unat_u32_bound [of "heap_top s"] by simp
  have e: "unat (12 :: u32) = 12" by simp
  show c: "unat (a + 12) = unat a + 12" using unat_add_nowrap [of a 12] b unfolding e by simp
  then have "unat (a + 12) \<noteq> 0" by simp
  then show "a + 12 \<noteq> NULL" by auto
  show "a \<noteq> NULL" using assms chain_not_null unfolding heap_ok_def by blast
qed

lemma heap_ok_apart: "heap_ok s xs \<Longrightarrow> a \<in> set xs \<Longrightarrow> b \<in> set xs \<Longrightarrow> a \<noteq> b \<Longrightarrow> apart a b"
  using unat_u32_bound [of "heap_top s"] unfolding heap_ok_def by (intro tiled_apart [where m = "hp_mem s"]) auto

lemma first_match_self: "a \<in> set xs \<Longrightarrow> first_match (\<lambda>b. b = a) xs = a"
  by (induction xs) auto

lemma first_match_absent: "a \<notin> set xs \<Longrightarrow> first_match (\<lambda>b. b = a) xs = NULL"
  by (induction xs) auto

lemma hp_emit_simps [simp]:
  "heap_base (hp_emit e s) = heap_base s" "heap_top (hp_emit e s) = heap_top s" "hp_mem (hp_emit e s) = hp_mem s"
  "hp_maps (hp_emit e s) = hp_maps s" "hp_phys (hp_emit e s) = emit e (hp_phys s)"
  by (simp_all add: hp_emit_def)

lemma heap_ok_cong: "heap_base s' = heap_base s \<Longrightarrow> heap_top s' = heap_top s \<Longrightarrow> hp_mem s' = hp_mem s \<Longrightarrow> heap_ok s' = heap_ok s"
  by (rule ext) (simp add: heap_ok_def)

definition release :: "u32 \<Rightarrow> (u32 \<times> u32 \<times> bool) list \<Rightarrow> (u32 \<times> u32 \<times> bool) list" where
  "release a = map (\<lambda>(b, n, u). (b, n, u \<and> b \<noteq> a))"

definition with_lock :: "phys \<Rightarrow> phys" where
  "with_lock ph = emit (mutex_unlock mm_kmallocLock) (emit (mutex_lock mm_kmallocLock) ph)"

lemma kfree_item:
  assumes "heap_ok s xs" "a \<in> set xs"
  shows "\<exists>s' ys. mm_kfree (a + 12) s = Some s' \<and> heap_ok s' ys \<and>
    heap_items (hp_mem s') ys = squash (release a (heap_items (hp_mem s) xs)) \<and>
    (\<forall>x. outside_headers xs x \<longrightarrow> hp_mem s' x = hp_mem s x) \<and>
    heap_base s' = heap_base s \<and> heap_top s' = heap_top s \<and> hp_phys s' = with_lock (hp_phys s) \<and> hp_maps s' = hp_maps s"
proof -
  let ?m = "hp_mem s" and ?m1 = "put_used a False (hp_mem s)"
  note a = heap_okD [OF assms]
  have ok: "chain (item_next ?m) (heap_base s) xs" "tiled ?m (unat (heap_top s)) xs" "heap_top s \<noteq> NULL"
    using assms(1) by (simp_all add: heap_ok_def)
  have t: "unat (heap_top s) < 2 ^ 32" using unat_u32_bound [of "heap_top s"] by simp
  have other: "item_next ?m1 b = item_next ?m b" "item_size ?m1 b = item_size ?m b" "item_used ?m1 b = (item_used ?m b \<and> b \<noteq> a)"
    if "b \<in> set xs" for b
  proof -
    have "a = b \<or> apart a b \<and> b \<noteq> a" using heap_ok_apart [OF assms that] by blast
    then show "item_next ?m1 b = item_next ?m b" "item_size ?m1 b = item_size ?m b" "item_used ?m1 b = (item_used ?m b \<and> b \<noteq> a)"
      using heap_okD(1) [OF assms(1) that] a(1) by auto
  qed
  have c: "chain (item_next ?m1) (heap_base s) xs" using ok(1) other(1) by (auto intro: chain_cong [THEN iffD1, rotated])
  have tl: "tiled ?m1 (unat (heap_top s)) xs" using ok(2) tiled_cong [of xs ?m ?m1] other(2) by simp
  have it: "heap_items ?m1 xs = release a (heap_items ?m xs)"
    unfolding release_def by (simp add: item_of_def other)
  obtain m' ys where m': "coalesce (heap_base s) ?m1 = Some m'" "chain (item_next m') (heap_base s) ys"
    "tiled m' (unat (heap_top s)) ys" "heap_items m' ys = squash (heap_items ?m1 xs)" "\<forall>x. outside_headers xs x \<longrightarrow> m' x = ?m1 x"
    using coalesce_tiled [OF c tl t] by blast
  have f: "chase (item_next ?m) (\<lambda>b. b = a) (heap_base s) = Some a"
    using chase_chain [OF ok(1)] first_match_self [OF assms(2)] by simp
  let ?s = "hp_emit (mutex_unlock mm_kmallocLock) ((hp_emit (mutex_lock mm_kmallocLock) s)\<lparr>hp_mem := m'\<rparr>)"
  have r: "mm_kfree (a + 12) s = Some ?s"
    using a(5,6) f m'(1) by (simp add: mm_kfree_def HEAPITEM_SIZE_def)
  have b: "m' x = ?m x" if "outside_headers xs x" for x
    using m'(5) that assms(2) by (simp add: outside_headers_def)
  have "heap_ok ?s ys" using m'(2,3) ok(3) by (simp add: heap_ok_def)
  then show ?thesis using r b m'(4) it
    by (intro exI [of _ ?s] exI [of _ ys]) (simp add: with_lock_def hp_emit_def)
qed

lemma kfree_unknown:
  assumes "heap_ok s xs" "address \<noteq> NULL" "address - 12 \<notin> set xs"
  shows "mm_kfree address s = Some (s\<lparr>hp_phys := with_lock (hp_phys s)\<rparr>)"
proof -
  have "chase (item_next (hp_mem s)) (\<lambda>b. b = address - 12) (heap_base s) = Some NULL"
    using chase_chain [of "item_next (hp_mem s)" "heap_base s" xs "\<lambda>b. b = address - 12"] assms(1)
      first_match_absent [OF assms(3)] by (simp add: heap_ok_def)
  then show ?thesis using assms(2) by (simp add: mm_kfree_def HEAPITEM_SIZE_def with_lock_def hp_emit_def)
qed

section \<open>Allocating\<close>

text \<open>The size of an item with its header does not wrap below 4 GB less 19 bytes.\<close>

lemma round8: "unat (n + 7) = unat n + 7 \<Longrightarrow> unat ((n + 7) AND NOT 7 :: u32) = (unat n + 7) div 8 * 8"
proof -
  assume a: "unat (n + 7) = unat n + 7"
  have m: "(7 :: u32) = mask 3" by (simp add: mask_eq_exp_minus_1)
  have "unat (x AND NOT (mask 3)) = unat x div 8 * 8" for x :: u32
    using unat_and_not_mask [of x 3] by simp
  then show "unat ((n + 7) AND NOT 7) = (unat n + 7) div 8 * 8" unfolding m using a unfolding m by simp
qed

lemma unat_total_size:
  assumes "unat n + 19 < 2 ^ 32"
  shows "unat (total_size n) = (unat n + 7) div 8 * 8 + 12"
proof -
  have e: "unat (7 :: u32) = 7" "unat (12 :: u32) = 12" by simp_all
  have "unat (n + 7) = unat n + 7" using unat_add_nowrap [of n 7] assms unfolding e by linarith
  then have r: "unat ((n + 7) AND NOT 7) = (unat n + 7) div 8 * 8" by (rule round8)
  have "(unat n + 7) div 8 * 8 \<le> unat n + 7" by simp
  then show ?thesis unfolding total_size_def HEAPITEM_SIZE_def
    using unat_add_nowrap [of "(n + 7) AND NOT 7" 12] assms r unfolding e by linarith
qed

lemma total_size_room: "unat n + 19 < 2 ^ 32 \<Longrightarrow> unat n + 12 \<le> unat (total_size n)"
  using unat_total_size [of n] by presburger

lemma total_size_aligned: "unat n + 19 < 2 ^ 32 \<Longrightarrow> aligned4 (total_size n)"
  using unat_total_size [of n] unfolding aligned4_def by presburger

lemma total_size_mod: "unat n + 19 < 2 ^ 32 \<Longrightarrow> unat (total_size n) mod 8 = 4"
  using unat_total_size [of n] by presburger

lemma tiled_insert:
  assumes "tiled m t (ys @ a # zs)" "aligned4 b" "unat a + 12 + unat (item_size m' a) \<le> unat b"
    "unat b + 12 + unat (item_size m' b) \<le> unat a + 12 + unat (item_size m a)"
    "\<And>x. x \<in> set ys \<union> set zs \<Longrightarrow> item_size m' x = item_size m x"
  shows "tiled m' t (ys @ a # b # zs)"
  using assms
proof (induction ys)
  case Nil
  have "tiled m' t zs" using Nil.prems(1,5) tiled_cong [of zs m' m t] by simp
  then show ?case using Nil by (cases zs) auto
next
  case (Cons y ys)
  then show ?case by (cases ys) auto
qed

lemma find_fit_first:
  assumes "heap_ok s (ys @ a # zs)" "\<not> item_used (hp_mem s) a" "tot \<le> item_size (hp_mem s) a"
    "\<forall>y \<in> set ys. item_used (hp_mem s) y \<or> item_size (hp_mem s) y < tot"
  shows "find_fit tot s = Some a"
proof -
  have "chase (item_next (hp_mem s)) (\<lambda>a. \<not> item_used (hp_mem s) a \<and> tot \<le> item_size (hp_mem s) a) (heap_base s) =
      Some (first_match (\<lambda>a. \<not> item_used (hp_mem s) a \<and> tot \<le> item_size (hp_mem s) a) (ys @ a # zs))"
    using assms(1) unfolding heap_ok_def by (intro chase_chain) simp
  also have "first_match (\<lambda>a. \<not> item_used (hp_mem s) a \<and> tot \<le> item_size (hp_mem s) a) (ys @ a # zs) = a"
    using assms(2-4) by (intro first_match_split) (auto simp: not_le)
  finally show ?thesis using assms(1) by (simp add: find_fit_def heap_ok_def)
qed

lemma find_fit_none:
  assumes "heap_ok s xs" "\<forall>y \<in> set xs. item_used (hp_mem s) y \<or> item_size (hp_mem s) y < tot"
  shows "find_fit tot s = Some NULL"
proof -
  have "first_match (\<lambda>a. \<not> item_used (hp_mem s) a \<and> tot \<le> item_size (hp_mem s) a) xs = NULL"
    using assms(2) by (induction xs) (auto simp: not_le)
  then show ?thesis using assms(1) chase_chain [of "item_next (hp_mem s)" "heap_base s" xs]
    by (simp add: find_fit_def heap_ok_def)
qed

lemma find_fit_lock [simp]: "find_fit tot (hp_emit e s) = find_fit tot s"
  by (simp add: find_fit_def)

lemma kmalloc_fit:
  assumes ok: "heap_ok s (ys @ a # zs)" and n: "n \<noteq> 0" "unat n + 19 < 2 ^ 32"
    and fit: "\<not> item_used (hp_mem s) a" "total_size n \<le> item_size (hp_mem s) a"
      "\<forall>y \<in> set ys. item_used (hp_mem s) y \<or> item_size (hp_mem s) y < total_size n"
  shows "\<exists>s'. mm_kmalloc n s = Some (a + 12, s') \<and> heap_ok s' (ys @ a # (a + total_size n) # zs) \<and>
    heap_items (hp_mem s') (ys @ a # (a + total_size n) # zs) = heap_items (hp_mem s) ys @
      (a, n, True) # (a + total_size n, item_size (hp_mem s) a - total_size n, False) # heap_items (hp_mem s) zs \<and>
    (\<forall>x. outside_headers [a, a + total_size n] x \<longrightarrow> hp_mem s' x = hp_mem s x) \<and>
    heap_base s' = heap_base s \<and> heap_top s' = heap_top s \<and> hp_phys s' = with_lock (hp_phys s) \<and> hp_maps s' = hp_maps s"
proof -
  let ?m = "hp_mem s" and ?tot = "total_size n" and ?b = "a + total_size n"
  let ?xs = "ys @ a # zs"
  note a = heap_okD [OF ok, of a, simplified]
  have c: "chain (item_next ?m) (heap_base s) ?xs" "tiled ?m (unat (heap_top s)) ?xs" "heap_top s \<noteq> NULL"
    using ok by (simp_all add: heap_ok_def)
  have top: "unat (heap_top s) < 2 ^ 32" using unat_u32_bound [of "heap_top s"] by simp
  have room: "unat ?tot \<le> unat (item_size ?m a)" using fit(2) by (simp add: word_le_nat_alt)
  have ub: "unat ?b = unat a + unat ?tot"
    using unat_add_nowrap [of a ?tot] a(2) room top by linarith
  have al: "aligned4 ?b" using a(1) total_size_aligned [OF n(2)] by (rule aligned4_add)
  have tot12: "unat n + 12 \<le> unat ?tot" using total_size_room [OF n(2)] .
  have bz: "?b \<noteq> NULL"
  proof
    assume "?b = NULL"
    then have "unat ?b = 0" by (metis unat_0)
    then show False using ub tot12 by simp
  qed
  have ab: "apart a ?b" using ub tot12 a(2) room top by (intro apartI) linarith+
  have xa: "aligned4 x \<and> apart a x \<and> apart ?b x" if x: "x \<in> set ys \<union> set zs" for x
  proof -
    have d: "x \<noteq> a" using chain_distinct [OF c(1)] x by auto
    have p: "apart a x" "aligned4 x" using heap_ok_apart [OF ok, of a x] heap_okD(1) [OF ok, of x] x d by auto
    have "apart ?b x"
    proof (cases "x \<in> set ys")
      case True
      then obtain us vs where u: "ys = us @ x # vs" by (meson split_list)
      have "tiled ?m (unat (heap_top s)) (x # vs @ a # zs)" using c(2) unfolding u by (induction us) simp_all
      then have "unat x + 12 \<le> unat a" using tiled_after [of ?m "unat (heap_top s)" x "vs @ a # zs" a] by simp
      then have "apart x ?b" using ub tot12 a(2) room top by (intro apartI) linarith+
      then show ?thesis by (rule apart_sym)
    next
      case False
      then have z: "x \<in> set zs" using x by simp
      have "tiled ?m (unat (heap_top s)) (a # zs)" using c(2) by (induction ys) simp_all
      then have "unat a + 12 + unat (item_size ?m a) \<le> unat x" using z by (rule tiled_after)
      then show ?thesis using ub room heap_okD(3) [OF ok, of x] z by (intro apartI) simp_all
    qed
    then show ?thesis using p by simp
  qed
  define m1 where "m1 = put_next ?b (item_next ?m a) (put_used ?b False (put_size ?b (item_size ?m a - ?tot) ?m))"
  define m2 where "m2 = put_next a ?b (put_used a True (put_size a n m1))"
  let ?s = "hp_emit (mutex_unlock mm_kmallocLock) ((hp_emit (mutex_lock mm_kmallocLock) s)\<lparr>hp_mem := m2\<rparr>)"
  have r: "mm_kmalloc n s = Some (a + 12, ?s)"
    using n(1) find_fit_first [OF ok fit] a(1,5) al apart_sym [OF ab]
    by (simp add: mm_kmalloc_def Let_def HEAPITEM_SIZE_def m2_def m1_def)
  have sub: "unat (item_size ?m a - ?tot) = unat (item_size ?m a) - unat ?tot"
    using unat_sub_nowrap [OF room] .
  have fa: "item_next m2 a = ?b" "item_size m2 a = n" "item_used m2 a" using a(1) by (simp_all add: m2_def)
  have fb: "item_next m2 ?b = item_next ?m a" "item_size m2 ?b = item_size ?m a - ?tot" "\<not> item_used m2 ?b"
    using a(1) al ab by (simp_all add: m2_def m1_def)
  have fx: "item_next m2 x = item_next ?m x \<and> item_size m2 x = item_size ?m x \<and> item_used m2 x = item_used ?m x"
    if "x \<in> set ys \<union> set zs" for x
    using xa [OF that] a(1) al by (simp add: m2_def m1_def)
  have "chain (item_next m2) (heap_base s) (ys @ a # ?b # zs)"
    using c(1) bz fa(1) fb(1) fx by (intro chain_insert) auto
  moreover have "tiled m2 (unat (heap_top s)) (ys @ a # ?b # zs)"
    using c(2) al fa fb fx tot12 ub sub room by (intro tiled_insert) auto
  ultimately have "heap_ok ?s (ys @ a # ?b # zs)" using c(3) by (simp add: heap_ok_def)
  moreover have "heap_items m2 ys = heap_items ?m ys" "heap_items m2 zs = heap_items ?m zs"
    using fx by (auto simp: item_of_def)
  then have "heap_items m2 (ys @ a # ?b # zs) = heap_items ?m ys @ (a, n, True) # (?b, item_size ?m a - ?tot, False) # heap_items ?m zs"
    using fa fb by (simp add: item_of_def del: map_eq_conv)
  moreover have "\<forall>x. outside_headers [a, ?b] x \<longrightarrow> m2 x = ?m x"
    by (simp add: outside_headers_def m2_def m1_def)
  ultimately show ?thesis using r by (intro exI [of _ ?s]) (simp add: with_lock_def hp_emit_def del: map_eq_conv)
qed

section \<open>Growing\<close>

text \<open>Whole pages, as plain arithmetic.\<close>

lemma page_count: "x < (x div 4096 + 1) * 4096" for x :: nat
  by (rule page_split [of x]) simp


lemma page_rest: "x mod 4096 \<le> 4084 \<Longrightarrow> x + 12 \<le> (x div 4096 + 1) * 4096" for x :: nat
  by (rule page_split [of x]) simp

lemma page_rest4: "x mod 4096 = 4092 \<Longrightarrow> x + 4 = (x div 4096 + 1) * 4096" for x :: nat
  by (rule page_split [of x]) simp

lemma page_room: "x mod 8 = 4 \<Longrightarrow> x + 4 \<le> (x div 4096 + 1) * 4096" for x :: nat
proof -
  assume a: "x mod 8 = 4"
  obtain q r where q: "x = q * 4096 + r" "r < 4096" "x div 4096 = q" "x mod 4096 = r" by (rule page_split)
  have "r mod 8 = 4" using a q(4) mod_mod_cancel [of 8 4096 x] by simp
  then have "r \<le> 4092" using q(2) by presburger
  then show ?thesis using q(1,3) by simp
qed

lemma pageAlloc_emit: "phys_ok (emit e ph) = phys_ok ph"
  by simp

lemma morecore_pages_alloc:
  assumes "alloc_n physical_pageAlloc k (hp_phys s) = Some (as, ph)" "unat (heap_top s) + k * 4096 < 2 ^ 32"
  shows "\<exists>s'. morecore_pages k s = Some s' \<and> heap_base s' = heap_base s \<and> unat (heap_top s') = unat (heap_top s) + k * 4096 \<and>
    hp_phys s' = ph \<and> (\<forall>x. unat x < unat (heap_top s) \<longrightarrow> hp_mem s' x = hp_mem s x) \<and>
    hp_maps s' = hp_maps s @ map (\<lambda>(i, a). (heap_top s + of_nat (i * 4096), a, True)) (enumerate 0 as)"
  using assms
proof (induction k arbitrary: s as)
  case (Suc k)
  from Suc.prems(1) obtain a ph1 bs where
    a: "physical_pageAlloc (hp_phys s) = Some (a, ph1)" and bs: "alloc_n physical_pageAlloc k ph1 = Some (bs, ph)" and as: "as = a # bs"
    by (auto split: Option.bind_splits)
  define s1 where "s1 = s\<lparr>hp_phys := ph1, hp_maps := hp_maps s @ [(heap_top s, a, True)],
    hp_mem := memset (hp_mem s) (heap_top s) 0 4096, heap_top := heap_top s + 4096\<rparr>"
  have u: "unat (heap_top s1) = unat (heap_top s) + 4096"
  proof -
    have e: "unat (4096 :: u32) = 4096" by simp
    show ?thesis using unat_add_nowrap [of "heap_top s" 4096] Suc.prems(2) unfolding e by (simp add: s1_def)
  qed
  have "alloc_n physical_pageAlloc k (hp_phys s1) = Some (bs, ph)" using bs by (simp add: s1_def)
  from Suc.IH [OF this] u Suc.prems(2) obtain s' where
    s': "morecore_pages k s1 = Some s'" "heap_base s' = heap_base s1" "unat (heap_top s') = unat (heap_top s1) + k * 4096"
      "hp_phys s' = ph" "\<forall>x. unat x < unat (heap_top s1) \<longrightarrow> hp_mem s' x = hp_mem s1 x"
      "hp_maps s' = hp_maps s1 @ map (\<lambda>(i, a). (heap_top s1 + of_nat (i * 4096), a, True)) (enumerate 0 bs)" by auto
  have "morecore_pages (Suc k) s = Some s'"
    using a s'(1) by (simp add: PAGE_SIZE_def SIZE_4KB_def s1_def)
  moreover have "hp_mem s' x = hp_mem s x" if "unat x < unat (heap_top s)" for x
  proof -
    have "4096 \<le> unat (x - heap_top s)" using that Suc.prems(2) by (simp add: unat_diff)
    then have "hp_mem s1 x = hp_mem s x" by (simp add: s1_def memset_out)
    then show ?thesis using s'(5) that u by simp
  qed
  moreover have "hp_maps s' = hp_maps s @ map (\<lambda>(i, a). (heap_top s + of_nat (i * 4096), a, True)) (enumerate 0 as)"
    unfolding s'(6) as by (simp add: s1_def enumerate_Suc_eq comp_def split_beta add.assoc)
  ultimately show ?case using s'(2-4) u by (intro exI [of _ s']) (simp add: s1_def)
qed simp

text \<open>The free item behind a new one at the end of the heap: exact, or wrapped around by eight bytes.\<close>

lemma leftover_exact:
  assumes "unat tot < 2 ^ 31" "unat tot mod 8 = 4"
  shows "if unat tot mod 4096 = 4092 then leftover_size tot = 4294967288
    else unat (leftover_size tot) = (unat tot div 4096 + 1) * 4096 - unat tot - 12"
proof -
  have u: "uint tot = int (unat tot)" by simp
  have "- (2 ^ 31) \<le> uint tot" by (rule order_trans [of _ 0]) simp_all
  moreover have "uint tot < 2 ^ 31" using assms(1) of_nat_less_iff [of "unat tot" "2 ^ 31", where 'a = int]
    unfolding u by (simp only: of_nat_power of_nat_numeral)
  ultimately have "signed_take_bit 31 (uint tot) = uint tot" by (rule signed_take_bit_int_eq_self)
  then have s: "sint tot = int (unat tot)" unfolding u [symmetric] by (simp add: sint_uint)
  have m: "int x smod 4096 = int (x mod 4096)" for x :: nat
    by (simp add: smod_int_alt_def zmod_int sgn_if)
  define r where "r = unat tot mod 4096"
  have r: "r < 4096" "r mod 8 = 4" using assms(2) by (simp_all add: r_def mod_mod_cancel)
  then have r0: "r \<noteq> 0" by presburger
  have ur: "unat (of_nat r :: u32) = r" using r(1) by (subst unat_of_nat) simp
  then have rn: "(of_nat r :: u32) \<noteq> 0" using r0 by (metis unat_0)
  have m': "uint tot smod 4096 = int r" unfolding u m r_def ..
  have l: "leftover_size tot = 4096 - of_nat r - 12"
    unfolding leftover_size_def s u [symmetric] PAGE_SIZE_def SIZE_4KB_def HEAPITEM_SIZE_def
    using rn by (simp add: m' Let_def)
  show ?thesis
  proof (cases "r = 4092")
    case True
    then show ?thesis unfolding l by (simp add: r_def)
  next
    case False
    then have "r \<le> 4084" using r by presburger
    have e: "unat (4096 :: u32) = 4096" "unat (12 :: u32) = 12" by simp_all
    have "unat (4096 - of_nat r :: u32) = 4096 - r"
      using unat_sub_nowrap [of "of_nat r" "4096 :: u32"] r(1) unfolding e ur by linarith
    then have "unat (4096 - of_nat r - 12 :: u32) = 4096 - r - 12"
      using unat_sub_nowrap [of 12 "4096 - of_nat r :: u32"] \<open>r \<le> 4084\<close> unfolding e by linarith
    moreover define q where "q = unat tot div 4096"
    then have "unat tot = q * 4096 + r" by (simp add: r_def)
    then have "4096 - r - 12 = (q + 1) * 4096 - unat tot - 12" by simp
    ultimately show ?thesis using False unfolding l by (simp add: r_def q_def)
  qed
qed

lemma kmalloc_grow:
  fixes s :: mm and n :: u32
  defines "p \<equiv> (if heap_top s = NULL then heap_base s else heap_top s)"
  defines "k \<equiv> unat (total_size n) div 4096 + 1"
  assumes "find_fit (total_size n) s = Some NULL" "n \<noteq> 0" "unat n + 19 < 2 ^ 31" "phys_ok (hp_phys s)"
    "p \<noteq> NULL" "aligned4 p" "unat p + k * 4096 + 4096 \<le> 2 ^ 32"
  shows "\<exists>s' as ph. mm_kmalloc n s = Some (p + 12, s') \<and>
    alloc_n physical_pageAlloc k (emit (mutex_lock mm_kmallocLock) (hp_phys s)) = Some (as, ph) \<and>
    hp_phys s' = emit (mutex_unlock mm_kmallocLock) ph \<and>
    hp_maps s' = hp_maps s @ map (\<lambda>(i, a). (p + of_nat (i * 4096), a, True)) (enumerate 0 as) \<and>
    heap_base s' = heap_base s \<and> unat (heap_top s') = unat p + k * 4096 \<and>
    item_of (hp_mem s') p = (p, n, True) \<and> item_next (hp_mem s') p = p + total_size n \<and>
    item_of (hp_mem s') (p + total_size n) = (p + total_size n, leftover_size (total_size n), False) \<and>
    item_next (hp_mem s') (p + total_size n) = NULL \<and>
    (\<forall>x. unat x < unat p \<longrightarrow> hp_mem s' x = hp_mem s x)"
proof -
  let ?tot = "total_size n" and ?b = "p + total_size n"
  have n: "unat n + 19 < 2 ^ 32" using assms(5) by simp
  define s1 where "s1 = (hp_emit (mutex_lock mm_kmallocLock) s)\<lparr>heap_top := p\<rparr>"
  have ok: "phys_ok (emit (mutex_lock mm_kmallocLock) (hp_phys s))" using assms(6) by simp
  obtain as ph where al: "alloc_n physical_pageAlloc k (hp_phys s1) = Some (as, ph)"
    using phys_alloc.alloc_n_total [OF ok, of k] by (auto simp: s1_def)
  have "unat (heap_top s1) + k * 4096 < 2 ^ 32" using assms(9) by (simp add: s1_def)
  from morecore_pages_alloc [OF al this] obtain s2 where
    s2: "morecore_pages k s1 = Some s2" "heap_base s2 = heap_base s" "unat (heap_top s2) = unat p + k * 4096" "hp_phys s2 = ph"
      "\<forall>x. unat x < unat p \<longrightarrow> hp_mem s2 x = hp_mem s x"
      "hp_maps s2 = hp_maps s @ map (\<lambda>(i, a). (p + of_nat (i * 4096), a, True)) (enumerate 0 as)"
    by (auto simp: s1_def)
  have e: "unat (4096 :: u32) = 4096" by simp
  have k: "unat (?tot div PAGE_SIZE) + 1 = k" unfolding k_def PAGE_SIZE_def SIZE_4KB_def unat_div e ..
  have t1: "(if heap_top (hp_emit (mutex_lock mm_kmallocLock) s) = NULL
      then (hp_emit (mutex_lock mm_kmallocLock) s)\<lparr>heap_top := heap_base (hp_emit (mutex_lock mm_kmallocLock) s)\<rparr>
      else hp_emit (mutex_lock mm_kmallocLock) s) = s1"
    by (simp add: s1_def p_def)
  have "heap_top s1 = p" by (simp add: s1_def)
  then have mc: "mm_morecore ?tot (hp_emit (mutex_lock mm_kmallocLock) s) = Some (p, s2)"
    unfolding mm_morecore_def t1 Let_def k by (simp add: s2(1))
  define m1 where "m1 = put_next ?b NULL (put_used ?b False (put_size ?b (leftover_size ?tot) (hp_mem s2)))"
  define m2 where "m2 = put_next p ?b (put_used p True (put_size p n m1))"
  let ?s = "hp_emit (mutex_unlock mm_kmallocLock) (s2\<lparr>hp_mem := m2\<rparr>)"
  have r: "mm_kmalloc n s = Some (p + 12, ?s)"
    unfolding mm_kmalloc_def using assms(3,4,7) mc by (simp add: Let_def HEAPITEM_SIZE_def m1_def m2_def)
  have tot: "unat n + 12 \<le> unat ?tot" by (rule total_size_room [OF n])
  have "unat ?tot < k * 4096" unfolding k_def by (rule page_count)
  then have ub: "unat ?b = unat p + unat ?tot" using unat_add_nowrap [of p ?tot] assms(9) by linarith
  have ab: "aligned4 ?b" using assms(8) total_size_aligned [OF n] by (rule aligned4_add)
  have "unat ?tot + 4 \<le> k * 4096" unfolding k_def by (rule page_room [OF total_size_mod [OF n]])
  then have ap: "apart p ?b" using ub tot assms(9) by (intro apartI) linarith+
  have "item_of m2 p = (p, n, True)" "item_next m2 p = ?b" using assms(8) by (simp_all add: m2_def item_of_def)
  moreover have "item_of m2 ?b = (?b, leftover_size ?tot, False)" "item_next m2 ?b = NULL"
    using assms(8) ab ap by (simp_all add: m2_def m1_def item_of_def)
  moreover have "m2 x = hp_mem s x" if "unat x < unat p" for x
  proof -
    have "12 \<le> unat (x - p)" using that assms(9) k_def by (simp add: unat_diff)
    moreover have "12 \<le> unat (x - ?b)" using that ub assms(9) \<open>unat ?tot + 4 \<le> k * 4096\<close> by (simp add: unat_diff)
    ultimately show ?thesis using s2(5) that by (simp add: m2_def m1_def)
  qed
  ultimately show ?thesis using r al s2(2-4,6)
    by (intro exI [of _ ?s] exI [of _ as] exI [of _ ph]) (simp add: s1_def)
qed

section \<open>The data of the items\<close>

lemma tiled_order:
  "tiled m t xs \<Longrightarrow> c \<in> set xs \<Longrightarrow> u \<in> set xs \<Longrightarrow> c \<noteq> u \<Longrightarrow>
     unat c + 12 + unat (item_size m c) \<le> unat u \<or> unat u + 12 + unat (item_size m u) \<le> unat c"
proof (induction xs)
  case (Cons x xs)
  then show ?case using tiled_after [OF Cons.prems(1)] by auto
qed simp

definition data_byte :: "u32 \<Rightarrow> nat \<Rightarrow> u32" where
  "data_byte a k = a + 12 + of_nat k"

lemma data_outside:
  assumes "tiled m t xs" "t < 2 ^ 32" "u \<in> set xs" "k < unat (item_size m u)"
  shows "outside_headers xs (data_byte u k)"
  unfolding outside_headers_def
proof
  fix c assume c: "c \<in> set xs"
  have b: "unat u + 12 + k < 2 ^ 32" using tiled_below [OF assms(1,3)] assms(2,4) by simp
  have k: "unat (of_nat k :: u32) = k" using b by (subst unat_of_nat) simp
  have e: "unat (12 :: u32) = 12" by simp
  have "unat (u + 12) = unat u + 12" using unat_add_nowrap [of u 12] b unfolding e by linarith
  then have x: "unat (data_byte u k) = unat u + 12 + k"
    unfolding data_byte_def using unat_add_nowrap [of "u + 12" "of_nat k"] b k by linarith
  have "unat c + 12 < 2 ^ 32" using tiled_below [OF assms(1) c] assms(2) by simp
  then show "12 \<le> unat (data_byte u k - c)"
    using tiled_order [OF assms(1) c assms(3)] assms(4) x by (cases "c = u") (auto simp: unat_diff)
qed

lemma data_kept_sub:
  assumes "heap_ok s' zs" "set ws \<subseteq> set zs" "\<forall>x. outside_headers ws x \<longrightarrow> hp_mem s' x = m x"
    "u \<in> set zs" "k < unat (item_size (hp_mem s') u)"
  shows "hp_mem s' (data_byte u k) = m (data_byte u k)"
proof -
  have "outside_headers zs (data_byte u k)"
    using assms(1,4,5) unat_u32_bound [of "heap_top s'"] unfolding heap_ok_def by (intro data_outside) auto
  then have "outside_headers ws (data_byte u k)" using assms(2) by (auto simp: outside_headers_def)
  then show ?thesis using assms(3) by blast
qed

section \<open>Runs\<close>

datatype heap_op = Kmalloc u32 | Kfree u32


text \<open>The most bytes an operation may add to the heap.\<close>

fun heap_need :: "heap_op \<Rightarrow> nat" where
  "heap_need (Kmalloc n) = (unat (total_size n) div 4096 + 1) * 4096"
| "heap_need (Kfree a) = 0"

lemma alloc_n_ok: "phys_ok ph \<Longrightarrow> alloc_n physical_pageAlloc k ph = Some (as, ph') \<Longrightarrow> phys_ok ph'"
  using phys_alloc.alloc_n_pages by blast

text \<open>Growing a heap that has items leaves its list as it was.\<close>

lemma kmalloc_grow_keeps:
  assumes "heap_ok s xs" "\<forall>y \<in> set xs. item_used (hp_mem s) y \<or> item_size (hp_mem s) y < total_size n"
    "n \<noteq> 0" "unat n + 19 < 2 ^ 31" "phys_ok (hp_phys s)" "aligned4 (heap_top s)"
    "unat (heap_top s) + heap_need (Kmalloc n) + 4096 \<le> 2 ^ 32"
  shows "\<exists>s'. mm_kmalloc n s = Some (heap_top s + 12, s') \<and> heap_ok s' xs \<and> heap_items (hp_mem s') xs = heap_items (hp_mem s) xs \<and>
    heap_base s' = heap_base s \<and> unat (heap_top s') = unat (heap_top s) + heap_need (Kmalloc n) \<and> phys_ok (hp_phys s') \<and>
    length (hp_maps s') = length (hp_maps s) + heap_need (Kmalloc n) div 4096"
proof -
  have top: "heap_top s \<noteq> NULL" using assms(1) by (simp add: heap_ok_def)
  from kmalloc_grow [of n s] find_fit_none [OF assms(1,2)] assms(3-7) top obtain s' as ph where
    s': "mm_kmalloc n s = Some (heap_top s + 12, s')"
      "alloc_n physical_pageAlloc (unat (total_size n) div 4096 + 1) (emit (mutex_lock mm_kmallocLock) (hp_phys s)) = Some (as, ph)"
      "hp_phys s' = emit (mutex_unlock mm_kmallocLock) ph"
      "hp_maps s' = hp_maps s @ map (\<lambda>(i, a). (heap_top s + of_nat (i * 4096), a, True)) (enumerate 0 as)"
      "heap_base s' = heap_base s" "unat (heap_top s') = unat (heap_top s) + heap_need (Kmalloc n)"
      "\<forall>x. unat x < unat (heap_top s) \<longrightarrow> hp_mem s' x = hp_mem s x"
    by (auto simp: Let_def)
  have same: "item_next (hp_mem s') y = item_next (hp_mem s) y \<and> item_size (hp_mem s') y = item_size (hp_mem s) y \<and>
      item_used (hp_mem s') y = item_used (hp_mem s) y" if y: "y \<in> set xs" for y
  proof -
    have "hp_mem s' (y + of_nat i) = hp_mem s (y + of_nat i)" if i: "i < 12" for i
    proof -
      have "unat (of_nat i :: u32) = i" using i by (subst unat_of_nat) simp
      then have "unat (y + of_nat i) = unat y + i"
        using unat_add_nowrap [of y "of_nat i"] heap_okD(3) [OF assms(1) y] i by simp
      then show ?thesis using s'(7) heap_okD(2) [OF assms(1) y] i by simp
    qed
    note h = header_cong [of "hp_mem s'" y "hp_mem s", OF this]
    show ?thesis using h by blast
  qed
  have ok: "chain (item_next (hp_mem s)) (heap_base s) xs" "tiled (hp_mem s) (unat (heap_top s)) xs"
    using assms(1) by (simp_all add: heap_ok_def)
  have "chain (item_next (hp_mem s')) (heap_base s') xs"
    using ok(1) same s'(5) by (auto intro: chain_cong [THEN iffD1, rotated])
  moreover have "tiled (hp_mem s') (unat (heap_top s)) xs" using ok(2) same tiled_cong [of xs "hp_mem s" "hp_mem s'"] by simp
  then have "tiled (hp_mem s') (unat (heap_top s')) xs"
    unfolding s'(6) by (induction xs) (auto split: list.splits)
  moreover have "heap_top s' \<noteq> NULL"
  proof
    assume "heap_top s' = NULL"
    then show False using s'(6) by simp
  qed
  ultimately have "heap_ok s' xs" by (simp add: heap_ok_def)
  moreover have "phys_ok (hp_phys s')" using alloc_n_ok [OF _ s'(2)] assms(5) unfolding s'(3) by simp
  moreover have "length as = unat (total_size n) div 4096 + 1"
    using phys_alloc.alloc_n_pages [OF _ s'(2)] assms(5) by simp
  moreover have "heap_items (hp_mem s') xs = heap_items (hp_mem s) xs" using same by (intro heap_items_cong) auto
  ultimately show ?thesis using s'(1,4,5,6) by (intro exI [of _ s']) simp
qed





lemma mm_init_heap:
  "mm_init seg pag a b m s = Some (r, s') \<Longrightarrow> heap_top s' = NULL \<and> heap_base s' = KERNEL_HEAP_VADDRESS"
  by (auto simp: mm_init_def Let_def bind_eq_Some_conv)










section \<open>Properties\<close>

text \<open>For the witnesses: a heap of one page with a used item of 100 bytes and the free rest.\<close>

definition ex_mem :: memory where
  "ex_mem = put_next 0xD0000000 0xD0000074 (put_used 0xD0000000 True (put_size 0xD0000000 100
     (put_next 0xD0000074 NULL (put_used 0xD0000074 False (put_size 0xD0000074 3968 (\<lambda>_. 0))))))"

definition ex_heap :: mm where
  "ex_heap = \<lparr>heap_base = 0xD0000000, heap_top = 0xD0001000, hp_mem = ex_mem, hp_phys = small_phys, hp_maps = []\<rparr>"

lemma ex_heap_items:
  "item_next ex_mem 0xD0000000 = 0xD0000074" "item_size ex_mem 0xD0000000 = 100" "item_used ex_mem 0xD0000000"
  "item_next ex_mem 0xD0000074 = NULL" "item_size ex_mem 0xD0000074 = 3968" "\<not> item_used ex_mem 0xD0000074"
  by (simp_all add: ex_mem_def aligned4_def apart_def)

lemma ex_heap_ok: "heap_ok ex_heap [0xD0000000, 0xD0000074]"
  by (simp add: heap_ok_def ex_heap_def ex_heap_items aligned4_def)

lemma ex_total_size: "total_size 200 = 212" "total_size 8000 = 8012"
  by (simp_all add: total_size_def HEAPITEM_SIZE_def)

text \<open>
  C8. When some free item is large enough, \<open>mm_kmalloc\<close> takes the first one: the item is cut into the
  new one, with exactly the size asked for, and a free rest behind it, every other item keeps its
  place, size and mark, the items still tile the heap without overlap, and the data of every used
  item is unchanged. Nothing is mapped and the lock is released.
\<close>

theorem kmalloc_first_fit:
  assumes "heap_ok s (ys @ a # zs)" "n \<noteq> 0" "unat n + 19 < 2 ^ 32" "\<not> item_used (hp_mem s) a" "total_size n \<le> item_size (hp_mem s) a"
    "\<forall>y \<in> set ys. item_used (hp_mem s) y \<or> item_size (hp_mem s) y < total_size n"
  shows "\<exists>s'. mm_kmalloc n s = Some (a + 12, s') \<and> heap_ok s' (ys @ a # (a + total_size n) # zs) \<and>
    heap_items (hp_mem s') (ys @ a # (a + total_size n) # zs) = heap_items (hp_mem s) ys @
      (a, n, True) # (a + total_size n, item_size (hp_mem s) a - total_size n, False) # heap_items (hp_mem s) zs \<and>
    (\<forall>u \<in> set (ys @ zs). \<forall>k < unat (item_size (hp_mem s) u). hp_mem s' (data_byte u k) = hp_mem s (data_byte u k)) \<and>
    heap_top s' = heap_top s \<and> hp_maps s' = hp_maps s \<and> ph_log (hp_phys s') = ph_log (hp_phys s) @ [mutex_lock mm_kmallocLock, mutex_unlock mm_kmallocLock]"
proof -
  let ?zs = "ys @ a # (a + total_size n) # zs"
  obtain s' where s': "mm_kmalloc n s = Some (a + 12, s')" "heap_ok s' ?zs"
    "heap_items (hp_mem s') ?zs = heap_items (hp_mem s) ys @
      (a, n, True) # (a + total_size n, item_size (hp_mem s) a - total_size n, False) # heap_items (hp_mem s) zs"
    "\<forall>x. outside_headers [a, a + total_size n] x \<longrightarrow> hp_mem s' x = hp_mem s x"
    "heap_top s' = heap_top s" "hp_phys s' = with_lock (hp_phys s)" "hp_maps s' = hp_maps s"
    using kmalloc_fit [OF assms] by blast
  have sz: "item_size (hp_mem s') u = item_size (hp_mem s) u" if "u \<in> set (ys @ zs)" for u
    using s'(3) that by (auto simp: item_of_def)
  have "hp_mem s' (data_byte u k) = hp_mem s (data_byte u k)" if "u \<in> set (ys @ zs)" "k < unat (item_size (hp_mem s) u)" for u k
    using s'(2,4) sz [OF that(1)] that by (intro data_kept_sub [where ws = "[a, a + total_size n]" and zs = ?zs]) auto
  then show ?thesis using s' by (intro exI [of _ s']) (simp add: with_lock_def emit_def del: map_eq_conv)
qed

theorem kmalloc_first_fit_witness:
  "\<exists>s'. mm_kmalloc 200 ex_heap = Some (0xD0000080, s') \<and> heap_ok s' [0xD0000000, 0xD0000074, 0xD0000148]"
proof -
  have "\<exists>s'. mm_kmalloc 200 ex_heap = Some (0xD0000074 + 12, s') \<and> heap_ok s' ([0xD0000000] @ 0xD0000074 # (0xD0000074 + total_size 200) # [])"
    using kmalloc_first_fit [of ex_heap "[0xD0000000]" "0xD0000074" "[]" 200] ex_heap_ok
    by (simp add: ex_heap_def ex_heap_items ex_total_size del: map_eq_conv) blast
  then show ?thesis by (simp add: ex_total_size)
qed

text \<open>
  C9. \<open>mm_kfree\<close> of the address of an item marks it free and merges every run of free items into its
  first: the abstract heap is squashed, no two free items in a row are left, every other used
  item stays with its data, and the items still tile the heap. Any other address changes nothing
  but the lock, which is released either way.
\<close>

theorem kfree_squashes:
  assumes "heap_ok s xs" "a \<in> set xs"
  shows "(\<exists>s' ys. mm_kfree (a + 12) s = Some s' \<and> heap_ok s' ys \<and>
    heap_items (hp_mem s') ys = squash (release a (heap_items (hp_mem s) xs)) \<and> no_free_pair (heap_items (hp_mem s') ys) \<and>
    filter (\<lambda>(b, n, u). u) (heap_items (hp_mem s') ys) = filter (\<lambda>(b, n, u). u \<and> b \<noteq> a) (heap_items (hp_mem s) xs) \<and>
    (\<forall>u \<in> set xs. \<forall>k < unat (item_size (hp_mem s) u). hp_mem s' (data_byte u k) = hp_mem s (data_byte u k)) \<and>
    ph_log (hp_phys s') = ph_log (hp_phys s) @ [mutex_lock mm_kmallocLock, mutex_unlock mm_kmallocLock]) \<and>
    (\<forall>b. b \<noteq> NULL \<and> b - 12 \<notin> set xs \<longrightarrow> mm_kfree b s = Some (s\<lparr>hp_phys := with_lock (hp_phys s)\<rparr>))"
proof
  obtain s' ys where s': "mm_kfree (a + 12) s = Some s'" "heap_ok s' ys"
    "heap_items (hp_mem s') ys = squash (release a (heap_items (hp_mem s) xs))"
    "\<forall>x. outside_headers xs x \<longrightarrow> hp_mem s' x = hp_mem s x" "hp_phys s' = with_lock (hp_phys s)"
    using kfree_item [OF assms] by blast
  have "filter (\<lambda>(b, n, u). u) (release a l) = filter (\<lambda>(b, n, u). u \<and> b \<noteq> a) l" for l
    by (induction l) (auto simp: release_def)
  then have f: "filter (\<lambda>(b, n, u). u) (heap_items (hp_mem s') ys) = filter (\<lambda>(b, n, u). u \<and> b \<noteq> a) (heap_items (hp_mem s) xs)"
    unfolding s'(3) squash_used by blast
  have nf: "no_free_pair (heap_items (hp_mem s') ys)" unfolding s'(3) by (rule no_free_pair_squash)
  have d: "hp_mem s' (data_byte u k) = hp_mem s (data_byte u k)" if "u \<in> set xs" "k < unat (item_size (hp_mem s) u)" for u k
    using s'(4) data_outside [of "hp_mem s" "unat (heap_top s)" xs u k] assms(1) that unat_u32_bound [of "heap_top s"]
    unfolding heap_ok_def by auto
  have l: "ph_log (hp_phys s') = ph_log (hp_phys s) @ [mutex_lock mm_kmallocLock, mutex_unlock mm_kmallocLock]"
    unfolding s'(5) by (simp add: with_lock_def)
  show "\<exists>s' ys. mm_kfree (a + 12) s = Some s' \<and> heap_ok s' ys \<and>
    heap_items (hp_mem s') ys = squash (release a (heap_items (hp_mem s) xs)) \<and> no_free_pair (heap_items (hp_mem s') ys) \<and>
    filter (\<lambda>(b, n, u). u) (heap_items (hp_mem s') ys) = filter (\<lambda>(b, n, u). u \<and> b \<noteq> a) (heap_items (hp_mem s) xs) \<and>
    (\<forall>u \<in> set xs. \<forall>k < unat (item_size (hp_mem s) u). hp_mem s' (data_byte u k) = hp_mem s (data_byte u k)) \<and>
    ph_log (hp_phys s') = ph_log (hp_phys s) @ [mutex_lock mm_kmallocLock, mutex_unlock mm_kmallocLock]"
    using s'(1-3) f nf d l by blast
  show "\<forall>b. b \<noteq> NULL \<and> b - 12 \<notin> set xs \<longrightarrow> mm_kfree b s = Some (s\<lparr>hp_phys := with_lock (hp_phys s)\<rparr>)"
    using kfree_unknown [OF assms(1)] by blast
qed

theorem kfree_squashes_witness:
  "\<exists>s' ys. mm_kfree 0xD000000C ex_heap = Some s' \<and> heap_ok s' ys \<and> heap_items (hp_mem s') ys = [(0xD0000000, 4080, False)]"
proof -
  have "squash (release 0xD0000000 (heap_items (hp_mem ex_heap) [0xD0000000, 0xD0000074])) = [(0xD0000000, 4080, False)]"
    by (simp add: release_def item_of_def ex_heap_def ex_heap_items)
  moreover have "(0xD0000000 :: u32) \<in> set [0xD0000000, 0xD0000074]" "(0xD0000000 :: u32) + 12 = 0xD000000C" by simp_all
  ultimately show ?thesis using kfree_squashes [OF ex_heap_ok, of "0xD0000000"] by metis
qed

text \<open>
  Growing a heap that has items does not link the new one: the list and its items stay as they
  were, although pages are mapped for it, and freeing the address that was handed out does
  nothing, so the memory is lost.
\<close>

theorem growth_is_lost:
  assumes "heap_ok s xs" "\<forall>y \<in> set xs. item_used (hp_mem s) y \<or> item_size (hp_mem s) y < total_size n"
    "n \<noteq> 0" "unat n + 19 < 2 ^ 31" "phys_ok (hp_phys s)" "aligned4 (heap_top s)"
    "unat (heap_top s) + (unat (total_size n) div 4096 + 1) * 4096 + 4096 \<le> 2 ^ 32"
  shows "\<exists>s'. mm_kmalloc n s = Some (heap_top s + 12, s') \<and> heap_ok s' xs \<and> heap_items (hp_mem s') xs = heap_items (hp_mem s) xs \<and>
    length (hp_maps s') = length (hp_maps s) + (unat (total_size n) div 4096 + 1) \<and>
    mm_kfree (heap_top s + 12) s' = Some (s'\<lparr>hp_phys := with_lock (hp_phys s')\<rparr>)"
proof -
  obtain s' where s': "mm_kmalloc n s = Some (heap_top s + 12, s')" "heap_ok s' xs" "heap_items (hp_mem s') xs = heap_items (hp_mem s) xs"
    "length (hp_maps s') = length (hp_maps s) + heap_need (Kmalloc n) div 4096"
    using kmalloc_grow_keeps [OF assms(1-6)] assms(7) by auto
  have "heap_top s \<notin> set xs" using heap_okD(2) [OF assms(1), of "heap_top s"] by auto
  moreover have "heap_top s + 12 \<noteq> NULL"
  proof
    assume "heap_top s + 12 = NULL"
    moreover have e: "unat (12 :: u32) = 12" by simp
    have "unat (heap_top s + 12) = unat (heap_top s) + 12"
      using unat_add_nowrap [of "heap_top s" 12] assms(7) unfolding e by linarith
    ultimately show False by simp
  qed
  ultimately have "mm_kfree (heap_top s + 12) s' = Some (s'\<lparr>hp_phys := with_lock (hp_phys s')\<rparr>)"
    by (intro kfree_unknown [OF s'(2)]) simp_all
  then show ?thesis using s' by (intro exI [of _ s']) simp
qed

theorem growth_is_lost_witness:
  "\<exists>s'. mm_kmalloc 8000 ex_heap = Some (0xD000100C, s') \<and> heap_ok s' [0xD0000000, 0xD0000074] \<and>
     mm_kfree 0xD000100C s' = Some (s'\<lparr>hp_phys := with_lock (hp_phys s')\<rparr>)"
  using growth_is_lost [OF ex_heap_ok, of 8000] small_phys_ok
  by (auto simp: ex_heap_def ex_heap_items ex_total_size aligned4_def)

text \<open>
  The first allocation maps the pages it needs from the base of the heap on and leaves a well-formed
  heap of the new item and the free rest, except when the item with its header ends four bytes
  before the end of a page: the size of the rest then wraps around to almost 4 GB, and the
  next allocation is answered without growing the heap, with an address behind its top.
\<close>

theorem first_allocation:
  assumes "heap_top s = NULL" "heap_base s \<noteq> NULL" "aligned4 (heap_base s)" "n \<noteq> 0" "unat n + 19 < 2 ^ 31" "phys_ok (hp_phys s)"
    "unat (heap_base s) + (unat (total_size n) div 4096 + 1) * 4096 + 4096 \<le> 2 ^ 32"
  shows "\<exists>s'. mm_kmalloc n s = Some (heap_base s + 12, s') \<and>
    map fst (hp_maps s') = map fst (hp_maps s) @ map (\<lambda>i. heap_base s + of_nat (i * 4096)) [0..<unat (total_size n) div 4096 + 1] \<and>
    (if unat (total_size n) mod 4096 \<noteq> 4092
     then heap_ok s' [heap_base s, heap_base s + total_size n] \<and> item_of (hp_mem s') (heap_base s) = (heap_base s, n, True)
     else \<forall>k. k \<noteq> 0 \<and> total_size k \<le> 4294967288 \<longrightarrow>
       (\<exists>s''. mm_kmalloc k s' = Some (heap_top s' + 8, s'') \<and> heap_top s'' = heap_top s' \<and> hp_maps s'' = hp_maps s'))"
proof -
  let ?B = "heap_base s" and ?tot = "total_size n" and ?b = "heap_base s + total_size n"
  let ?k = "unat (total_size n) div 4096 + 1"
  have n32: "unat n + 19 < 2 ^ 32" using assms(5) by simp
  have "find_fit ?tot s = Some NULL" using assms(1) by (simp add: find_fit_def)
  from kmalloc_grow [of n s, OF this] assms obtain s' as ph where
    s': "mm_kmalloc n s = Some (?B + 12, s')"
      "alloc_n physical_pageAlloc ?k (emit (mutex_lock mm_kmallocLock) (hp_phys s)) = Some (as, ph)"
      "hp_maps s' = hp_maps s @ map (\<lambda>(i, a). (?B + of_nat (i * 4096), a, True)) (enumerate 0 as)"
      "heap_base s' = ?B" "unat (heap_top s') = unat ?B + ?k * 4096"
      "item_of (hp_mem s') ?B = (?B, n, True)" "item_next (hp_mem s') ?B = ?b"
      "item_of (hp_mem s') ?b = (?b, leftover_size ?tot, False)" "item_next (hp_mem s') ?b = NULL"
    by auto
  have len: "length as = ?k" using phys_alloc.alloc_n_pages [OF _ s'(2)] assms(6) by simp
  have maps: "map fst (hp_maps s') = map fst (hp_maps s) @ map (\<lambda>i. ?B + of_nat (i * 4096)) [0..<?k]"
  proof -
    have "map fst (map (\<lambda>(i, a). (?B + of_nat (i * 4096), a, True)) (enumerate 0 as)) =
        map (\<lambda>i. ?B + of_nat (i * 4096)) (map fst (enumerate 0 as))"
      by (simp only: map_map comp_def split_beta fst_conv)
    then show ?thesis unfolding s'(3) by (simp only: map_append map_fst_enumerate len add_0)
  qed
  have tot: "unat n + 12 \<le> unat ?tot" "unat ?tot mod 8 = 4" "aligned4 ?tot"
    using total_size_room [OF n32] total_size_mod [OF n32] total_size_aligned [OF n32] by simp_all
  have small: "unat ?tot < 2 ^ 31" using unat_total_size [OF n32] assms(5) by presburger
  note left = leftover_exact [OF small tot(2)]
  have le: "unat ?tot < ?k * 4096" by (rule page_count)
  then have ub: "unat ?b = unat ?B + unat ?tot" using unat_add_nowrap [of ?B ?tot] assms(7) by linarith
  have top: "heap_top s' \<noteq> NULL"
  proof
    assume "heap_top s' = NULL"
    then show False using s'(5) by simp
  qed
  have b0: "?b \<noteq> NULL"
  proof
    assume "?b = NULL"
    then have "unat ?b = 0" by (metis unat_0)
    then show False using ub tot(1) by simp
  qed
  have f: "item_size (hp_mem s') ?B = n" "item_used (hp_mem s') ?B" "item_size (hp_mem s') ?b = leftover_size ?tot" "\<not> item_used (hp_mem s') ?b"
    using s'(6,8) by (simp_all add: item_of_def)
  show ?thesis
  proof (cases "unat ?tot mod 4096 = 4092")
    case False
    then have l: "unat (leftover_size ?tot) = ?k * 4096 - unat ?tot - 12" using left by simp
    define r where "r = unat ?tot mod 4096"
    have "r < 4096" "r mod 8 = 4" "r \<noteq> 4092" using tot(2) False by (simp_all add: r_def mod_mod_cancel)
    then have "r \<le> 4084" by presburger
    then have "unat ?tot mod 4096 \<le> 4084" by (simp add: r_def)
    then have r: "unat ?tot + 12 \<le> ?k * 4096" by (rule page_rest)
    have "heap_ok s' [?B, ?b]"
      using s'(4,5,7,9) f ub b0 top assms(2,3) tot l r aligned4_add [OF assms(3) tot(3)] by (simp add: heap_ok_def)
    then show ?thesis using False s'(1,6) maps by (intro exI [of _ s']) simp
  next
    case True
    then have l: "leftover_size ?tot = 4294967288" using left by simp
    have "unat ?tot + 4 = ?k * 4096" using True by (rule page_rest4)
    then have ht4: "unat (heap_top s') = unat ?b + 4" using s'(5) ub by simp
    have e: "unat (4 :: u32) = 4" by simp
    have "unat ?b + 4 < 2 ^ 32" using ht4 unat_u32_bound [of "heap_top s'"] by simp
    then have "unat (?b + 4) = unat ?b + 4" by (rule unat_add_nowrap [of ?b 4, unfolded e])
    with ht4 have ht: "heap_top s' = ?b + 4" by (simp add: word_unat_eq_iff)
    have "\<exists>s''. mm_kmalloc k s' = Some (heap_top s' + 8, s'') \<and> heap_top s'' = heap_top s' \<and> hp_maps s'' = hp_maps s'"
      if k: "k \<noteq> 0" "total_size k \<le> 4294967288" for k
    proof -
      have ff: "find_fit (total_size k) s' = Some ?b"
        using top f s'(4,7) k(2) b0 assms(2) by (simp add: find_fit_def chase.simps l)
      have "?b + 12 = heap_top s' + 8" unfolding ht by simp
      then show ?thesis using ff k(1) b0 by (auto simp: mm_kmalloc_def Let_def HEAPITEM_SIZE_def)
    qed
    then show ?thesis using True s'(1) maps by (intro exI [of _ s']) simp
  qed
qed

theorem first_allocation_witness:
  "\<exists>s'. mm_kmalloc 4080 (ex_heap\<lparr>heap_top := NULL\<rparr>) = Some (0xD000000C, s') \<and> map fst (hp_maps s') = [0xD0000000] \<and>
     (\<exists>s''. mm_kmalloc 8000 s' = Some (heap_top s' + 8, s'') \<and> heap_top s'' = heap_top s')"
proof -
  have t: "total_size 4080 = 4092" by (simp add: total_size_def HEAPITEM_SIZE_def)
  obtain s' where s': "mm_kmalloc 4080 (ex_heap\<lparr>heap_top := NULL\<rparr>) = Some (0xD000000C, s')"
    "map fst (hp_maps s') = map (\<lambda>i. 0xD0000000 + of_nat (i * 4096)) [0..<1]"
    "\<forall>k. k \<noteq> 0 \<and> total_size k \<le> 4294967288 \<longrightarrow>
       (\<exists>s''. mm_kmalloc k s' = Some (heap_top s' + 8, s'') \<and> heap_top s'' = heap_top s' \<and> hp_maps s'' = hp_maps s')"
    using first_allocation [of "ex_heap\<lparr>heap_top := NULL\<rparr>" 4080] small_phys_ok
    by (auto simp: ex_heap_def t aligned4_def)
  have "(8000 :: u32) \<noteq> 0 \<and> total_size 8000 \<le> 4294967288" by (simp add: ex_total_size)
  then have "\<exists>s''. mm_kmalloc 8000 s' = Some (heap_top s' + 8, s'') \<and> heap_top s'' = heap_top s' \<and> hp_maps s'' = hp_maps s'"
    using s'(3) [THEN spec, of 8000] by (rule rev_mp)
  then obtain s'' where k: "mm_kmalloc 8000 s' = Some (heap_top s' + 8, s'')" "heap_top s'' = heap_top s'"
    by (elim exE conjE)
  have "map fst (hp_maps s') = [0xD0000000]" using s'(2) by simp
  then show ?thesis by (intro exI [of _ s'] exI [of _ s''] conjI s'(1) k)
qed

text \<open>
  Above 0xFFFFFFF0 the size of the item wraps around to 4 or 12 bytes. Such a request is granted by any free
  item, with the size asked for in its header: the heap is not well formed any more.
\<close>

lemma wrapped_total: "0xFFFFFFF0 < n \<Longrightarrow> total_size n = (if n \<le> 0xFFFFFFF8 then 4 else 12)"
proof -
  assume "0xFFFFFFF0 < n"
  then have "4294967280 < unat n" by (simp add: word_less_nat_alt)
  moreover have "unat n < 4294967296" using unat_u32_bound [of n] by simp
  ultimately have "unat n - 4294967281 < 15" "unat n = 4294967281 + (unat n - 4294967281)" by linarith+
  then obtain j where j: "unat n = 4294967281 + j" "j < 15" by blast
  have n: "n = 0xFFFFFFF1 + of_nat j" using arg_cong [OF j(1), of "of_nat :: nat \<Rightarrow> u32"] by simp
  have "j \<in> {0, 1, 2, 3, 4, 5, 6, 7, 8, 9, 10, 11, 12, 13, 14}"
    using j(2) unfolding insert_iff empty_iff by presburger
  then show ?thesis unfolding n total_size_def HEAPITEM_SIZE_def by auto
qed

theorem kmalloc_size_wraps:
  assumes "heap_ok s (a # zs)" "\<not> item_used (hp_mem s) a" "12 \<le> item_size (hp_mem s) a" "0xFFFFFFF0 < n"
  shows "\<exists>s'. mm_kmalloc n s = Some (a + 12, s') \<and> heap_base s' = a \<and> item_size (hp_mem s') a = n \<and> (\<nexists>xs. heap_ok s' xs)"
proof -
  let ?b = "a + total_size n"
  note a = heap_okD [OF assms(1), of a, simplified]
  have "total_size n \<le> 12" using wrapped_total [OF assms(4)] by simp
  then have "total_size n \<le> item_size (hp_mem s) a" using assms(3) by (rule order_trans)
  then have f: "find_fit (total_size n) s = Some a" using find_fit_first [of s "[]" a zs] assms(1,2) by simp
  have b: "heap_base s = a" using assms(1) by (simp add: heap_ok_def)
  have n0: "n \<noteq> 0" using assms(4) by auto
  define m0 where "m0 = put_used ?b False (put_size ?b (item_size (hp_mem s) a - total_size n) (hp_mem s))"
  define m1 where "m1 = put_next ?b (item_next m0 a) m0"
  define m2 where "m2 = put_next a ?b (put_used a True (put_size a n m1))"
  define s' where "s' = hp_emit (mutex_unlock mm_kmallocLock) ((hp_emit (mutex_lock mm_kmallocLock) s)\<lparr>hp_mem := m2\<rparr>)"
  have "mm_kmalloc n s = Some (a + 12, s')"
    unfolding mm_kmalloc_def s'_def m2_def m1_def m0_def using f n0 a(5) by (simp add: Let_def HEAPITEM_SIZE_def)
  moreover have "heap_base s' = a" "item_size (hp_mem s') a = n" using b a(1) by (simp_all add: s'_def m2_def)
  ultimately have s': "mm_kmalloc n s = Some (a + 12, s')" "heap_base s' = a" "item_size (hp_mem s') a = n" by blast+
  have False if ok: "heap_ok s' xs" for xs
  proof -
    have "xs \<noteq> []" using ok s'(2) a(5) by (auto simp: heap_ok_def)
    then have "a \<in> set xs" using ok s'(2) by (cases xs) (simp_all add: heap_ok_def)
    then have "unat a + 12 + unat n \<le> unat (heap_top s')" using heap_okD(2) [OF ok, of a] s'(3) by simp
    moreover have "4294967280 < unat n" using assms(4) by (simp add: word_less_nat_alt)
    moreover have "unat a \<noteq> 0" using a(5) by (simp add: unat_eq_0)
    moreover have "aligned4 a" by (rule a(1))
    then have "4 \<le> unat a" using \<open>unat a \<noteq> 0\<close> unfolding aligned4_def by presburger
    moreover have "unat (heap_top s') < 4294967296" using unat_u32_bound [of "heap_top s'"] by simp
    ultimately show False by linarith
  qed
  then show ?thesis using s' by blast
qed




end
