(* ===== verification/Paging.thy ===== *)
theory Paging
  imports PageMem Physical "HOL-Library.Monad_Syntax"
begin

text \<open>
  Page directories and page tables: MimicOS/src/kernel/mm/paging.c with
  MimicOS/include/kernel/mm/paging.h. The tables live in physical memory; the code reaches them
  through \<open>paging_mapQuick\<close>, which the repository declares but does not define and which is an
  argument (\<open>mq\<close>) here: it makes a physical page visible at some virtual address.
\<close>

section \<open>Macros\<close>

definition PAGE_ENTRYS :: nat where "PAGE_ENTRYS = 1024"

definition PAGE_ALIGN :: "u32 \<Rightarrow> u32" where
  "PAGE_ALIGN address = (address + SIZE_4KB - 1) AND NOT (SIZE_4KB - 1)"

definition READONLY :: u32 where "READONLY = 0"
definition READWRITE :: u32 where "READWRITE = 1"
definition OFFSET_MASK :: u32 where "OFFSET_MASK = 0x03FF"

definition DIRECTORY_SHIFT_R :: "u32 \<Rightarrow> u32" where "DIRECTORY_SHIFT_R address = drop_bit 22 address"
definition TABLE_SHIFT_R :: "u32 \<Rightarrow> u32" where "TABLE_SHIFT_R address = drop_bit 12 address"
definition TABLE_SHIFT_L :: "u32 \<Rightarrow> u32" where "TABLE_SHIFT_L address = push_bit 12 address"

definition GET_PDE :: "u32 \<Rightarrow> u32" where "GET_PDE v = 0xFFFFF000 + DIRECTORY_SHIFT_R v * 4"
definition GET_PTE :: "u32 \<Rightarrow> u32" where "GET_PTE v = 0xFFC00000 + TABLE_SHIFT_R v * 4"

definition GET_DIRECTORY_INDEX :: "u32 \<Rightarrow> u32" where
  "GET_DIRECTORY_INDEX linearAddress = DIRECTORY_SHIFT_R linearAddress AND OFFSET_MASK"
definition GET_TABLE_INDEX :: "u32 \<Rightarrow> u32" where
  "GET_TABLE_INDEX linearAddress = TABLE_SHIFT_R linearAddress AND OFFSET_MASK"

section \<open>Entries\<close>

text \<open>The fields of the two kinds of entries, each with its first bit and its width.\<close>

datatype PAGE_DIRECTORY_ENTRY = Pde_present | Pde_readwrite | Pde_user | Pde_writethrough | Pde_cachedisabled
  | Pde_accessed | Pde_reserved | Pde_pagesize | Pde_globalpage | Pde_available | Pde_address

primrec pde_bits :: "PAGE_DIRECTORY_ENTRY \<Rightarrow> nat \<times> nat" where
  "pde_bits Pde_present = (0, 1)"
| "pde_bits Pde_readwrite = (1, 1)"
| "pde_bits Pde_user = (2, 1)"
| "pde_bits Pde_writethrough = (3, 1)"
| "pde_bits Pde_cachedisabled = (4, 1)"
| "pde_bits Pde_accessed = (5, 1)"
| "pde_bits Pde_reserved = (6, 1)"
| "pde_bits Pde_pagesize = (7, 1)"
| "pde_bits Pde_globalpage = (8, 1)"
| "pde_bits Pde_available = (9, 3)"
| "pde_bits Pde_address = (12, 20)"

datatype PAGE_TABLE_ENTRY = Pte_present | Pte_readwrite | Pte_user | Pte_writethrough | Pte_cachedisabled
  | Pte_accessed | Pte_dirty | Pte_attributeindex | Pte_globalpage | Pte_available | Pte_address

primrec pte_bits :: "PAGE_TABLE_ENTRY \<Rightarrow> nat \<times> nat" where
  "pte_bits Pte_present = (0, 1)"
| "pte_bits Pte_readwrite = (1, 1)"
| "pte_bits Pte_user = (2, 1)"
| "pte_bits Pte_writethrough = (3, 1)"
| "pte_bits Pte_cachedisabled = (4, 1)"
| "pte_bits Pte_accessed = (5, 1)"
| "pte_bits Pte_dirty = (6, 1)"
| "pte_bits Pte_attributeindex = (7, 1)"
| "pte_bits Pte_globalpage = (8, 1)"
| "pte_bits Pte_available = (9, 3)"
| "pte_bits Pte_address = (12, 20)"

definition get_bits :: "nat \<times> nat \<Rightarrow> u32 \<Rightarrow> u32" where
  "get_bits f w = take_bit (snd f) (drop_bit (fst f) w)"

definition set_bits :: "nat \<times> nat \<Rightarrow> u32 \<Rightarrow> u32 \<Rightarrow> u32" where
  "set_bits f v w = (w AND NOT (push_bit (fst f) (mask (snd f)))) OR push_bit (fst f) (take_bit (snd f) v)"

section \<open>State\<close>

text \<open>
  Physical memory, the translation of the current address space, the page allocator (and the log),
  the control register. A process is what the code uses of \<open>PROCESS_INFO\<close>.
\<close>

record pg =
  pg_mem :: memory
  pg_view :: "u32 \<Rightarrow> u32"
  pg_phys :: phys
  pg_cr3 :: u32

record process =
  page_dir :: u32
  privilege :: u32
  proc_id :: int

type_synonym quickmap = "u32 \<Rightarrow> pg \<Rightarrow> u32 \<times> pg"

definition pg_emit :: "event \<Rightarrow> pg \<Rightarrow> pg" where
  "pg_emit e s = s\<lparr>pg_phys := emit e (pg_phys s)\<rparr>"

definition vload :: "pg \<Rightarrow> u32 \<Rightarrow> u32" where
  "vload s v = load32 (pg_mem s) (pg_view s v)"

definition vstore :: "u32 \<Rightarrow> u32 \<Rightarrow> pg \<Rightarrow> pg" where
  "vstore v x s = s\<lparr>pg_mem := store32 (pg_mem s) (pg_view s v) x\<rparr>"

definition put_pde :: "u32 \<Rightarrow> PAGE_DIRECTORY_ENTRY \<Rightarrow> u32 \<Rightarrow> pg \<Rightarrow> pg" where
  "put_pde pde f x s = vstore pde (set_bits (pde_bits f) x (vload s pde)) s"

definition put_pte :: "u32 \<Rightarrow> PAGE_TABLE_ENTRY \<Rightarrow> u32 \<Rightarrow> pg \<Rightarrow> pg" where
  "put_pte pte f x s = vstore pte (set_bits (pte_bits f) x (vload s pte)) s"

section \<open>Operations\<close>

definition paging_setCurrentPageDir :: "u32 \<Rightarrow> pg \<Rightarrow> pg" where
  "paging_setCurrentPageDir pd s = s\<lparr>pg_cr3 := pd\<rparr>"

definition paging_getPageDirectoryEntry :: "quickmap \<Rightarrow> u32 \<Rightarrow> u32 \<Rightarrow> pg \<Rightarrow> u32 \<times> pg" where
  "paging_getPageDirectoryEntry mq pd linearAddress s =
     (let (pd, s) = mq pd s in (entry_at pd (GET_DIRECTORY_INDEX linearAddress), s))"

definition paging_setPageDirectoryEntry :: "quickmap \<Rightarrow> process \<Rightarrow> u32 \<Rightarrow> u32 \<Rightarrow> pg \<Rightarrow> pg" where
  "paging_setPageDirectoryEntry mq p linearAddress pt s =
     (let (pde, s) = paging_getPageDirectoryEntry mq (page_dir p) linearAddress s;
          s = put_pde pde Pde_present 1 s;
          s = put_pde pde Pde_readwrite READWRITE s;
          s = put_pde pde Pde_user (privilege p) s;
          s = put_pde pde Pde_writethrough 0 s;
          s = put_pde pde Pde_cachedisabled 0 s;
          s = put_pde pde Pde_accessed 0 s;
          s = put_pde pde Pde_reserved 0 s;
          s = put_pde pde Pde_pagesize 0 s;
          s = put_pde pde Pde_globalpage 0 s;
          s = put_pde pde Pde_available 0 s
      in put_pde pde Pde_address (TABLE_SHIFT_R pt) s)"

definition write_pte :: "process \<Rightarrow> u32 \<Rightarrow> u32 \<Rightarrow> u32 \<Rightarrow> pg \<Rightarrow> pg" where
  "write_pte p pte physicalAddress present s =
     (let s = put_pte pte Pte_present present s;
          s = put_pte pte Pte_readwrite READWRITE s;
          s = put_pte pte Pte_user (privilege p) s;
          s = put_pte pte Pte_writethrough 0 s;
          s = put_pte pte Pte_cachedisabled 0 s;
          s = put_pte pte Pte_accessed 0 s;
          s = put_pte pte Pte_dirty 0 s;
          s = put_pte pte Pte_attributeindex 0 s;
          s = put_pte pte Pte_globalpage 0 s;
          s = put_pte pte Pte_available 0 s
      in put_pte pte Pte_address (TABLE_SHIFT_R (PAGE_ALIGN physicalAddress)) s)"

text \<open>
  Finding an entry allocates its table when there is none and then clears entries with the setter,
  which finds each entry in turn. The first argument bounds the depth of these calls; the
  clearing loop is given the number of entries that are left.
\<close>

fun paging_getPageTableEntry :: "nat \<Rightarrow> quickmap \<Rightarrow> process \<Rightarrow> u32 \<Rightarrow> pg \<Rightarrow> (u32 \<times> pg) option"
  and paging_setPageTableEntry :: "nat \<Rightarrow> quickmap \<Rightarrow> process \<Rightarrow> u32 \<Rightarrow> u32 \<Rightarrow> u32 \<Rightarrow> pg \<Rightarrow> pg option"
  and clear_entries :: "nat \<Rightarrow> quickmap \<Rightarrow> process \<Rightarrow> u32 \<Rightarrow> nat \<Rightarrow> pg \<Rightarrow> pg option" where
  "paging_getPageTableEntry 0 mq p linearAddress s = None"
| "paging_getPageTableEntry (Suc depth) mq p linearAddress s =
     (let (pde, s) = paging_getPageDirectoryEntry mq (page_dir p) linearAddress s;
          pt = TABLE_SHIFT_L (get_bits (pde_bits Pde_address) (vload s pde))
      in do {
        (pt, s) \<leftarrow> (if pt = NULL then do {
            (pt, ph) \<leftarrow> physical_pageAlloc (pg_phys s);
            s \<leftarrow> clear_entries depth mq p linearAddress PAGE_ENTRYS
                  (paging_setPageDirectoryEntry mq p linearAddress pt (s\<lparr>pg_phys := ph\<rparr>));
            Some (pt, s)
          } else Some (pt, s));
        let (pt, s) = mq pt s;
        Some (entry_at pt (GET_TABLE_INDEX linearAddress), s)
      })"
| "paging_setPageTableEntry depth mq p linearAddress physicalAddress present s = do {
     (pte, s) \<leftarrow> paging_getPageTableEntry depth mq p (PAGE_ALIGN linearAddress) s;
     Some (write_pte p pte physicalAddress present s)
   }"
| "clear_entries depth mq p linearAddress 0 s = Some s"
| "clear_entries depth mq p linearAddress (Suc left) s = do {
     s \<leftarrow> paging_setPageTableEntry depth mq p
           (linearAddress + of_nat (PAGE_ENTRYS - Suc left) * SIZE_4KB) NULL 0 s;
     clear_entries depth mq p linearAddress left s
   }"

text \<open>
  The handler of page faults. Printing is left out; \<open>kill\<close> and \<open>select\<close> are the process manager and
  the scheduler. A fault of the kernel panics and, should that return, goes on like any other.
\<close>

definition KERNEL_PID :: int where "KERNEL_PID = 0"

definition paging_pageFaultHandler ::
    "(int \<Rightarrow> pg \<Rightarrow> int \<times> pg) \<Rightarrow> (pg \<Rightarrow> process \<times> pg) \<Rightarrow> process \<Rightarrow> pg \<Rightarrow> process \<times> pg" where
  "paging_pageFaultHandler kill select process s =
     (let s = (if proc_id process = KERNEL_PID then pg_emit (kernel_panic ''Kernel Page Fault.'') s else s);
          (r, s) = kill (proc_id process) s
      in if r = SUCCESS then select s else (process, s))"

definition clear_page :: "u32 \<Rightarrow> pg \<Rightarrow> pg" where
  "clear_page pd s = s\<lparr>pg_mem := memset (pg_mem s) (pg_view s pd) 0x00 4096\<rparr>"

fun init_directory :: "process \<Rightarrow> u32 \<Rightarrow> nat \<Rightarrow> pg \<Rightarrow> pg" where
  "init_directory p pd 0 s = s"
| "init_directory p pd (Suc left) s =
     (let index = PAGE_ENTRYS - Suc left;
          pde = entry_at pd (of_nat index);
          s = put_pde pde Pde_user (privilege p) s;
          s = (if index = PAGE_ENTRYS - 1
               then let s = put_pde pde Pde_present 1 s;
                        s = put_pde pde Pde_readwrite READWRITE s
                    in put_pde pde Pde_address (TABLE_SHIFT_R (page_dir p)) s
               else let s = put_pde pde Pde_present 0 s
                    in put_pde pde Pde_readwrite READONLY s)
      in init_directory p pd left s)"

definition paging_createDirectory :: "quickmap \<Rightarrow> process \<Rightarrow> pg \<Rightarrow> (int \<times> process \<times> pg) option" where
  "paging_createDirectory mq p s = do {
     let s = pg_emit (mutex_lock paging_lock) s;
     (pd, ph) \<leftarrow> physical_pageAlloc (pg_phys s);
     let s = s\<lparr>pg_phys := ph\<rparr>;
     let p = p\<lparr>page_dir := pd\<rparr>;
     if page_dir p = NULL then Some (FAIL, p, pg_emit (mutex_unlock paging_lock) s)
     else do {
       let (pd, s) = mq (page_dir p) s;
       let s = clear_page pd s;
       let s = init_directory p pd PAGE_ENTRYS s;
       Some (SUCCESS, p, pg_emit (mutex_unlock paging_lock) s)
     }
   }"

definition paging_destroyDirectory :: "process \<Rightarrow> pg \<Rightarrow> pg" where
  "paging_destroyDirectory p s = s"

end
