(* ===== verification/PagingProps.thy ===== *)
theory PagingProps
  imports Paging PhysicalInit
begin

text \<open>
  Properties of the paging code: the value an entry gets, the entry a linear address belongs to, and
  what setting an entry does to every other entry, with and without an existing table.
\<close>

section \<open>Addresses\<close>

lemma unat_PAGE_ALIGN:
  "unat a + 4095 < 2 ^ 32 \<Longrightarrow> unat (PAGE_ALIGN a) = (unat a + 4095) div 4096 * 4096"
proof -
  assume a: "unat a + 4095 < 2 ^ 32"
  have e: "unat (4095 :: u32) = 4095" by simp
  have m: "(4095 :: u32) = mask 12" by (simp add: mask_eq_exp_minus_1)
  have "PAGE_ALIGN a = (a + 4095) AND NOT (mask 12)" by (simp add: PAGE_ALIGN_def SIZE_4KB_def add.commute flip: m)
  then show ?thesis using unat_add_nowrap [of a 4095] a unfolding e by (simp add: unat_and_not_mask)
qed

lemma page_aligned_word: "page_aligned a \<longleftrightarrow> unat a = page a * 4096"
  unfolding page_aligned_def page_def by (rule page_split [of "unat a"]) simp

lemma page_aligned_room: "page_aligned a \<Longrightarrow> unat a + 4095 < 2 ^ 32"
  using page_bound [of a] by (simp add: page_aligned_word)

lemma PAGE_ALIGN_aligned: "page_aligned a \<Longrightarrow> PAGE_ALIGN a = a"
proof -
  assume a: "page_aligned a"
  have "unat (PAGE_ALIGN a) = (page a * 4096 + 4095) div 4096 * 4096"
    using unat_PAGE_ALIGN [OF page_aligned_room [OF a]] a by (simp add: page_aligned_word)
  also have "\<dots> = unat a" using a by (simp add: page_aligned_word)
  finally show ?thesis by (simp add: word_unat_eq_iff)
qed

lemma table_shift_aligned: "page_aligned (TABLE_SHIFT_L x)"
  unfolding page_aligned_def TABLE_SHIFT_L_def unsigned_push_bit_eq
  by (simp add: take_bit_push_bit) (simp add: push_bit_eq_mult)

lemma mask10: "OFFSET_MASK = mask 10"
  by (simp add: OFFSET_MASK_def mask_eq_exp_minus_1)

lemma unat_table_indices:
  "unat (GET_DIRECTORY_INDEX a) = page a div 1024" "unat (GET_TABLE_INDEX a) = page a mod 1024"
proof -
  have "unat a div 4194304 = page a div 1024" by (simp add: page_def div_mult2_eq [symmetric])
  moreover have "page a div 1024 < 1024" using page_bound [of a] by (simp add: div_less_iff_less_mult)
  ultimately show "unat (GET_DIRECTORY_INDEX a) = page a div 1024"
    by (simp add: GET_DIRECTORY_INDEX_def DIRECTORY_SHIFT_R_def mask10 unat_and_mask unat_drop_bit_div)
  show "unat (GET_TABLE_INDEX a) = page a mod 1024"
    by (simp add: GET_TABLE_INDEX_def TABLE_SHIFT_R_def mask10 unat_and_mask unat_drop_bit_div page_def)
qed

lemma table_indices_small [simp]: "unat (GET_DIRECTORY_INDEX a) < 1024" "unat (GET_TABLE_INDEX a) < 1024"
  using page_bound [of a] by (simp_all add: unat_table_indices div_less_iff_less_mult)

section \<open>The value of an entry\<close>

lemma bit_set_bits: "n < 32 \<Longrightarrow> bit (set_bits (o', w) v x) n \<longleftrightarrow> (if o' \<le> n \<and> n < o' + w then bit v (n - o') else bit x n)"
  by (auto simp: set_bits_def bit_simps)

lemma even_set_bits: "even (set_bits (0, Suc w) v x) \<longleftrightarrow> even v"
  using bit_set_bits [of 0 0 "Suc w" v x] by (simp add: bit_0)

definition entry_value :: "u32 \<Rightarrow> u32 \<Rightarrow> u32 \<Rightarrow> u32" where
  "entry_value user present a = push_bit 12 (drop_bit 12 a) OR push_bit 2 (take_bit 1 user) OR 2 OR take_bit 1 present"

lemma entry_address: "TABLE_SHIFT_L (get_bits (12, 20) (entry_value u b a)) = push_bit 12 (drop_bit 12 a)"
  by (rule bit_word_eqI) (auto simp: TABLE_SHIFT_L_def get_bits_def entry_value_def bit_simps)

lemma shift_aligned: "page_aligned a \<Longrightarrow> push_bit 12 (drop_bit 12 a) = a"
proof -
  assume a: "page_aligned a"
  have "unat (push_bit 12 (drop_bit 12 a)) = unat a div 4096 * 4096 mod 2 ^ 32"
    unfolding unsigned_push_bit_eq unat_drop_bit_div by (simp add: take_bit_eq_mod) (simp add: push_bit_eq_mult)
  also have "\<dots> = unat a" using a unat_u32_bound [of a] by (simp add: page_aligned_word page_def)
  finally show ?thesis by (simp add: word_unat_eq_iff)
qed

lemma store32_store32: "store32 (store32 m a v) a w = store32 m a w"
proof -
  have "a \<noteq> a + 1" "a \<noteq> a + 2" "a \<noteq> a + 3" "a + 1 \<noteq> a + 2" "a + 1 \<noteq> a + 3" "a + 2 \<noteq> a + 3" by simp_all
  then show ?thesis by (auto simp: store32_def fun_eq_iff)
qed

lemma put_put [simp]:
  "put_pde p f x (vstore p v s) = vstore p (set_bits (pde_bits f) x v) s"
  "put_pte p g x (vstore p v s) = vstore p (set_bits (pte_bits g) x v) s"
  by (simp_all add: put_pde_def put_pte_def vstore_def vload_def load32_store32_same store32_store32)

text \<open>Writing all the fields leaves nothing of the old word.\<close>

definition entry_word :: "u32 \<Rightarrow> u32 \<Rightarrow> u32 \<Rightarrow> u32 \<Rightarrow> u32" where
  "entry_word user present address w = set_bits (12, 20) address (set_bits (9, 3) 0 (set_bits (8, 1) 0 (set_bits (7, 1) 0
     (set_bits (6, 1) 0 (set_bits (5, 1) 0 (set_bits (4, 1) 0 (set_bits (3, 1) 0
     (set_bits (2, 1) user (set_bits (1, 1) READWRITE (set_bits (0, 1) present w))))))))))"

lemma entry_word_value: "entry_word user present (TABLE_SHIFT_R a) w = entry_value user present a"
  by (rule bit_word_eqI)
    (auto simp: entry_word_def bit_set_bits entry_value_def bit_simps READWRITE_def TABLE_SHIFT_R_def bit_0 even_set_bits not_less_eq_eq)

lemma write_pte_value:
  "write_pte p pte a present s = vstore pte (entry_value (privilege p) present (PAGE_ALIGN a)) s"
proof -
  have first: "put_pte pte Pte_present present s = vstore pte (set_bits (0, 1) present (vload s pte)) s"
    by (simp add: put_pte_def)
  show ?thesis
    unfolding write_pte_def Let_def first put_put pte_bits.simps
    by (simp only: entry_word_value flip: entry_word_def)
qed

section \<open>Finding entries\<close>

text \<open>
  What the code relies on: \<open>paging_mapQuick\<close> changes nothing but the translation, and makes the words
  of the physical page visible one after the other at the address it answers.
\<close>

definition quick_ok :: "quickmap \<Rightarrow> bool" where
  "quick_ok mq \<longleftrightarrow> (\<forall>pa s. page_aligned pa \<longrightarrow> (\<exists>v g. mq pa s = (v, s\<lparr>pg_view := g\<rparr>) \<and>
     (\<forall>i. unat i < 1024 \<longrightarrow> g (entry_at v i) = entry_at pa i)))"

text \<open>The entries of the page at a physical address, and the table of a slot of the directory.\<close>

abbreviation entry :: "pg \<Rightarrow> u32 \<Rightarrow> u32 \<Rightarrow> u32" where
  "entry s base i \<equiv> load32 (pg_mem s) (entry_at base i)"

definition table_of :: "pg \<Rightarrow> u32 \<Rightarrow> u32 \<Rightarrow> u32" where
  "table_of s dir i = TABLE_SHIFT_L (get_bits (12, 20) (entry s dir i))"

lemma table_of_aligned [simp]: "page_aligned (table_of s dir i)"
  by (simp add: table_of_def table_shift_aligned)

lemma entry_vstore:
  assumes "page_aligned b" "page_aligned b'" "unat i < 1024" "unat i' < 1024" "pg_view s v = entry_at b i"
  shows "load32 (pg_mem (vstore v x s)) (entry_at b' i') = (if b' = b \<and> i' = i then x else entry s b' i')"
  using assms entry_at_aligned4 [of b i] entry_at_aligned4 [of b' i']
  by (simp add: vstore_def load32_store32_aligned entry_at_inject)

lemma quick_at:
  assumes "quick_ok mq" "page_aligned pa"
  obtains v g where "mq pa s = (v, s\<lparr>pg_view := g\<rparr>)" "\<And>i. unat i < 1024 \<Longrightarrow> g (entry_at v i) = entry_at pa i"
  using assms unfolding quick_ok_def by blast

lemma getPageDirectoryEntry_at:
  assumes "quick_ok mq" "page_aligned dir"
  obtains v g where "paging_getPageDirectoryEntry mq dir a s = (v, s\<lparr>pg_view := g\<rparr>)"
    "g v = entry_at dir (GET_DIRECTORY_INDEX a)"
proof -
  obtain v g where "mq dir s = (v, s\<lparr>pg_view := g\<rparr>)" "\<And>i. unat i < 1024 \<Longrightarrow> g (entry_at v i) = entry_at dir i"
    by (rule quick_at [OF assms, of s], rule that)
  then show thesis by (intro that [of "entry_at v (GET_DIRECTORY_INDEX a)" g]) (simp_all add: paging_getPageDirectoryEntry_def)
qed

lemma setPageDirectoryEntry_at:
  assumes "quick_ok mq" "page_aligned (page_dir p)"
  obtains g where "paging_setPageDirectoryEntry mq p a pt s =
      s\<lparr>pg_view := g, pg_mem := store32 (pg_mem s) (entry_at (page_dir p) (GET_DIRECTORY_INDEX a)) (entry_value (privilege p) 1 pt)\<rparr>"
proof -
  obtain v g where v: "paging_getPageDirectoryEntry mq (page_dir p) a s = (v, s\<lparr>pg_view := g\<rparr>)"
    "g v = entry_at (page_dir p) (GET_DIRECTORY_INDEX a)"
    by (rule getPageDirectoryEntry_at [OF assms])
  have first: "put_pde v Pde_present 1 (s\<lparr>pg_view := g\<rparr>) = vstore v (set_bits (0, 1) 1 (vload (s\<lparr>pg_view := g\<rparr>) v)) (s\<lparr>pg_view := g\<rparr>)"
    by (simp add: put_pde_def)
  have "paging_setPageDirectoryEntry mq p a pt s = vstore v (entry_value (privilege p) 1 pt) (s\<lparr>pg_view := g\<rparr>)"
    unfolding paging_setPageDirectoryEntry_def v(1) Let_def prod.case first put_put pde_bits.simps
    by (simp only: entry_word_value flip: entry_word_def)
  then show thesis by (intro that [of g]) (simp add: vstore_def v(2))
qed

text \<open>A slot that has a table: finding and setting an entry of it.\<close>

lemma getPageTableEntry_existing:
  assumes "quick_ok mq" "page_aligned (page_dir p)" "table_of s (page_dir p) (GET_DIRECTORY_INDEX a) \<noteq> NULL"
  obtains v g where "paging_getPageTableEntry (Suc depth) mq p a s = Some (v, s\<lparr>pg_view := g\<rparr>)"
    "g v = entry_at (table_of s (page_dir p) (GET_DIRECTORY_INDEX a)) (GET_TABLE_INDEX a)"
proof -
  obtain v g where v: "paging_getPageDirectoryEntry mq (page_dir p) a s = (v, s\<lparr>pg_view := g\<rparr>)"
    "g v = entry_at (page_dir p) (GET_DIRECTORY_INDEX a)"
    by (rule getPageDirectoryEntry_at [OF assms(1,2)])
  let ?t = "table_of s (page_dir p) (GET_DIRECTORY_INDEX a)"
  have pt: "TABLE_SHIFT_L (get_bits (pde_bits Pde_address) (vload (s\<lparr>pg_view := g\<rparr>) v)) = ?t"
    by (simp add: vload_def v(2) table_of_def)
  obtain u k where u: "mq ?t (s\<lparr>pg_view := g\<rparr>) = (u, s\<lparr>pg_view := g\<rparr>\<lparr>pg_view := k\<rparr>)"
    "\<And>i. unat i < 1024 \<Longrightarrow> k (entry_at u i) = entry_at ?t i"
    by (rule quick_at [OF assms(1), of ?t "s\<lparr>pg_view := g\<rparr>"], simp, rule that)
  have "paging_getPageTableEntry (Suc depth) mq p a s = Some (entry_at u (GET_TABLE_INDEX a), s\<lparr>pg_view := k\<rparr>)"
    using assms(3) by (simp add: v(1) pt u(1) Let_def del: pde_bits.simps)
  then show thesis by (rule that) (simp add: u(2))
qed

lemma setPageTableEntry_existing:
  assumes "quick_ok mq" "page_aligned (page_dir p)" "page_aligned a" "table_of s (page_dir p) (GET_DIRECTORY_INDEX a) \<noteq> NULL"
  obtains g where "paging_setPageTableEntry (Suc depth) mq p a pa present s =
    Some (s\<lparr>pg_view := g, pg_mem := store32 (pg_mem s)
      (entry_at (table_of s (page_dir p) (GET_DIRECTORY_INDEX a)) (GET_TABLE_INDEX a)) (entry_value (privilege p) present (PAGE_ALIGN pa))\<rparr>)"
proof -
  obtain v g where v: "paging_getPageTableEntry (Suc depth) mq p a s = Some (v, s\<lparr>pg_view := g\<rparr>)"
    "g v = entry_at (table_of s (page_dir p) (GET_DIRECTORY_INDEX a)) (GET_TABLE_INDEX a)"
    by (rule getPageTableEntry_existing [OF assms(1,2,4)])
  have "paging_setPageTableEntry (Suc depth) mq p a pa present s =
      Some (vstore v (entry_value (privilege p) present (PAGE_ALIGN pa)) (s\<lparr>pg_view := g\<rparr>))"
    unfolding paging_setPageTableEntry.simps PAGE_ALIGN_aligned [OF assms(3)] v(1) by (simp add: write_pte_value)
  then show thesis by (intro that [of g]) (simp add: vstore_def v(2))
qed

section \<open>The clearing loop\<close>

definition cleared :: "u32 \<Rightarrow> u32" where
  "cleared user = entry_value user 0 NULL"

lemma PAGE_ALIGN_NULL: "PAGE_ALIGN NULL = NULL"
  by (rule PAGE_ALIGN_aligned) (simp add: page_aligned_def)

lemma page_step:
  assumes "page_aligned a" "page a + k < 1048576" "k < 1024"
  shows "page (a + of_nat k * 4096) = page a + k" "page_aligned (a + of_nat k * 4096)"
proof -
  have k: "unat (of_nat k :: u32) = k" using assms(3) by (subst unat_of_nat) simp
  have e: "unat (4096 :: u32) = 4096" by simp
  have "unat (of_nat k * 4096 :: u32) = k * 4096"
    using unat_mult_nowrap [of "of_nat k" 4096] assms(3) unfolding e k by simp
  then have u: "unat (a + of_nat k * 4096) = (page a + k) * 4096"
    using unat_add_nowrap [of a "of_nat k * 4096"] assms(1,2) by (simp add: page_aligned_word add_mult_distrib)
  show "page (a + of_nat k * 4096) = page a + k" unfolding page_def [of "a + of_nat k * 4096"] u by simp
  then show "page_aligned (a + of_nat k * 4096)" unfolding page_aligned_word u by simp
qed

lemma clear_loop:
  fixes p :: process and a t1 t2 :: u32
  defines "K \<equiv> page a mod 1024" and "D \<equiv> page a div 1024"
  assumes mq: "quick_ok mq" and al: "page_aligned (page_dir p)" "page_aligned a" "page_aligned t1" "page_aligned t2"
    and t1: "t1 \<noteq> NULL" "t1 \<noteq> page_dir p"
    and t2: "K = 0 \<or> D + 1 < 1024 \<and> t2 \<noteq> NULL \<and> t2 \<noteq> page_dir p \<and> t2 \<noteq> t1"
  shows "left \<le> 1024 \<Longrightarrow> table_of s (page_dir p) (of_nat D) = t1 \<Longrightarrow> K = 0 \<or> table_of s (page_dir p) (of_nat (D + 1)) = t2 \<Longrightarrow>
    \<exists>s'. clear_entries (Suc depth) mq p a left s = Some s' \<and> pg_phys s' = pg_phys s \<and> pg_cr3 s' = pg_cr3 s \<and>
      (\<forall>b i. page_aligned b \<and> unat i < 1024 \<longrightarrow> entry s' b i =
        (if b = t1 \<and> K + (1024 - left) \<le> unat i \<or> K \<noteq> 0 \<and> b = t2 \<and> unat i < K \<and> K \<le> unat i + left
         then cleared (privilege p) else entry s b i))"
proof (induction left arbitrary: s)
  case 0
  then show ?case by (auto simp: K_def)
next
  case (Suc l)
  define k where "k = 1023 - l"
  define A where "A = a + of_nat k * 4096"
  have kl: "k + l = 1023" "k < 1024" using Suc.prems(1) by (simp_all add: k_def)
  have KD: "page a = D * 1024 + K" "K < 1024" "D < 1024" using page_bound [of a] by (simp_all add: K_def D_def div_less_iff_less_mult)
  have "page a + k < 1048576"
  proof (cases "K = 0")
    case False
    then have "D + 1 < 1024" using t2 by blast
    then show ?thesis using KD kl by simp
  qed (use KD kl in simp)
  note A = page_step [OF al(2) this kl(2), folded A_def]
  let ?t = "if K + k < 1024 then t1 else t2"
  let ?ti = "if K + k < 1024 then K + k else K + k - 1024"
  let ?Dk = "if K + k < 1024 then D else D + 1"
  have split: "page A = ?Dk * 1024 + ?ti" "?ti < 1024" using A(1) KD kl by auto
  have K0: "\<not> K + k < 1024 \<Longrightarrow> K \<noteq> 0" using kl by auto
  have Dk: "?Dk < 1024" using KD(3) t2 K0 by auto
  have di: "GET_DIRECTORY_INDEX A = of_nat ?Dk"
    unfolding word_unat_eq_iff unat_table_indices split(1) using split(2) Dk by (subst unat_of_nat) simp
  have ti: "unat (GET_TABLE_INDEX A) = ?ti" unfolding unat_table_indices split(1) using split(2) by simp
  have tab: "table_of s (page_dir p) (GET_DIRECTORY_INDEX A) = ?t"
    unfolding di using Suc.prems(2,3) K0 by auto
  have tn: "?t \<noteq> NULL" "?t \<noteq> page_dir p" "page_aligned ?t" using t1 t2 al K0 by auto
  obtain g where g: "paging_setPageTableEntry (Suc depth) mq p A NULL 0 s =
    Some (s\<lparr>pg_view := g, pg_mem := store32 (pg_mem s) (entry_at ?t (GET_TABLE_INDEX A)) (cleared (privilege p))\<rparr>)"
    using setPageTableEntry_existing [OF mq al(1) A(2), of s depth NULL 0] tn(1) unfolding tab PAGE_ALIGN_NULL cleared_def by blast
  define s1 where "s1 = s\<lparr>pg_view := g, pg_mem := store32 (pg_mem s) (entry_at ?t (GET_TABLE_INDEX A)) (cleared (privilege p))\<rparr>"
  have e1: "entry s1 b i = (if b = ?t \<and> unat i = ?ti then cleared (privilege p) else entry s b i)"
    if "page_aligned b" "unat i < 1024" for b i
  proof -
    have "i = GET_TABLE_INDEX A \<longleftrightarrow> unat i = ?ti" unfolding word_unat_eq_iff ti ..
    then show ?thesis
      using that tn(3) entry_at_aligned4 [OF that] entry_at_aligned4 [OF tn(3), of "GET_TABLE_INDEX A"]
      by (simp add: s1_def load32_store32_aligned entry_at_inject)
  qed
  have tabs: "table_of s1 (page_dir p) i = table_of s (page_dir p) i" if "unat i < 1024" for i
    using e1 [OF al(1) that] tn(2) by (auto simp: table_of_def)
  have un: "unat (of_nat D :: u32) = D" using KD(3) by (subst unat_of_nat) simp
  have "table_of s1 (page_dir p) (of_nat D) = t1" using tabs un KD(3) Suc.prems(2) by simp
  moreover have "K = 0 \<or> table_of s1 (page_dir p) (of_nat (D + 1)) = t2"
  proof (cases "K = 0")
    case False
    then have "D + 1 < 1024" using t2 by blast
    then have "unat (of_nat (D + 1) :: u32) = D + 1" by (subst unat_of_nat) simp
    then show ?thesis using tabs [of "of_nat (D + 1)"] \<open>D + 1 < 1024\<close> Suc.prems(3) by simp
  qed simp
  ultimately obtain s' where s': "clear_entries (Suc depth) mq p a l s1 = Some s'" "pg_phys s' = pg_phys s1" "pg_cr3 s' = pg_cr3 s1"
    "\<forall>b i. page_aligned b \<and> unat i < 1024 \<longrightarrow> entry s' b i =
        (if b = t1 \<and> K + (1024 - l) \<le> unat i \<or> K \<noteq> 0 \<and> b = t2 \<and> unat i < K \<and> K \<le> unat i + l
         then cleared (privilege p) else entry s1 b i)"
    using Suc.IH [of s1] Suc.prems(1) by auto
  have r: "clear_entries (Suc depth) mq p a (Suc l) s = Some s'"
    using g s'(1) kl unfolding clear_entries.simps by (simp add: PAGE_ENTRYS_def SIZE_4KB_def k_def A_def s1_def)
  have "entry s' b i = (if b = t1 \<and> K + (1024 - Suc l) \<le> unat i \<or> K \<noteq> 0 \<and> b = t2 \<and> unat i < K \<and> K \<le> unat i + Suc l
         then cleared (privilege p) else entry s b i)" if "page_aligned b" "unat i < 1024" for b i
  proof -
    have c: "b = t1 \<and> K + (1024 - Suc l) \<le> unat i \<or> K \<noteq> 0 \<and> b = t2 \<and> unat i < K \<and> K \<le> unat i + Suc l \<longleftrightarrow>
        (b = t1 \<and> K + (1024 - l) \<le> unat i \<or> K \<noteq> 0 \<and> b = t2 \<and> unat i < K \<and> K \<le> unat i + l) \<or> b = ?t \<and> unat i = ?ti"
      using kl that(2) K0 t2 KD(2) by (cases "K + k < 1024") auto
    show ?thesis using s'(4) that e1 [OF that] unfolding c by auto
  qed
  then show ?case using r s'(2,3) by (intro exI [of _ s']) (simp add: s1_def)
qed

section \<open>A slot without a table\<close>

lemma entry_table: "page_aligned t \<Longrightarrow> TABLE_SHIFT_L (get_bits (12, 20) (entry_value u b t)) = t"
  by (simp add: entry_address shift_aligned)

lemma getPageTableEntry_fresh:
  fixes p :: process and a t1 t2 :: u32
  defines "K \<equiv> page a mod 1024" and "D \<equiv> page a div 1024"
  assumes mq: "quick_ok mq" and al: "page_aligned (page_dir p)" "page_aligned a" "page_aligned t1" "page_aligned t2"
    and new: "physical_pageAlloc (pg_phys s) = Some (t1, ph)" "table_of s (page_dir p) (of_nat D) = NULL"
    and t1: "t1 \<noteq> NULL" "t1 \<noteq> page_dir p"
    and t2: "K = 0 \<or> D + 1 < 1024 \<and> t2 \<noteq> NULL \<and> t2 \<noteq> page_dir p \<and> t2 \<noteq> t1 \<and> table_of s (page_dir p) (of_nat (D + 1)) = t2"
  shows "\<exists>v s'. paging_getPageTableEntry (Suc (Suc depth)) mq p a s = Some (v, s') \<and> pg_phys s' = ph \<and>
    pg_view s' v = entry_at t1 (GET_TABLE_INDEX a) \<and>
    (\<forall>b i. page_aligned b \<and> unat i < 1024 \<longrightarrow> entry s' b i =
      (if b = page_dir p \<and> unat i = D then entry_value (privilege p) 1 t1
       else if b = t1 \<and> K \<le> unat i \<or> K \<noteq> 0 \<and> b = t2 \<and> unat i < K then cleared (privilege p) else entry s b i))"
proof -
  have D: "D < 1024" "K < 1024" using page_bound [of a] by (simp_all add: K_def D_def div_less_iff_less_mult)
  have un: "unat (of_nat D :: u32) = D" using D by (subst unat_of_nat) simp
  have di: "GET_DIRECTORY_INDEX a = of_nat D" unfolding word_unat_eq_iff unat_table_indices un by (simp add: D_def)
  obtain v g where v: "paging_getPageDirectoryEntry mq (page_dir p) a s = (v, s\<lparr>pg_view := g\<rparr>)"
    "g v = entry_at (page_dir p) (GET_DIRECTORY_INDEX a)"
    by (rule getPageDirectoryEntry_at [OF mq al(1)])
  have pt: "TABLE_SHIFT_L (get_bits (pde_bits Pde_address) (vload (s\<lparr>pg_view := g\<rparr>) v)) = NULL"
    using new(2) by (simp add: vload_def v(2) table_of_def di)
  obtain h where h: "paging_setPageDirectoryEntry mq p a t1 (s\<lparr>pg_view := g, pg_phys := ph\<rparr>) =
      s\<lparr>pg_view := g, pg_phys := ph\<rparr>\<lparr>pg_view := h, pg_mem := store32 (pg_mem (s\<lparr>pg_view := g, pg_phys := ph\<rparr>)) (entry_at (page_dir p) (GET_DIRECTORY_INDEX a)) (entry_value (privilege p) 1 t1)\<rparr>"
    by (rule setPageDirectoryEntry_at [OF mq al(1)])
  define s1 where "s1 = s\<lparr>pg_view := h, pg_phys := ph, pg_mem := store32 (pg_mem s) (entry_at (page_dir p) (of_nat D)) (entry_value (privilege p) 1 t1)\<rparr>"
  have s1: "paging_setPageDirectoryEntry mq p a t1 (s\<lparr>pg_view := g, pg_phys := ph\<rparr>) = s1"
    unfolding h s1_def di by simp
  have e1: "entry s1 b i = (if b = page_dir p \<and> unat i = D then entry_value (privilege p) 1 t1 else entry s b i)"
    if "page_aligned b" "unat i < 1024" for b i
  proof -
    have "i = of_nat D \<longleftrightarrow> unat i = D" unfolding word_unat_eq_iff un ..
    then show ?thesis using that D un al(1) entry_at_aligned4 [OF that] entry_at_aligned4 [OF al(1), of "of_nat D"]
      by (simp add: s1_def load32_store32_aligned entry_at_inject)
  qed
  have tD: "table_of s1 (page_dir p) (of_nat D) = t1"
    using e1 [OF al(1), of "of_nat D"] un D by (simp add: table_of_def entry_table al(3))
  have tD1: "K = 0 \<or> table_of s1 (page_dir p) (of_nat (D + 1)) = t2"
  proof (cases "K = 0")
    case False
    then have d: "D + 1 < 1024" "table_of s (page_dir p) (of_nat (D + 1)) = t2" using t2 by auto
    then have "unat (of_nat (D + 1) :: u32) = D + 1" by (subst unat_of_nat) simp
    then show ?thesis using e1 [OF al(1), of "of_nat (D + 1)"] d by (simp add: table_of_def)
  qed simp
  have c: "K = 0 \<or> D + 1 < 1024 \<and> t2 \<noteq> NULL \<and> t2 \<noteq> page_dir p \<and> t2 \<noteq> t1" using t2 by blast
  note cl = clear_loop [OF mq al t1, folded K_def D_def, OF c order_refl tD tD1, of depth]
  obtain s2 where s2: "clear_entries (Suc depth) mq p a 1024 s1 = Some s2" "pg_phys s2 = pg_phys s1"
    "\<forall>b i. page_aligned b \<and> unat i < 1024 \<longrightarrow> entry s2 b i =
        (if b = t1 \<and> K + (1024 - 1024) \<le> unat i \<or> K \<noteq> 0 \<and> b = t2 \<and> unat i < K \<and> K \<le> unat i + 1024
         then cleared (privilege p) else entry s1 b i)"
    using cl by (elim exE conjE)
  obtain u k where u: "mq t1 s2 = (u, s2\<lparr>pg_view := k\<rparr>)" "\<And>i. unat i < 1024 \<Longrightarrow> k (entry_at u i) = entry_at t1 i"
    by (rule quick_at [OF mq al(3), of s2], rule that)
  have r: "paging_getPageTableEntry (Suc (Suc depth)) mq p a s = Some (entry_at u (GET_TABLE_INDEX a), s2\<lparr>pg_view := k\<rparr>)"
    unfolding paging_getPageTableEntry.simps(2) v(1) Let_def prod.case pt
    using new(1) s2(1) by (simp add: s1 u(1) PAGE_ENTRYS_def)
  have "entry s2 b i = (if b = page_dir p \<and> unat i = D then entry_value (privilege p) 1 t1
       else if b = t1 \<and> K \<le> unat i \<or> K \<noteq> 0 \<and> b = t2 \<and> unat i < K then cleared (privilege p) else entry s b i)"
    if "page_aligned b" "unat i < 1024" for b i
    using s2(3) that e1 [OF that] t1(2) c D by auto
  then show ?thesis using r s2(2) u(2) [OF table_indices_small(2) [of a]]
    by (intro exI [of _ "entry_at u (GET_TABLE_INDEX a)"] exI [of _ "s2\<lparr>pg_view := k\<rparr>"]) (simp add: s1_def)
qed

section \<open>No memory\<close>

lemma alloc_exhausted:
  assumes "phys_ok ph" "{1..<npages ph} \<subseteq> taken ph"
  obtains ph' where "physical_pageAlloc ph = Some (NULL, ph')" "phys_ok ph'" "{1..<npages ph'} \<subseteq> taken ph'"
proof -
  obtain a ph' where al: "physical_pageAlloc ph = Some (a, ph')" using phys_alloc.alloc_total [OF assms(1)] by blast
  have "a = NULL"
  proof (rule ccontr)
    assume a: "a \<noteq> NULL"
    from phys_alloc.alloc_page [OF assms(1) al a]
    have p: "unat a mod 4096 = 0" "page a < npages ph" "page a \<notin> taken ph" by auto
    then have "page a \<notin> {1..<npages ph}" using assms(2) by blast
    then have "page a = 0" using p(2) by auto
    then have "unat a = 0" using p(1) by (auto simp: page_def)
    then have "a = 0" by (metis unat_eq_0)
    then show False using a by simp
  qed
  then show thesis using that [of ph'] al phys_alloc.alloc_ok [OF assms(1) al] phys_alloc.alloc_fail [OF assms(1) al] assms(2) by simp
qed

lemma get_never_returns:
  assumes "quick_ok mq" "page_aligned (page_dir p)" "page_aligned a"
  shows "phys_ok (pg_phys s) \<Longrightarrow> {1..<npages (pg_phys s)} \<subseteq> taken (pg_phys s) \<Longrightarrow>
    table_of s (page_dir p) (GET_DIRECTORY_INDEX a) = NULL \<Longrightarrow> paging_getPageTableEntry depth mq p a s = None"
proof (induction depth arbitrary: s)
  case (Suc depth)
  let ?d = "GET_DIRECTORY_INDEX a"
  obtain v g where v: "paging_getPageDirectoryEntry mq (page_dir p) a s = (v, s\<lparr>pg_view := g\<rparr>)"
    "g v = entry_at (page_dir p) ?d"
    by (rule getPageDirectoryEntry_at [OF assms(1,2)])
  have pt: "TABLE_SHIFT_L (get_bits (pde_bits Pde_address) (vload (s\<lparr>pg_view := g\<rparr>) v)) = NULL"
    using Suc.prems(3) by (simp add: vload_def v(2) table_of_def)
  obtain ph where ph: "physical_pageAlloc (pg_phys s) = Some (NULL, ph)" "phys_ok ph" "{1..<npages ph} \<subseteq> taken ph"
    by (rule alloc_exhausted [OF Suc.prems(1,2)])
  obtain h where h: "paging_setPageDirectoryEntry mq p a NULL (s\<lparr>pg_view := g, pg_phys := ph\<rparr>) =
      s\<lparr>pg_view := g, pg_phys := ph\<rparr>\<lparr>pg_view := h, pg_mem := store32 (pg_mem (s\<lparr>pg_view := g, pg_phys := ph\<rparr>)) (entry_at (page_dir p) ?d) (entry_value (privilege p) 1 NULL)\<rparr>"
    by (rule setPageDirectoryEntry_at [OF assms(1,2)])
  define s1 where "s1 = s\<lparr>pg_view := h, pg_phys := ph, pg_mem := store32 (pg_mem s) (entry_at (page_dir p) ?d) (entry_value (privilege p) 1 NULL)\<rparr>"
  have s1: "paging_setPageDirectoryEntry mq p a NULL (s\<lparr>pg_view := g, pg_phys := ph\<rparr>) = s1"
    unfolding h s1_def by simp
  have "table_of s1 (page_dir p) ?d = NULL"
    by (simp add: table_of_def s1_def load32_store32_same entry_table page_aligned_def)
  then have n: "paging_getPageTableEntry depth mq p a s1 = None" using ph(2,3) by (intro Suc.IH) (simp_all add: s1_def)
  have "clear_entries depth mq p a (Suc 1023) s1 = None"
    unfolding clear_entries.simps paging_setPageTableEntry.simps
    using n by (simp add: PAGE_ENTRYS_def PAGE_ALIGN_aligned [OF assms(3)])
  moreover have "PAGE_ENTRYS = Suc 1023" by (simp add: PAGE_ENTRYS_def)
  ultimately have "clear_entries depth mq p a PAGE_ENTRYS s1 = None" by simp
  then show ?case
    unfolding paging_getPageTableEntry.simps(2) v(1) Let_def prod.case pt
    using ph(1) by (simp add: s1)
qed simp

section \<open>New directories\<close>

lemma directory_values:
  "set_bits (1, 1) READONLY (set_bits (0, 1) 0 (set_bits (2, 1) u 0)) = push_bit 2 (take_bit 1 u)"
  "set_bits (12, 20) (TABLE_SHIFT_R d) (set_bits (1, 1) READWRITE (set_bits (0, 1) 1 (set_bits (2, 1) u 0))) = entry_value u 1 d"
proof -
  show "set_bits (1, 1) READONLY (set_bits (0, 1) 0 (set_bits (2, 1) u 0)) = push_bit 2 (take_bit 1 u)"
    by (rule bit_word_eqI) (auto simp: bit_set_bits bit_simps READONLY_def bit_0 even_set_bits not_less_eq_eq)
  have g: "set_bits (12, 20) (TABLE_SHIFT_R d) (set_bits (1, 1) READWRITE (set_bits (0, 1) b (set_bits (2, 1) u 0))) = entry_value u b d" for b
    by (rule bit_word_eqI)
      (auto simp: bit_set_bits entry_value_def bit_simps READWRITE_def TABLE_SHIFT_R_def bit_0 even_set_bits not_less_eq_eq)
  show "set_bits (12, 20) (TABLE_SHIFT_R d) (set_bits (1, 1) READWRITE (set_bits (0, 1) 1 (set_bits (2, 1) u 0))) = entry_value u 1 d"
    by (rule g)
qed

definition new_entry_value :: "process \<Rightarrow> nat \<Rightarrow> u32" where
  "new_entry_value p i = (if i = 1023 then entry_value (privilege p) 1 (page_dir p) else push_bit 2 (take_bit 1 (privilege p)))"

lemma init_directory_entries:
  assumes "page_aligned dir" "\<And>i. unat i < 1024 \<Longrightarrow> g (entry_at pd i) = entry_at dir i"
  shows "left \<le> 1024 \<Longrightarrow> pg_view s = g \<Longrightarrow> (\<forall>i. 1024 - left \<le> unat i \<and> unat i < 1024 \<longrightarrow> entry s dir i = 0) \<Longrightarrow>
    \<exists>m. init_directory p pd left s = s\<lparr>pg_mem := m\<rparr> \<and>
      (\<forall>b i. page_aligned b \<and> unat i < 1024 \<longrightarrow> load32 m (entry_at b i) =
        (if b = dir \<and> 1024 - left \<le> unat i then new_entry_value p (unat i) else entry s b i))"
proof (induction left arbitrary: s)
  case 0
  then show ?case by (intro exI [of _ "pg_mem s"]) auto
next
  case (Suc l)
  define k where "k = 1023 - l"
  have k: "k < 1024" "k + l = 1023" using Suc.prems(1) by (simp_all add: k_def)
  have uk: "unat (of_nat k :: u32) = k" using k by (subst unat_of_nat) simp
  let ?e = "entry_at pd (of_nat k)"
  let ?w = "new_entry_value p k"
  have z: "vload s ?e = 0"
    using Suc.prems(2,3) assms(2) [of "of_nat k"] uk k by (simp add: vload_def k_def)
  have idx: "PAGE_ENTRYS - Suc l = k" "PAGE_ENTRYS - 1 = 1023" by (simp_all add: PAGE_ENTRYS_def k_def)
  have first: "put_pde ?e Pde_user (privilege p) s = vstore ?e (set_bits (2, 1) (privilege p) 0) s"
    by (simp add: put_pde_def z)
  have step: "init_directory p pd (Suc l) s = init_directory p pd l (vstore ?e ?w s)"
    unfolding init_directory.simps Let_def idx first put_put pde_bits.simps directory_values
    by (simp add: new_entry_value_def)
  define s1 where "s1 = vstore ?e ?w s"
  have e1: "entry s1 b i = (if b = dir \<and> unat i = k then ?w else entry s b i)" if "page_aligned b" "unat i < 1024" for b i
  proof -
    have "i = of_nat k \<longleftrightarrow> unat i = k" unfolding word_unat_eq_iff uk ..
    moreover have "pg_view s ?e = entry_at dir (of_nat k)" using Suc.prems(2) assms(2) uk k by simp
    ultimately show ?thesis
      unfolding s1_def using entry_vstore [OF assms(1) that(1), of "of_nat k" i s ?e ?w] that uk k by simp
  qed
  have v1: "pg_view s1 = g" using Suc.prems(2) by (simp add: s1_def vstore_def)
  have "\<forall>i. 1024 - l \<le> unat i \<and> unat i < 1024 \<longrightarrow> entry s1 dir i = 0"
    using e1 [OF assms(1)] Suc.prems(3) k by auto
  then obtain m where m: "init_directory p pd l s1 = s1\<lparr>pg_mem := m\<rparr>"
    "\<forall>b i. page_aligned b \<and> unat i < 1024 \<longrightarrow> load32 m (entry_at b i) =
        (if b = dir \<and> 1024 - l \<le> unat i then new_entry_value p (unat i) else entry s1 b i)"
    using Suc.IH [OF _ v1] Suc.prems(1) by auto
  have "load32 m (entry_at b i) = (if b = dir \<and> 1024 - Suc l \<le> unat i then new_entry_value p (unat i) else entry s b i)"
    if "page_aligned b" "unat i < 1024" for b i
    using m(2) that e1 [OF that] k by auto
  then show ?case using step m(1) by (intro exI [of _ m]) (simp add: s1_def vstore_def)
qed

section \<open>Properties\<close>

text \<open>For the witnesses: a translation with one window, and a directory at 2 MB with a table at 3 MB in slot 1.\<close>

definition ex_quick :: quickmap where
  "ex_quick pa s = (0xC0000000, s\<lparr>pg_view := (\<lambda>v. pa + (v - 0xC0000000))\<rparr>)"

lemma ex_quick_ok: "quick_ok ex_quick"
  by (simp add: quick_ok_def ex_quick_def entry_at_def) (intro allI impI exI conjI, rule refl, simp)

definition ex_pg :: "phys \<Rightarrow> pg" where
  "ex_pg ph = \<lparr>pg_mem = store32 (\<lambda>_. 0) (entry_at 0x200000 1) (entry_value 0 1 0x300000), pg_view = id, pg_phys = ph, pg_cr3 = 0\<rparr>"

definition ex_proc :: process where
  "ex_proc = \<lparr>page_dir = 0x200000, privilege = 0, proc_id = 7\<rparr>"

lemma ex_proc_simps [simp]:
  "page_dir ex_proc = 0x200000" "privilege ex_proc = 0" "pg_phys (ex_pg ph) = ph"
  by (simp_all add: ex_proc_def ex_pg_def)

lemma ex_pages [simp]: "page_aligned 0x200000" "page_aligned 0x300000" "page_aligned 0x5000" "page_aligned 0x406000" "page_aligned 0x405000"
  by (simp_all add: page_aligned_def)

lemma load32_zero [simp]: "load32 (\<lambda>_. 0) a = 0"
  by (simp add: load32_def)

lemma ex_tables:
  "table_of (ex_pg ph) 0x200000 0 = NULL" "table_of (ex_pg ph) 0x200000 1 = 0x300000"
proof -
  have "entry (ex_pg ph) 0x200000 0 = 0"
    using entry_at_aligned4 [of "0x200000" 0] entry_at_aligned4 [of "0x200000" 1] by (simp add: ex_pg_def load32_store32_aligned entry_at_inject)
  then show "table_of (ex_pg ph) 0x200000 0 = NULL" by (simp add: table_of_def get_bits_def TABLE_SHIFT_L_def)
  show "table_of (ex_pg ph) 0x200000 1 = 0x300000"
    by (simp add: table_of_def ex_pg_def load32_store32_same entry_table)
qed

lemma small_alloc:
  obtains t ph where "physical_pageAlloc small_phys = Some (t, ph)" "t \<noteq> NULL" "page_aligned t" "page t < 256"
proof -
  obtain t ph where t: "physical_pageAlloc small_phys = Some (t, ph)" using phys_alloc.alloc_total [OF small_phys_ok(1)] by blast
  have "t \<noteq> NULL"
  proof
    assume "t = NULL"
    then have "pick_page small_phys = None" using pageAlloc_result(3) [OF small_phys_ok(1) t] by blast
    then show False using small_phys_ok(2) by (auto simp: pick_page_None page_bit_def small_phys_def dest: spec [of _ 1])
  qed
  then show thesis using that [OF t] phys_alloc.alloc_page [OF small_phys_ok(1) t] small_phys_ok(2) by (simp add: page_aligned_def)
qed

text \<open>
  C11. Setting the entry of an address whose slot of the directory has a table changes that one entry
  and no other, and no page is allocated. The address is rounded up to a page, so for an address
  inside a page it is the entry of the next page that is set; so is the physical address.
\<close>

theorem set_existing_entry:
  assumes "quick_ok mq" "page_aligned (page_dir p)" "unat a + 4095 < 2 ^ 32"
    "table_of s (page_dir p) (GET_DIRECTORY_INDEX (PAGE_ALIGN a)) = t" "t \<noteq> NULL"
  shows "\<exists>s'. paging_setPageTableEntry (Suc depth) mq p a pa present s = Some s' \<and> pg_phys s' = pg_phys s \<and>
    page (PAGE_ALIGN a) = (if page_aligned a then page a else page a + 1) \<and>
    (\<forall>b i. page_aligned b \<and> unat i < 1024 \<longrightarrow> entry s' b i =
      (if b = t \<and> i = GET_TABLE_INDEX (PAGE_ALIGN a) then entry_value (privilege p) present (PAGE_ALIGN pa) else entry s b i))"
proof -
  have u: "unat (PAGE_ALIGN a) = (unat a + 4095) div 4096 * 4096" using assms(3) by (rule unat_PAGE_ALIGN)
  then have al: "page_aligned (PAGE_ALIGN a)" by (simp add: page_aligned_def)
  obtain q r where q: "unat a = q * 4096 + r" "r < 4096" "unat a div 4096 = q" "unat a mod 4096 = r" by (rule page_split)
  have "(unat a + 4095) div 4096 = (if r = 0 then q else q + 1)"
    unfolding q(1) using q(2) by (cases "r = 0") (simp_all add: div_nat_eqI)
  then have pg: "page (PAGE_ALIGN a) = (if page_aligned a then page a else page a + 1)"
    unfolding page_def [of "PAGE_ALIGN a"] u using q(3,4) by (simp add: page_aligned_def page_def)
  obtain v g where v: "paging_getPageTableEntry (Suc depth) mq p (PAGE_ALIGN a) s = Some (v, s\<lparr>pg_view := g\<rparr>)"
    "g v = entry_at t (GET_TABLE_INDEX (PAGE_ALIGN a))"
    using getPageTableEntry_existing [OF assms(1,2), of s "PAGE_ALIGN a" depth] assms(4,5) by auto
  have t: "page_aligned t" using assms(4) table_of_aligned by blast
  let ?s = "vstore v (entry_value (privilege p) present (PAGE_ALIGN pa)) (s\<lparr>pg_view := g\<rparr>)"
  have "paging_setPageTableEntry (Suc depth) mq p a pa present s = Some ?s"
    unfolding paging_setPageTableEntry.simps v(1) by (simp add: write_pte_value)
  moreover have "entry ?s b i = (if b = t \<and> i = GET_TABLE_INDEX (PAGE_ALIGN a) then entry_value (privilege p) present (PAGE_ALIGN pa) else entry s b i)"
    if "page_aligned b" "unat i < 1024" for b i
    using entry_vstore [OF t that(1) _ that(2), of "GET_TABLE_INDEX (PAGE_ALIGN a)" "s\<lparr>pg_view := g\<rparr>" v] v(2) by simp
  ultimately show ?thesis using pg by (intro exI [of _ ?s]) (simp add: vstore_def)
qed

theorem set_existing_entry_witness:
  "\<exists>s'. paging_setPageTableEntry 1 ex_quick ex_proc 0x405678 0x9000 1 (ex_pg small_phys) = Some s' \<and>
     entry s' 0x300000 6 = entry_value 0 1 0x9000 \<and> entry s' 0x300000 5 = 0"
proof -
  have u: "unat (PAGE_ALIGN 0x405678) = 0x406000" by (subst unat_PAGE_ALIGN) simp_all
  then have al: "PAGE_ALIGN 0x405678 = 0x406000" by (simp add: word_unat_eq_iff)
  have i: "GET_DIRECTORY_INDEX 0x406000 = 1" "GET_TABLE_INDEX 0x406000 = 6"
    unfolding word_unat_eq_iff unat_table_indices by (simp_all add: page_def)
  have p: "PAGE_ALIGN 0x9000 = 0x9000" by (rule PAGE_ALIGN_aligned) (simp add: page_aligned_def)
  have "entry (ex_pg small_phys) 0x300000 5 = 0"
    using entry_at_aligned4 [of "0x300000" 5] entry_at_aligned4 [of "0x200000" 1] by (simp add: ex_pg_def load32_store32_aligned entry_at_inject)
  then show ?thesis
    using set_existing_entry [OF ex_quick_ok, of ex_proc "0x405678" "ex_pg small_phys" "0x300000" 0 "0x9000" 1]
    by (auto simp: al i p ex_proc_def ex_tables)
qed

text \<open>
  C12. Setting the entry of an address whose slot has no table allocates one, whose entries from that
  of the address on are cleared before the entry is set: the entries before it stay as the page
  was found. When the address is not the first of its slot, the clearing runs on into the next
  slot, so the mappings at the beginning of the next four megabytes are lost.
\<close>

theorem set_fresh_entry:
  fixes p :: process and a t1 t2 :: u32
  defines "K \<equiv> page a mod 1024" and "D \<equiv> page a div 1024"
  assumes "quick_ok mq" "page_aligned (page_dir p)" "page_aligned a" "page_aligned t1" "page_aligned t2"
    "physical_pageAlloc (pg_phys s) = Some (t1, ph)" "table_of s (page_dir p) (of_nat D) = NULL"
    "t1 \<noteq> NULL" "t1 \<noteq> page_dir p"
    "K = 0 \<or> D + 1 < 1024 \<and> t2 \<noteq> NULL \<and> t2 \<noteq> page_dir p \<and> t2 \<noteq> t1 \<and> table_of s (page_dir p) (of_nat (D + 1)) = t2"
  shows "\<exists>s'. paging_setPageTableEntry (Suc (Suc depth)) mq p a pa present s = Some s' \<and> pg_phys s' = ph \<and>
    \<not> bit (cleared (privilege p)) 0 \<and>
    (\<forall>b i. page_aligned b \<and> unat i < 1024 \<longrightarrow> entry s' b i =
      (if b = page_dir p \<and> unat i = D then entry_value (privilege p) 1 t1
       else if b = t1 \<and> unat i = K then entry_value (privilege p) present (PAGE_ALIGN pa)
       else if b = t1 \<and> K < unat i \<or> K \<noteq> 0 \<and> b = t2 \<and> unat i < K then cleared (privilege p) else entry s b i))"
proof -
  from getPageTableEntry_fresh [OF assms(3-7,8) assms(9) [unfolded D_def] assms(10,11) assms(12) [unfolded K_def D_def], of depth, folded K_def D_def]
  obtain v s1 where v: "paging_getPageTableEntry (Suc (Suc depth)) mq p a s = Some (v, s1)" "pg_phys s1 = ph"
    "pg_view s1 v = entry_at t1 (GET_TABLE_INDEX a)"
    "\<forall>b i. page_aligned b \<and> unat i < 1024 \<longrightarrow> entry s1 b i =
      (if b = page_dir p \<and> unat i = D then entry_value (privilege p) 1 t1
       else if b = t1 \<and> K \<le> unat i \<or> K \<noteq> 0 \<and> b = t2 \<and> unat i < K then cleared (privilege p) else entry s b i)"
    by (elim exE conjE)
  have ti: "unat (GET_TABLE_INDEX a) = K" by (simp add: K_def unat_table_indices)
  let ?s = "vstore v (entry_value (privilege p) present (PAGE_ALIGN pa)) s1"
  have "paging_setPageTableEntry (Suc (Suc depth)) mq p a pa present s = Some ?s"
    unfolding paging_setPageTableEntry.simps PAGE_ALIGN_aligned [OF assms(5)] v(1) by (simp add: write_pte_value)
  moreover have "entry ?s b i = (if b = page_dir p \<and> unat i = D then entry_value (privilege p) 1 t1
       else if b = t1 \<and> unat i = K then entry_value (privilege p) present (PAGE_ALIGN pa)
       else if b = t1 \<and> K < unat i \<or> K \<noteq> 0 \<and> b = t2 \<and> unat i < K then cleared (privilege p) else entry s b i)"
    if b: "page_aligned b" "unat i < 1024" for b i
  proof -
    have "i = GET_TABLE_INDEX a \<longleftrightarrow> unat i = K" unfolding word_unat_eq_iff ti ..
    then have "entry ?s b i = (if b = t1 \<and> unat i = K then entry_value (privilege p) present (PAGE_ALIGN pa) else entry s1 b i)"
      using entry_vstore [OF assms(6) b(1) _ b(2) v(3)] by simp
    then show ?thesis using v(4) b assms(11,12) by auto
  qed
  moreover have "\<not> bit (cleared (privilege p)) 0" by (simp add: cleared_def entry_value_def bit_simps)
  ultimately show ?thesis using v(2) by (intro exI [of _ ?s]) (simp add: vstore_def)
qed

theorem set_fresh_entry_witness:
  "\<exists>t s'. paging_setPageTableEntry 2 ex_quick ex_proc 0x5000 0x9000 1 (ex_pg small_phys) = Some s' \<and>
     entry s' t 5 = entry_value 0 1 0x9000 \<and> entry s' 0x300000 4 = cleared 0"
proof -
  obtain t ph where t: "physical_pageAlloc small_phys = Some (t, ph)" "t \<noteq> NULL" "page_aligned t" "page t < 256"
    by (rule small_alloc)
  have p: "page 0x5000 = 5" "page (0x200000 :: u32) = 512" "page (0x300000 :: u32) = 768" by (simp_all add: page_def)
  have ne: "t \<noteq> 0x200000" "t \<noteq> 0x300000" using t(4) p by auto
  have al: "PAGE_ALIGN 0x9000 = 0x9000" by (rule PAGE_ALIGN_aligned) (simp add: page_aligned_def)
  have "K = 0 \<or> (0 :: nat) + 1 < 1024 \<and> (0x300000 :: u32) \<noteq> NULL \<and> (0x300000 :: u32) \<noteq> page_dir ex_proc \<and> 0x300000 \<noteq> t \<and>
      table_of (ex_pg small_phys) (page_dir ex_proc) (of_nat (0 + 1)) = 0x300000" for K :: nat
    using ne ex_tables by simp
  then have "\<exists>s'. paging_setPageTableEntry (Suc (Suc 0)) ex_quick ex_proc 0x5000 0x9000 1 (ex_pg small_phys) = Some s' \<and> pg_phys s' = ph \<and>
    \<not> bit (cleared (privilege ex_proc)) 0 \<and>
    (\<forall>b i. page_aligned b \<and> unat i < 1024 \<longrightarrow> entry s' b i =
      (if b = page_dir ex_proc \<and> unat i = page 0x5000 div 1024 then entry_value (privilege ex_proc) 1 t
       else if b = t \<and> unat i = page 0x5000 mod 1024 then entry_value (privilege ex_proc) 1 (PAGE_ALIGN 0x9000)
       else if b = t \<and> page 0x5000 mod 1024 < unat i \<or> page 0x5000 mod 1024 \<noteq> 0 \<and> b = 0x300000 \<and> unat i < page 0x5000 mod 1024
       then cleared (privilege ex_proc) else entry (ex_pg small_phys) b i))"
    using t ne ex_tables by (intro set_fresh_entry [OF ex_quick_ok]) (simp_all add: p)
  then obtain s' where s': "paging_setPageTableEntry 2 ex_quick ex_proc 0x5000 0x9000 1 (ex_pg small_phys) = Some s'"
    "\<forall>b i. page_aligned b \<and> unat i < 1024 \<longrightarrow> entry s' b i =
      (if b = 0x200000 \<and> unat i = 0 then entry_value 0 1 t
       else if b = t \<and> unat i = 5 then entry_value 0 1 0x9000
       else if b = t \<and> 5 < unat i \<or> b = 0x300000 \<and> unat i < 5 then cleared 0 else entry (ex_pg small_phys) b i)"
    unfolding p(1) al numeral_2_eq_2 [symmetric] ex_proc_simps by (elim exE conjE) simp
  have "entry s' t 5 = entry_value 0 1 0x9000" "entry s' 0x300000 4 = cleared 0"
    using s'(2) [rule_format, of t 5] s'(2) [rule_format, of "0x300000" 4] t(3) ne by simp_all
  with s'(1) show ?thesis by blast
qed

text \<open>
  C13. When there is no free page, asking for the entry of an address whose slot has no table never
  comes to an end: the slot stays without a table, and the clearing asks for the entry again.
\<close>

theorem no_memory_never_returns:
  assumes "quick_ok mq" "page_aligned (page_dir p)" "page_aligned a" "phys_ok (pg_phys s)" "{1..<npages (pg_phys s)} \<subseteq> taken (pg_phys s)"
    "table_of s (page_dir p) (GET_DIRECTORY_INDEX a) = NULL"
  shows "\<forall>depth. paging_getPageTableEntry depth mq p a s = None \<and> paging_setPageTableEntry depth mq p a pa present s = None"
  using get_never_returns [OF assms] by (simp add: PAGE_ALIGN_aligned [OF assms(3)])

definition full_phys :: phys where
  "full_phys = \<lparr>ph_mem = (\<lambda>_. -1), physical_bitmap = 0x2000, physical_bitmapSize = 32, physical_maxAddress = 0x100000, ph_log = []\<rparr>"

lemma full_phys_ok: "phys_ok full_phys" "{1..<npages full_phys} \<subseteq> taken full_phys"
  by (auto simp: phys_ok_def full_phys_def npages_def taken_def page_bit_def)

theorem no_memory_never_returns_witness:
  "\<forall>depth. paging_setPageTableEntry depth ex_quick ex_proc 0x5000 0x9000 1 (ex_pg full_phys) = None"
proof -
  have "GET_DIRECTORY_INDEX 0x5000 = 0" unfolding word_unat_eq_iff unat_table_indices by (simp add: page_def)
  then show ?thesis
    using no_memory_never_returns [OF ex_quick_ok, of ex_proc "0x5000" "ex_pg full_phys" "0x9000" 1] full_phys_ok ex_tables
    by (simp del: paging_setPageTableEntry.simps)
qed

lemma createDirectory_page:
  assumes "quick_ok mq" "phys_ok (pg_phys s)" "physical_pageAlloc (emit (mutex_lock paging_lock) (pg_phys s)) = Some (d, ph)" "d \<noteq> NULL"
  shows "\<exists>s'. paging_createDirectory mq p s = Some (SUCCESS, p\<lparr>page_dir := d\<rparr>, s') \<and> pg_phys s' = emit (mutex_unlock paging_lock) ph \<and>
    page_aligned d \<and> (\<forall>b i. page_aligned b \<and> unat i < 1024 \<longrightarrow> entry s' b i =
      (if b = d then if unat i = 1023 then entry_value (privilege p) 1 d else push_bit 2 (take_bit 1 (privilege p)) else entry s b i))"
proof -
  let ?p = "p\<lparr>page_dir := d\<rparr>"
  have da: "page_aligned d"
    using phys_alloc.alloc_page [of "emit (mutex_lock paging_lock) (pg_phys s)", OF _ assms(3,4)] assms(2) by (simp add: page_aligned_def)
  define s0 where "s0 = (pg_emit (mutex_lock paging_lock) s)\<lparr>pg_phys := ph\<rparr>"
  obtain v g where v: "mq d s0 = (v, s0\<lparr>pg_view := g\<rparr>)" "\<And>i. unat i < 1024 \<Longrightarrow> g (entry_at v i) = entry_at d i"
    by (rule quick_at [OF assms(1) da, of s0], rule that)
  have gv: "g v = d" using v(2) [of 0] by (simp add: entry_at_def)
  define s1 where "s1 = clear_page v (s0\<lparr>pg_view := g\<rparr>)"
  have e1: "entry s1 b i = (if b = d then 0 else entry s b i)" if "page_aligned b" "unat i < 1024" for b i
    using load32_cleared_page [OF da that, of "pg_mem s"] by (simp add: s1_def clear_page_def gv s0_def pg_emit_def)
  have s1: "pg_view s1 = g" "pg_phys s1 = ph" by (simp_all add: s1_def clear_page_def s0_def)
  have z: "\<forall>i. 1024 - 1024 \<le> unat i \<and> unat i < 1024 \<longrightarrow> entry s1 d i = 0" using e1 [OF da] by auto
  obtain m where m: "init_directory ?p v 1024 s1 = s1\<lparr>pg_mem := m\<rparr>"
    "\<forall>b i. page_aligned b \<and> unat i < 1024 \<longrightarrow> load32 m (entry_at b i) =
      (if b = d \<and> 1024 - 1024 \<le> unat i then new_entry_value ?p (unat i) else entry s1 b i)"
    using init_directory_entries [OF da v(2) order_refl s1(1) z, of ?p] by blast
  let ?s = "pg_emit (mutex_unlock paging_lock) (s1\<lparr>pg_mem := m\<rparr>)"
  have r: "paging_createDirectory mq p s = Some (SUCCESS, ?p, ?s)"
    using assms(3,4) v(1) m(1)
    by (simp add: paging_createDirectory_def pg_emit_def Let_def PAGE_ENTRYS_def flip: s0_def)
      (simp add: s0_def s1_def pg_emit_def)
  have "entry ?s b i = (if b = d then if unat i = 1023 then entry_value (privilege p) 1 d else push_bit 2 (take_bit 1 (privilege p))
        else entry s b i)" if "page_aligned b" "unat i < 1024" for b i
    using m(2) e1 [OF that] that by (simp add: pg_emit_def new_entry_value_def)
  then show ?thesis using r da s1(2) by (intro exI [of _ ?s] conjI) (auto simp: pg_emit_def)
qed

text \<open>
  C14. A new directory is one free page; all its entries are not present, with the privilege of the
  process, but the last, which maps the directory itself; no other page table changes. Without a
  free page the call fails with a null directory. The paging lock is released in both cases.
\<close>

theorem createDirectory_correct:
  assumes "quick_ok mq" "phys_ok (pg_phys s)"
  shows "\<exists>r p' s' es. paging_createDirectory mq p s = Some (r, p', s') \<and>
    ph_log (pg_phys s') = ph_log (pg_phys s) @ es \<and> lock_run {} es = Some {} \<and>
    (if {1..<npages (pg_phys s)} \<subseteq> taken (pg_phys s) then r = FAIL \<and> page_dir p' = NULL \<and> pg_mem s' = pg_mem s
     else r = SUCCESS \<and> page_aligned (page_dir p') \<and> page (page_dir p') \<notin> taken (pg_phys s) \<and>
       taken (pg_phys s') = insert (page (page_dir p')) (taken (pg_phys s)) \<and>
       (\<forall>b i. page_aligned b \<and> unat i < 1024 \<longrightarrow> entry s' b i =
         (if b = page_dir p' then if unat i = 1023 then entry_value (privilege p) 1 (page_dir p') else push_bit 2 (take_bit 1 (privilege p))
          else entry s b i)))"
proof -
  define ph0 where "ph0 = emit (mutex_lock paging_lock) (pg_phys s)"
  have ok0: "phys_ok ph0" "npages ph0 = npages (pg_phys s)" "taken ph0 = taken (pg_phys s)" using assms(2) by (simp_all add: ph0_def)
  obtain d ph where al: "physical_pageAlloc ph0 = Some (d, ph)" using phys_alloc.alloc_total [OF ok0(1)] by blast
  have log: "ph_log ph = ph_log ph0 @ alloc_log ph0"
    using pageAlloc_eq [OF ok0(1)] al by (auto split: option.splits)
  let ?es = "[mutex_lock paging_lock] @ alloc_log ph0 @ [mutex_unlock paging_lock]"
  have locks: "lock_run {} ?es = Some {}"
    by (simp add: lock_run_append lock_run_alloc_log)
  have logs: "ph_log (emit (mutex_unlock paging_lock) ph) = ph_log (pg_phys s) @ ?es"
    using log by (simp add: ph0_def)
  let ?p = "p\<lparr>page_dir := d\<rparr>"
  show ?thesis
  proof (cases "d = NULL")
    case True
    then have "pick_page ph0 = None" using pageAlloc_result(3) [OF ok0(1) al] by blast
    then have "{1..<npages (pg_phys s)} \<subseteq> taken (pg_phys s)" unfolding pick_page_None ok0(2,3) [symmetric] by (auto simp: taken_def)
    moreover have "paging_createDirectory mq p s = Some (FAIL, ?p, pg_emit (mutex_unlock paging_lock) ((pg_emit (mutex_lock paging_lock) s)\<lparr>pg_phys := ph\<rparr>))"
      using al True by (simp add: paging_createDirectory_def pg_emit_def ph0_def Let_def)
    ultimately show ?thesis using True locks logs
      by (intro exI [of _ FAIL] exI [of _ ?p] exI conjI) (auto simp: pg_emit_def)
  next
    case False
    note a = phys_alloc.alloc_page [OF ok0(1) al False]
    have "d \<noteq> 0" using False .
    moreover have "page_aligned d" using a by (simp add: page_aligned_def)
    ultimately have "page d \<noteq> 0" by (metis page_aligned_word mult_0 unat_eq_0)
    then have "page d \<in> {1..<npages (pg_phys s)}" using a ok0(2) by simp
    then have nfull: "\<not> {1..<npages (pg_phys s)} \<subseteq> taken (pg_phys s)" using a ok0(3) by blast
    obtain s' where s': "paging_createDirectory mq p s = Some (SUCCESS, ?p, s')" "pg_phys s' = emit (mutex_unlock paging_lock) ph"
      "page_aligned d" "\<forall>b i. page_aligned b \<and> unat i < 1024 \<longrightarrow> entry s' b i =
      (if b = d then if unat i = 1023 then entry_value (privilege p) 1 d else push_bit 2 (take_bit 1 (privilege p)) else entry s b i)"
      using createDirectory_page [OF assms al [unfolded ph0_def] False] by blast
    then show ?thesis using nfull a locks logs ok0(3)
      by (intro exI [of _ SUCCESS] exI [of _ ?p] exI [of _ s'] exI [of _ ?es] conjI) auto
  qed
qed

theorem createDirectory_correct_witness:
  "\<exists>p' s'. paging_createDirectory ex_quick ex_proc (ex_pg small_phys) = Some (SUCCESS, p', s') \<and>
     entry s' (page_dir p') 1023 = entry_value 0 1 (page_dir p') \<and> entry s' (page_dir p') 7 = 0"
proof -
  have "(1 :: nat) \<in> {1..<256}" by simp
  then have nf: "\<not> {1..<npages small_phys} \<subseteq> taken small_phys" unfolding small_phys_ok by blast
  obtain r p' s' where c: "paging_createDirectory ex_quick ex_proc (ex_pg small_phys) = Some (r, p', s')" "r = SUCCESS" "page_aligned (page_dir p')"
    "\<forall>b i. page_aligned b \<and> unat i < 1024 \<longrightarrow> entry s' b i =
         (if b = page_dir p' then if unat i = 1023 then entry_value 0 1 (page_dir p') else push_bit 2 (take_bit 1 0)
          else entry (ex_pg small_phys) b i)"
    using createDirectory_correct [OF ex_quick_ok, of "ex_pg small_phys" ex_proc] nf small_phys_ok(1)
    unfolding ex_proc_simps if_not_P [OF nf] by blast
  have "entry s' (page_dir p') 1023 = entry_value 0 1 (page_dir p')" "entry s' (page_dir p') 7 = 0"
    using c(4) [rule_format, of "page_dir p'" 1023] c(4) [rule_format, of "page_dir p'" 7] c(3) by simp_all
  with c(1,2) show ?thesis by blast
qed

end
