(* ===== verification/FatTable.thy ===== *)
theory FatTable
  imports Vfs "HOL-Library.Signed_Division"
begin

text \<open>
  The FAT file system, first part: the structures of MimicOS/include/kernel/fs/fat.h and the
  operations of MimicOS/src/kernel/fs/fat.c on the file allocation table and on the layout of the
  volume. Buffers, the table and the boot sector are bytes of memory; the volume and file
  structures and the switch's objects are typed stores. \<open>D\<close> is the code behind the call table of
  the device, reached through the switch.
\<close>

section \<open>Constants\<close>

definition FAT_TYPE :: int where "FAT_TYPE = 1"
definition FAT_READ :: int where "FAT_READ = 1"
definition FAT_WRITE :: int where "FAT_WRITE = 2"

text \<open>
  \<open>FAT_CLUSTER32\<close> is used by fat.c, but the header defines its mask under the name
  \<open>FAT_CLUSTER31\<close>.
\<close>

definition FAT_CLUSTER12 :: "int \<Rightarrow> int" where "FAT_CLUSTER12 c = (c AND 0x00000FFF)"
definition FAT_CLUSTER16 :: "int \<Rightarrow> int" where "FAT_CLUSTER16 c = (c AND 0x0000FFFF)"
definition FAT_CLUSTER32 :: "int \<Rightarrow> int" where "FAT_CLUSTER32 c = (c AND 0x0FFFFFFF)"

definition FAT_FREECLUSTER :: int where "FAT_FREECLUSTER = 0"
definition FAT_ENDOFCLUSTER :: int where "FAT_ENDOFCLUSTER = 0xFFFFFFFF"
definition FAT_ENTRY_DELETED :: u8 where "FAT_ENTRY_DELETED = 0xE5"
definition FAT_PADBYTE :: u8 where "FAT_PADBYTE = 0x20"
definition FAT_12 :: u8 where "FAT_12 = 12"
definition FAT_16 :: u8 where "FAT_16 = 16"
definition FAT_32 :: u8 where "FAT_32 = 32"
definition FAT_MAGIC :: nat where "FAT_MAGIC = 0xAA55"
definition FAT_NAMESIZE :: nat where "FAT_NAMESIZE = 8"
definition FAT_EXTENSIONSIZE :: nat where "FAT_EXTENSIONSIZE = 3"

lemmas fat_types = FAT_12_def FAT_16_def FAT_32_def

section \<open>Structures\<close>

text \<open>
  \<open>struct FAT_BOOTSECTOR\<close>: 512 packed bytes. A field is its offset and its size; of the union of
  474 bytes the code reads \<open>bs32.BPB_FATSz32\<close> only.
\<close>

datatype FAT_BOOTSECTOR = jmp | oem_id | bytes_per_sector | sectors_per_cluster | reserved_sectors | num_fats
  | num_root_dir_ents | total_sectors | media_id_byte | sectors_per_fat | sectors_per_track | heads
  | hidden_sectors | total_sectors_large | BPB_FATSz32 | boot_code | magic

primrec boot_field :: "FAT_BOOTSECTOR \<Rightarrow> nat \<times> nat" where
  "boot_field jmp = (0, 3)"
| "boot_field oem_id = (3, 8)"
| "boot_field bytes_per_sector = (11, 2)"
| "boot_field sectors_per_cluster = (13, 1)"
| "boot_field reserved_sectors = (14, 2)"
| "boot_field num_fats = (16, 1)"
| "boot_field num_root_dir_ents = (17, 2)"
| "boot_field total_sectors = (19, 2)"
| "boot_field media_id_byte = (21, 1)"
| "boot_field sectors_per_fat = (22, 2)"
| "boot_field sectors_per_track = (24, 2)"
| "boot_field heads = (26, 2)"
| "boot_field hidden_sectors = (28, 4)"
| "boot_field total_sectors_large = (32, 4)"
| "boot_field BPB_FATSz32 = (36, 4)"
| "boot_field boot_code = (36, 474)"
| "boot_field magic = (510, 2)"

definition BOOTSECTOR_SIZE :: nat where "BOOTSECTOR_SIZE = 512"

text \<open>
  \<open>struct FAT_MOUNTPOINT\<close>: the boot sector lies in memory behind the first member, four bytes from
  the address of the structure; the other members are a record.
\<close>

record fat_mountpoint =
  fm_device :: u32
  fm_rootdir :: u32
  fm_type :: u8
  fm_fat_data :: u32
  fm_fat_size :: int
  fm_cluster_size :: int
  fm_total_clusters :: int

definition MOUNTPOINT_SIZE :: nat where "MOUNTPOINT_SIZE = 537"

definition boot_address :: "u32 \<Rightarrow> u32" where "boot_address mount = mount + 4"

text \<open>
  \<open>struct FAT_ENTRY\<close>: 32 packed bytes. The attributes are one byte of bit-fields, of which
  \<open>directory\<close> is bit 4 and \<open>archive\<close> bit 5; time and date are two bytes each.
\<close>

record fat_entry =
  e_name :: bytes
  e_extension :: bytes
  e_attribute :: u8
  e_reserved :: bytes
  e_time :: bytes
  e_date :: bytes
  e_start_cluster :: u16
  e_file_size :: u32

definition ENTRY_SIZE :: nat where "ENTRY_SIZE = 32"

definition fat_entry_of_bytes :: "bytes \<Rightarrow> fat_entry" where
  "fat_entry_of_bytes bs =
     \<lparr>e_name = take 8 bs, e_extension = take 3 (drop 8 bs), e_attribute = bs ! 11,
      e_reserved = take 10 (drop 12 bs), e_time = take 2 (drop 22 bs), e_date = take 2 (drop 24 bs),
      e_start_cluster = of_nat (le (take 2 (drop 26 bs))), e_file_size = of_nat (le (take 4 (drop 28 bs)))\<rparr>"

definition bytes_of_fat_entry :: "fat_entry \<Rightarrow> bytes" where
  "bytes_of_fat_entry e =
     e_name e @ e_extension e @ [e_attribute e] @ e_reserved e @ e_time e @ e_date e @
     le_bytes 2 (unat (e_start_cluster e)) @ le_bytes 4 (unat (e_file_size e))"

definition is_directory :: "fat_entry \<Rightarrow> bool" where "is_directory e \<longleftrightarrow> bit (e_attribute e) 4"
definition is_archive :: "fat_entry \<Rightarrow> bool" where "is_archive e \<longleftrightarrow> bit (e_attribute e) 5"

record fat_file =
  ff_mount :: u32
  ff_entry :: fat_entry
  ff_dir_cluster :: int
  ff_dir_index :: int
  ff_current_pos :: int

definition FILE_SIZE :: nat where "FILE_SIZE = 48"

text \<open>
  What the driver adds to the state of the switch: memory, the volumes, the open files, and the
  state of the device.
\<close>

record 'd fat =
  fat_mem :: memory
  mount_store :: "u32 \<Rightarrow> fat_mountpoint"
  file_store :: "u32 \<Rightarrow> fat_file"
  device :: 'd

definition mem :: "'d fat vfs \<Rightarrow> memory" where "mem s = fat_mem (world s)"
definition volume :: "'d fat vfs \<Rightarrow> u32 \<Rightarrow> fat_mountpoint" where "volume s = mount_store (world s)"
definition fatfile :: "'d fat vfs \<Rightarrow> u32 \<Rightarrow> fat_file" where "fatfile s = file_store (world s)"

definition set_mem :: "memory \<Rightarrow> 'd fat vfs \<Rightarrow> 'd fat vfs" where
  "set_mem m s = s\<lparr>world := (world s)\<lparr>fat_mem := m\<rparr>\<rparr>"

definition set_volume :: "u32 \<Rightarrow> (fat_mountpoint \<Rightarrow> fat_mountpoint) \<Rightarrow> 'd fat vfs \<Rightarrow> 'd fat vfs" where
  "set_volume a F s = s\<lparr>world := (world s)\<lparr>mount_store := (volume s)(a := F (volume s a))\<rparr>\<rparr>"

definition set_file :: "u32 \<Rightarrow> (fat_file \<Rightarrow> fat_file) \<Rightarrow> 'd fat vfs \<Rightarrow> 'd fat vfs" where
  "set_file a F s = s\<lparr>world := (world s)\<lparr>file_store := (fatfile s)(a := F (fatfile s a))\<rparr>\<rparr>"

definition boot :: "'d fat vfs \<Rightarrow> u32 \<Rightarrow> FAT_BOOTSECTOR \<Rightarrow> int" where
  "boot s mount f = (case boot_field f of (off, n) \<Rightarrow>
     int (le (bytes_at (mem s) (boot_address mount + of_nat off) n)))"

text \<open>Signed division, with undefined behaviour for a zero divisor.\<close>

definition quot :: "int \<Rightarrow> int \<Rightarrow> int option" where
  "quot a b = (if b = 0 then None else Some (a sdiv b))"

section \<open>The file allocation table\<close>

text \<open>
  A cluster's entry is set by one assignment to an element of a \<open>BYTE *\<close>: one byte is written,
  at the index of the cluster (and a half more for FAT 12).
\<close>

definition fat_setFATCluster :: "'d fat drivers \<Rightarrow> u32 \<Rightarrow> int \<Rightarrow> int \<Rightarrow> bool \<Rightarrow> 'd fat vfs \<Rightarrow> 'd fat vfs option" where
  "fat_setFATCluster D mount cluster value commit s =
     (let put = (\<lambda>index v. set_mem ((mem s)(fm_fat_data (volume s mount) + word_of_int index := word_of_int v)) s);
          type = fm_type (volume s mount)
      in if type \<notin> {FAT_12, FAT_16, FAT_32} then Some s
         else do {
           let s = (if type = FAT_12 then put (wrap32 (cluster * 3) sdiv 2) (FAT_CLUSTER12 value)
                    else if type = FAT_16 then put cluster (FAT_CLUSTER16 value)
                    else put cluster (FAT_CLUSTER32 value));
           if commit then do {
             (_, s) \<leftarrow> vfs_seek D (fm_device (volume s mount)) (of_nat BOOTSECTOR_SIZE + 1) VFS_SEEK_START s;
             (_, s) \<leftarrow> vfs_write D (fm_device (volume s mount)) (fm_fat_data (volume s mount))
                        (word_of_int (fm_fat_size (volume s mount))) s;
             Some s
           }
           else Some s
         })"

definition fat_getFATCluster :: "'d fat vfs \<Rightarrow> u32 \<Rightarrow> int \<Rightarrow> int" where
  "fat_getFATCluster s mount cluster =
     (let type = fm_type (volume s mount);
          data = fm_fat_data (volume s mount)
      in if type = FAT_12 then
           (let next_cluster = int (le (bytes_at (mem s) (data + word_of_int (wrap32 (cluster * 3) sdiv 2)) 2));
                next_cluster = (if cluster AND 0x1 \<noteq> 0 then drop_bit 4 next_cluster else FAT_CLUSTER12 next_cluster)
            in if next_cluster = FAT_CLUSTER12 FAT_ENDOFCLUSTER then FAIL else next_cluster)
         else if type = FAT_16 then
           (let next_cluster = int (le (bytes_at (mem s) (data + word_of_int (2 * cluster)) 2))
            in if next_cluster = FAT_CLUSTER16 FAT_ENDOFCLUSTER then FAIL else next_cluster)
         else if type = FAT_32 then
           (let next_cluster = wrap32 (int (le (bytes_at (mem s) (data + word_of_int (4 * cluster)) 4)))
            in if next_cluster = FAT_CLUSTER32 FAT_ENDOFCLUSTER then FAIL else next_cluster)
         else FAIL)"

text \<open>The search from \<open>index\<close> on, with \<open>left\<close> clusters to look at.\<close>

fun find_free :: "'d fat vfs \<Rightarrow> u32 \<Rightarrow> int \<Rightarrow> nat \<Rightarrow> int" where
  "find_free s mount index 0 = FAIL"
| "find_free s mount index (Suc left) =
     (if fat_getFATCluster s mount index = FAT_FREECLUSTER then index
      else find_free s mount (index + 1) left)"

definition fat_getFreeCluster :: "'d fat vfs \<Rightarrow> u32 \<Rightarrow> int" where
  "fat_getFreeCluster s mount = find_free s mount 0 (nat (fm_total_clusters (volume s mount)))"

section \<open>The layout of the volume\<close>

definition fat_determineType :: "u32 \<Rightarrow> 'd fat vfs \<Rightarrow> (int \<times> 'd fat vfs) option" where
  "fat_determineType mount s = do {
     root_dir_sectors \<leftarrow> quot (boot s mount num_root_dir_ents * 32 + (boot s mount bytes_per_sector - 1))
                          (boot s mount bytes_per_sector);
     let fats = (if boot s mount sectors_per_fat \<noteq> 0 then boot s mount sectors_per_fat
                 else wrap32 (boot s mount BPB_FATSz32));
     let total = (if boot s mount total_sectors \<noteq> 0 then boot s mount total_sectors
                  else wrap32 (boot s mount total_sectors_large));
     let data_sectors = wrap32 (total - (boot s mount reserved_sectors + boot s mount num_fats * fats + root_dir_sectors));
     total_clusters \<leftarrow> quot data_sectors (boot s mount sectors_per_cluster);
     let type = (if total_clusters < 4085 then FAT_12 else if total_clusters < 65525 then FAT_16 else FAT_32);
     Some (uint type, set_volume mount (\<lambda>v. v\<lparr>fm_total_clusters := total_clusters, fm_type := type\<rparr>) s)
   }"

text \<open>
  \<open>hidden_sectors\<close> is unsigned, and so is the sum; the number of root entries is divided by the
  number of entries a sector holds, which must not be zero.
\<close>

definition fat_cluster2block :: "'d fat vfs \<Rightarrow> u32 \<Rightarrow> int \<Rightarrow> int option" where
  "fat_cluster2block s mount cluster =
     (let per_sector = boot s mount bytes_per_sector div int ENTRY_SIZE in
      if per_sector = 0 then None
      else Some (wrap32 (cluster * boot s mount sectors_per_cluster + boot s mount hidden_sectors
                  + boot s mount num_fats * boot s mount sectors_per_fat
                  + boot s mount num_root_dir_ents div per_sector - 1)))"

section \<open>Clusters\<close>

text \<open>
  The sectors of a cluster, from sector \<open>i = 256 - left\<close> on: the number of sectors is a byte, so
  256 rounds are enough. The buffer pointer is moved by \<open>bytes_per_sector * i\<close> in every round.
\<close>

fun rw_sectors :: "(u32 \<Rightarrow> u32 \<Rightarrow> u32 \<Rightarrow> 'd fat vfs \<Rightarrow> (int \<times> 'd fat vfs) option) \<Rightarrow> u32 \<Rightarrow> u32 \<Rightarrow> nat \<Rightarrow>
    'd fat vfs \<Rightarrow> (int \<times> 'd fat vfs) option" where
  "rw_sectors vfs_rw mount clusterBuffer 0 s = Some (SUCCESS, s)"
| "rw_sectors vfs_rw mount clusterBuffer (Suc left) s =
     (let i = int (256 - Suc left) in
      if i < boot s mount sectors_per_cluster then do {
        let clusterBuffer = clusterBuffer + word_of_int (boot s mount bytes_per_sector * i);
        (r, s) \<leftarrow> vfs_rw (fm_device (volume s mount)) clusterBuffer (word_of_int (boot s mount bytes_per_sector)) s;
        if r = FAIL then Some (FAIL, s) else rw_sectors vfs_rw mount clusterBuffer left s
      }
      else Some (SUCCESS, s))"

definition fat_rwCluster :: "'d fat drivers \<Rightarrow> u32 \<Rightarrow> int \<Rightarrow> u32 \<Rightarrow> int \<Rightarrow> 'd fat vfs \<Rightarrow> (int \<times> 'd fat vfs) option" where
  "fat_rwCluster D mount cluster clusterBuffer mode s =
     (if mode \<noteq> FAT_READ \<and> mode \<noteq> FAT_WRITE then Some (FAIL, s)
      else do {
        block \<leftarrow> fat_cluster2block s mount cluster;
        (r, s) \<leftarrow> vfs_seek D (fm_device (volume s mount))
                   (word_of_int (block * boot s mount bytes_per_sector + 1)) VFS_SEEK_START s;
        if r = FAIL then Some (FAIL, s)
        else rw_sectors (if mode = FAT_READ then vfs_read D else vfs_write D) mount clusterBuffer 256 s
      })"

end
