(* ===== verification/FatName.thy ===== *)
theory FatName
  imports FatTable
begin

text \<open>
  The FAT file system, second part: file names (\<open>fat_compareName\<close>, \<open>fat_getIndex\<close>,
  \<open>fat_setFileName\<close>) and the walk along a path (\<open>fat_file2entry\<close>). A name is the buffer it lies
  in, from its first character to the end of the buffer, so that the null bytes the code writes
  and reads past are there; an access behind the buffer is undefined.
\<close>

section \<open>Characters and strings of the library\<close>

definition PATH_SLASH :: u8 where "PATH_SLASH = 0x2F"
definition DOT :: u8 where "DOT = 0x2E"

definition toupper :: "u8 \<Rightarrow> u8" where
  "toupper c = (if 0x61 \<le> c \<and> c \<le> 0x7A then c - 0x20 else c)"

definition tolower :: "u8 \<Rightarrow> u8" where
  "tolower c = (if 0x41 \<le> c \<and> c \<le> 0x5A then c + 0x20 else c)"

definition strlen :: "bytes \<Rightarrow> nat option" where
  "strlen buf = (if 0 \<in> set buf then Some (length (cstr buf)) else None)"

text \<open>The position of the last occurrence of a character in a string.\<close>

definition strrchr :: "bytes \<Rightarrow> u8 \<Rightarrow> nat option" where
  "strrchr buf c = (if c \<in> set (cstr buf)
     then Some (length (cstr buf) - Suc (length (takeWhile (\<lambda>x. x \<noteq> c) (rev (cstr buf))))) else None)"

text \<open>The loops \<open>for (i = 0; i < strlen(name); i++) name[i] = toupper(name[i]);\<close>.\<close>

definition upper :: "bytes \<Rightarrow> bytes" where
  "upper buf = map toupper (cstr buf) @ drop (length (cstr buf)) buf"

section \<open>Names of entries\<close>

text \<open>
  Both loops of \<open>fat_compareName\<close> compare the bytes of a field with a name until the field ends or
  is padded: they answer what is left of the name, or \<^term>\<open>Some None\<close> where they differ. The
  bytes of the entry are unsigned, the characters of the name are not.
\<close>

fun compare_field :: "bytes \<Rightarrow> bytes \<Rightarrow> bytes option option" where
  "compare_field [] name = Some (Some name)"
| "compare_field (e # es) name =
     (if e = FAT_PADBYTE then Some (Some name)
      else case name of
        [] \<Rightarrow> None
      | c # cs \<Rightarrow> if sint c \<noteq> uint e then Some None else compare_field es cs)"

definition fat_compareName :: "fat_entry \<Rightarrow> bytes \<Rightarrow> (int \<times> bytes) option" where
  "fat_compareName entry name = do {
     _ \<leftarrow> strlen name;
     let name = upper name;
     rest \<leftarrow> compare_field (e_name entry) name;
     case rest of
       None \<Rightarrow> Some (FAIL, name)
     | Some [] \<Rightarrow> None
     | Some (c # cs) \<Rightarrow>
         if c = DOT \<or> e_extension entry ! 0 \<noteq> FAT_PADBYTE
         then map_option (\<lambda>r. (if r = None then FAIL else SUCCESS, name)) (compare_field (e_extension entry) cs)
         else Some (SUCCESS, name)
   }"

definition entry_of :: "memory \<Rightarrow> u32 \<Rightarrow> int \<Rightarrow> fat_entry" where
  "entry_of m dir i = fat_entry_of_bytes (bytes_at m (dir + word_of_int (int ENTRY_SIZE * i)) ENTRY_SIZE)"

definition put_entry :: "u32 \<Rightarrow> int \<Rightarrow> fat_entry \<Rightarrow> memory \<Rightarrow> memory" where
  "put_entry dir i e m = put_bytes m (dir + word_of_int (int ENTRY_SIZE * i)) (bytes_of_fat_entry e)"

text \<open>\<open>fat_getIndex\<close> looks at 32 entries, whatever the size of the directory.\<close>

fun scan_entries :: "memory \<Rightarrow> u32 \<Rightarrow> nat \<Rightarrow> bytes \<Rightarrow> (int \<times> bytes) option" where
  "scan_entries m dir 0 name = Some (FAIL, name)"
| "scan_entries m dir (Suc left) name =
     (let i = int (32 - Suc left); e = entry_of m dir i in
      if e_name e ! 0 = 0 then Some (FAIL, name)
      else if e_name e ! 0 = FAT_ENTRY_DELETED then scan_entries m dir left name
      else if uint (e_start_cluster e) = FAT_FREECLUSTER \<and> \<not> is_archive e then scan_entries m dir left name
      else do {
        (r, name) \<leftarrow> fat_compareName e name;
        if r = SUCCESS then Some (i, name) else scan_entries m dir left name
      })"

definition fat_getIndex :: "memory \<Rightarrow> u32 \<Rightarrow> bytes \<Rightarrow> (int \<times> bytes) option" where
  "fat_getIndex m dir name = scan_entries m dir 32 name"

text \<open>
  \<open>fat_setFileName\<close>: the name up to a dot or eight characters; the loop over the extension moves
  along the name but not along the extension, so that every character of it goes to the first byte.
\<close>

definition name_part :: "bytes \<Rightarrow> bytes" where
  "name_part name = take FAT_NAMESIZE (takeWhile (\<lambda>c. c \<noteq> 0 \<and> c \<noteq> DOT) name)"

definition pad_to :: "nat \<Rightarrow> bytes \<Rightarrow> bytes" where
  "pad_to n bs = bs @ replicate (n - length bs) FAT_PADBYTE"

definition fat_setFileName :: "u32 \<Rightarrow> bytes \<Rightarrow> 'd fat vfs \<Rightarrow> (int \<times> bytes \<times> 'd fat vfs) option" where
  "fat_setFileName f name s = do {
     _ \<leftarrow> strlen name;
     let name = upper name;
     let base = name_part name;
     let rest = drop (length base) name;
     let extension = (if hd rest = DOT
                      then (let chars = cstr (tl rest) in if chars = [] then [] else [last chars])
                      else []);
     Some (SUCCESS, name, set_file f (\<lambda>x. x\<lparr>ff_entry := (ff_entry x)\<lparr>e_name := pad_to FAT_NAMESIZE base,
       e_extension := pad_to FAT_EXTENSIONSIZE extension\<rparr>\<rparr>) s)
   }"

section \<open>Paths\<close>

text \<open>
  The loop of \<open>fat_file2entry\<close> over the characters \<open>i .. length\<close> of the path (\<open>left\<close> of them are left).
  \<open>cur\<close> is where the current component starts; \<open>prevEntry\<close> is not initialised, its first value is
  an argument. The answer is \<^term>\<open>None\<close> in its first component when a cluster cannot be read,
  else the index, the cluster and the entry the loop ends with.
\<close>

fun walk_path :: "'d fat drivers \<Rightarrow> u32 \<Rightarrow> u32 \<Rightarrow> nat \<Rightarrow> nat \<Rightarrow> nat \<Rightarrow> bytes \<Rightarrow> u32 \<Rightarrow> fat_entry \<Rightarrow> int \<Rightarrow> int \<Rightarrow>
    'd fat vfs \<Rightarrow> ((int \<times> int \<times> fat_entry \<times> nat) option \<times> bytes \<times> 'd fat vfs) option" where
  "walk_path D mount clusterBuffer 0 i cur buf curr_dir prevEntry dir_index dir_cluster s =
     Some (Some (dir_index, dir_cluster, prevEntry, cur), buf, s)"
| "walk_path D mount clusterBuffer (Suc left) i cur buf curr_dir prevEntry dir_index dir_cluster s =
     (if buf ! i = PATH_SLASH \<or> buf ! i = 0 then do {
        let buf = buf[i := 0];
        (dir_index, name) \<leftarrow> fat_getIndex (mem s) curr_dir (drop cur buf);
        let buf = take cur buf @ name;
        if dir_index = FAIL then Some (Some (FAIL, dir_cluster, prevEntry, cur), buf, s)
        else do {
          let dir_cluster = uint (e_start_cluster prevEntry);
          let prevEntry = entry_of (mem s) curr_dir dir_index;
          (r, s) \<leftarrow> fat_rwCluster D mount (uint (e_start_cluster prevEntry)) clusterBuffer FAT_READ s;
          if r = FAIL then Some (None, buf, s)
          else walk_path D mount clusterBuffer left (i + 1) (i + 1) buf clusterBuffer prevEntry dir_index dir_cluster s
        }
      }
      else walk_path D mount clusterBuffer left (i + 1) cur buf curr_dir prevEntry dir_index dir_cluster s)"

text \<open>What is given to the caller.\<close>

definition deliver :: "u32 \<Rightarrow> u32 \<Rightarrow> fat_entry \<Rightarrow> int \<Rightarrow> int \<Rightarrow> 'd fat vfs \<Rightarrow> 'd fat vfs" where
  "deliver entry f e i dc s =
     (let s = (if entry \<noteq> NULL then set_mem (put_entry entry 0 e (mem s)) s else s)
      in if f \<noteq> NULL then set_file f (\<lambda>x. x\<lparr>ff_dir_cluster := dc, ff_dir_index := i, ff_entry := e\<rparr>) s else s)"

text \<open>
  \<open>fat_file2entry\<close>. \<open>entry\<close> and \<open>f\<close> are the addresses of the results, null when the caller does not
  want them; \<open>garbage\<close> is what the stack holds at \<open>prevEntry\<close>. It answers the buffer of the path
  as it leaves it: in capitals and cut into its components.
\<close>

definition fat_file2entry :: "'d fat drivers \<Rightarrow> fat_entry \<Rightarrow> u32 \<Rightarrow> bytes \<Rightarrow> u32 \<Rightarrow> u32 \<Rightarrow> 'd fat vfs \<Rightarrow>
    (int \<times> bytes \<times> 'd fat vfs) option" where
  "fat_file2entry D garbage mount filename entry f s = do {
     _ \<leftarrow> strlen filename;
     let skip = (if filename ! 0 = PATH_SLASH then 1 else 0);
     let buf = upper (drop skip filename);
     n \<leftarrow> strlen buf;
     let (clusterBuffer, s) = kmalloc (nat (fm_cluster_size (volume s mount))) s;
     (r, buf, s) \<leftarrow> walk_path D mount clusterBuffer (n + 1) 0 0 buf (fm_rootdir (volume s mount)) garbage FAIL FAIL s;
     let filename = take skip filename @ buf;
     case r of
       None \<Rightarrow> Some (FAIL, filename, kfree clusterBuffer s)
     | Some (dir_index, dir_cluster, prevEntry, cur) \<Rightarrow> do {
         found \<leftarrow> (if dir_index = FAIL then map_option (\<lambda>n. n = 0) (strlen (drop cur buf)) else Some True);
         if \<not> found then Some (FAIL, filename, kfree clusterBuffer s)
         else Some (SUCCESS, filename, kfree clusterBuffer (deliver entry f prevEntry dir_index dir_cluster s))
       }
   }"

end
