(* ===== verification/Fat.thy ===== *)
theory Fat
  imports FatName Dfs
begin

text \<open>
  The FAT file system, third part: the driver's operations (MimicOS/src/kernel/fs/fat.c, from
  \<open>fat_updateFileEntry\<close> on) and its registration with the switch. \<open>D\<close> is the driver of the device,
  which the operations reach through the switch; \<open>garbage\<close> is the uninitialised \<open>prevEntry\<close> of
  \<open>fat_file2entry\<close>. Debugging output is left out.
\<close>

section \<open>Writing entries\<close>

text \<open>
  The search for a free slot, from \<open>index\<close> on, with \<open>left\<close> slots to look at: the slot (one past
  the last when there is none), or \<^term>\<open>None\<close> when the free slot is the last.
\<close>

fun free_entry :: "memory \<Rightarrow> u32 \<Rightarrow> int \<Rightarrow> nat \<Rightarrow> (int \<times> memory) option" where
  "free_entry m dir index 0 = Some (index, m)"
| "free_entry m dir index (Suc left) =
     (let e = entry_of m dir index in
      if e_file_size e = -1 then free_entry m dir (index + 1) left
      else if e_name e ! 0 = 0 then
        (if left = 0 then None else Some (index, m(dir + word_of_int (int ENTRY_SIZE * (index + 1)) := 0)))
      else free_entry m dir (index + 1) left)"

definition fat_updateFileEntry :: "'d fat drivers \<Rightarrow> u32 \<Rightarrow> 'd fat vfs \<Rightarrow> (int \<times> 'd fat vfs) option" where
  "fat_updateFileEntry D f s = (let mount = ff_mount (fatfile s f) in do {
     let (dir, s) = kmalloc (nat (fm_cluster_size (volume s mount))) s;
     (r, s) \<leftarrow> fat_rwCluster D mount (ff_dir_cluster (fatfile s f)) dir FAT_READ s;
     if r = SUCCESS then do {
       let slots = nat (fm_cluster_size (volume s mount)) div ENTRY_SIZE;
       let slot = (if ff_dir_index (fatfile s f) = FAIL then free_entry (mem s) dir 0 slots
                   else Some (ff_dir_index (fatfile s f), mem s));
       case slot of
         None \<Rightarrow> Some (FAIL, kfree dir (set_file f (\<lambda>x. x\<lparr>ff_dir_index := int slots - 1\<rparr>) s))
       | Some (index, m) \<Rightarrow> do {
           let s = set_file f (\<lambda>x. x\<lparr>ff_dir_index := index\<rparr>) (set_mem m s);
           let s = set_mem (put_entry dir index (ff_entry (fatfile s f)) (mem s)) s;
           (r, s) \<leftarrow> fat_rwCluster D mount (ff_dir_cluster (fatfile s f)) dir FAT_WRITE s;
           Some (r, kfree dir s)
         }
     }
     else Some (FAIL, kfree dir s)
   })"

definition fat_setFileSize :: "'d fat drivers \<Rightarrow> u32 \<Rightarrow> int \<Rightarrow> 'd fat vfs \<Rightarrow> (int \<times> 'd fat vfs) option" where
  "fat_setFileSize D f n s =
     (if e_file_size (ff_entry (fatfile s f)) = word_of_int n then Some (SUCCESS, s)
      else fat_updateFileEntry D f
             (set_file f (\<lambda>x. x\<lparr>ff_entry := (ff_entry x)\<lparr>e_file_size := word_of_int n\<rparr>\<rparr>) s))"

section \<open>Mounting\<close>

text \<open>A block of \<open>n\<close> zeros; no memory for it is undefined behaviour, since the result is not tested.\<close>

definition kzalloc :: "nat \<Rightarrow> 'd fat vfs \<Rightarrow> (u32 \<times> 'd fat vfs) option" where
  "kzalloc n s = (case kmalloc n s of (a, s) \<Rightarrow>
     if a = NULL \<and> n \<noteq> 0 then None else Some (a, set_mem (memset (mem s) a 0x00 n) s))"

definition fat_mount :: "'d fat drivers \<Rightarrow> string \<Rightarrow> 'd fat vfs \<Rightarrow> (u32 \<times> 'd fat vfs) option" where
  "fat_mount D dev s = do {
     let (mount, s) = kmalloc MOUNTPOINT_SIZE s;
     if mount = NULL then Some (NULL, s)
     else do {
       (h, s) \<leftarrow> vfs_open D dev VFS_MODE_READWRITE s;
       let s = set_volume mount (\<lambda>v. v\<lparr>fm_device := h\<rparr>) s;
       if h = NULL then Some (NULL, kfree mount s)
       else do {
         (_, s) \<leftarrow> vfs_read D h (boot_address mount) (of_nat BOOTSECTOR_SIZE) s;
         if boot s mount magic \<noteq> int FAT_MAGIC then do {
           (_, s) \<leftarrow> vfs_close D h s;
           Some (NULL, kfree mount s)
         }
         else do {
           (_, s) \<leftarrow> fat_determineType mount s;
           let s = set_volume mount (\<lambda>v. v\<lparr>fm_cluster_size := boot s mount bytes_per_sector * boot s mount sectors_per_cluster\<rparr>) s;
           let n = boot s mount sectors_per_fat * boot s mount bytes_per_sector;
           let s = set_volume mount (\<lambda>v. v\<lparr>fm_fat_size := wrap32 n\<rparr>) s;
           (a, s) \<leftarrow> kzalloc (nat (uint (word_of_int n :: u32))) s;
           let s = set_volume mount (\<lambda>v. v\<lparr>fm_fat_data := a\<rparr>) s;
           (_, s) \<leftarrow> vfs_read D h a (word_of_int n) s;
           let root_size = boot s mount num_root_dir_ents * int ENTRY_SIZE;
           (root, s) \<leftarrow> kzalloc (nat root_size) s;
           let s = set_volume mount (\<lambda>v. v\<lparr>fm_rootdir := root\<rparr>) s;
           let root_dir_offset = boot s mount num_fats * fm_fat_size (volume s mount) + int BOOTSECTOR_SIZE + 1;
           (_, s) \<leftarrow> vfs_seek D h (word_of_int root_dir_offset) VFS_SEEK_START s;
           (_, s) \<leftarrow> vfs_read D h root (word_of_int root_size) s;
           Some (mount, s)
         }
       }
     }
   }"

text \<open>The mount point of the switch holds the address of the volume in its \<open>data_ptr\<close>.\<close>

definition fat_unmount :: "'d fat drivers \<Rightarrow> u32 \<Rightarrow> 'd fat vfs \<Rightarrow> (int \<times> 'd fat vfs) option" where
  "fat_unmount D mount s = (let vol = mp_data_ptr (mp_heap s mount) in
     if vol = NULL then Some (FAIL, s)
     else do {
       (_, s) \<leftarrow> vfs_close D (fm_device (volume s vol)) s;
       Some (SUCCESS, kfree vol (kfree (fm_rootdir (volume s vol)) s))
     })"

section \<open>Open files\<close>

text \<open>
  \<open>fat_open\<close> compares the result of \<open>fat_file2entry\<close> with \<open>NULL\<close>, which is \<open>SUCCESS\<close>; and
  \<open>mode & VFS_MODE_TRUNCATE == VFS_MODE_TRUNCATE\<close> is \<open>mode & 1\<close>.
\<close>

definition fat_open :: "'d fat drivers \<Rightarrow> fat_entry \<Rightarrow> u32 \<Rightarrow> bytes \<Rightarrow> 'd fat vfs \<Rightarrow>
    (u32 \<times> bytes \<times> 'd fat vfs) option" where
  "fat_open D garbage handle filename s =
     (let vol = mp_data_ptr (mp_heap s (h_mount (handle_heap s handle))) in
      if vol = NULL then Some (word_of_int FAIL, filename, s)
      else do {
        let (f, s) = kmalloc FILE_SIZE s;
        (r, filename, s) \<leftarrow> fat_file2entry D garbage vol filename NULL f s;
        if r = 0 then Some (NULL, filename, kfree f s)
        else if f = NULL then None
        else do {
          let s = set_file f (\<lambda>x. x\<lparr>ff_mount := vol, ff_current_pos := 0\<rparr>) s;
          let s = set_handle handle (\<lambda>h. h\<lparr>h_data_ptr := f\<rparr>) s;
          if h_mode (handle_heap s handle) AND 1 \<noteq> 0 then do {
            (r, s) \<leftarrow> fat_setFileSize D f 0 s;
            if r = FAIL then Some (NULL, filename, kfree f s) else Some (handle, filename, s)
          }
          else Some (handle, filename, s)
        }
      })"

definition fat_close :: "u32 \<Rightarrow> 'd fat vfs \<Rightarrow> int \<times> 'd fat vfs" where
  "fat_close handle s =
     (let f = h_data_ptr (handle_heap s handle) in
      if f = NULL then (FAIL, s) else (SUCCESS, kfree f s))"

definition fat_clone :: int where "fat_clone = FAIL"

definition fat_control :: int where "fat_control = FAIL"

text \<open>
  The new position: an unsigned offset added to or subtracted from 32-bit integers, and compared
  with the unsigned size of the file.
\<close>

definition fat_seek :: "u32 \<Rightarrow> u32 \<Rightarrow> u8 \<Rightarrow> 'd fat vfs \<Rightarrow> int \<times> 'd fat vfs" where
  "fat_seek handle offset origin s =
     (let f = h_data_ptr (handle_heap s handle) in
      if f = NULL then (FAIL, s)
      else (let saved_pos = ff_current_pos (fatfile s f);
                n = e_file_size (ff_entry (fatfile s f));
                target = (if origin = VFS_SEEK_START then Some (sint offset)
                          else if origin = VFS_SEEK_CURRENT then Some (wrap32 (saved_pos + uint offset))
                          else if origin = VFS_SEEK_END then Some (sint (n - offset))
                          else None)
            in case target of
                 None \<Rightarrow> (FAIL, s)
               | Some pos \<Rightarrow>
                   (let pos = (if (word_of_int pos :: u32) > n \<or> pos < 0 then saved_pos else pos)
                    in (pos, set_file f (\<lambda>x. x\<lparr>ff_current_pos := pos\<rparr>) s))))"

section \<open>Reading and writing\<close>

text \<open>Following the cluster chain \<open>i\<close> times.\<close>

fun follow :: "'d fat vfs \<Rightarrow> u32 \<Rightarrow> int \<Rightarrow> nat \<Rightarrow> int" where
  "follow s mount cluster 0 = cluster"
| "follow s mount cluster (Suc i) =
     (let cluster = fat_getFATCluster s mount cluster in
      if cluster = FAT_FREECLUSTER \<or> cluster = FAIL then FAIL else follow s mount cluster i)"

text \<open>
  Appending \<open>new_clusters\<close> clusters to the chain behind \<open>prev_cluster\<close>; the last one of the chain,
  or \<open>FAIL\<close>, and the state. The source sets \<open>prev_cluster\<close> to \<open>new_cluster\<close>, a name it does not
  declare; the model takes the cluster just found.
\<close>

fun extend_chain :: "'d fat drivers \<Rightarrow> u32 \<Rightarrow> int \<Rightarrow> nat \<Rightarrow> 'd fat vfs \<Rightarrow> (int \<times> 'd fat vfs) option" where
  "extend_chain D mount prev_cluster 0 s = Some (prev_cluster, s)"
| "extend_chain D mount prev_cluster (Suc new_clusters) s =
     (let next_cluster = fat_getFreeCluster s mount in
      if next_cluster = FAIL then Some (FAIL, s)
      else do {
        s \<leftarrow> fat_setFATCluster D mount prev_cluster next_cluster False s;
        extend_chain D mount next_cluster new_clusters s
      })"

text \<open>
  How many bytes one round transfers. The position is not moved before the end of the loop, so
  \<open>end_of_cluster\<close> is the same in every round.
\<close>

definition bytes_to_rw :: "int \<Rightarrow> int \<Rightarrow> int \<Rightarrow> u32 \<Rightarrow> int" where
  "bytes_to_rw cluster_size current_pos cluster_offset n =
     (let b = (if n > word_of_int cluster_size then cluster_size else sint n);
          end_of_cluster = (current_pos sdiv cluster_size + 1) * cluster_size
      in if cluster_offset + b > end_of_cluster
         then sint (n - word_of_int (cluster_offset + b - end_of_cluster)) else b)"

text \<open>
  The transfer loop: the bytes transferred and the state. \<^term>\<open>None\<close> also stands for a loop that
  does not end.
\<close>

partial_function (option) rw_loop :: "'d fat drivers \<Rightarrow> u32 \<Rightarrow> int \<Rightarrow> u32 \<Rightarrow> int \<Rightarrow> u32 \<Rightarrow> int \<Rightarrow> u32 \<Rightarrow> int \<Rightarrow>
    'd fat vfs \<Rightarrow> (int \<times> 'd fat vfs) option" where
  "rw_loop D f mode clusterBuffer cluster buffer cluster_offset n bytes_rw s =
     (let mount = ff_mount (fatfile s f);
          cluster_size = fm_cluster_size (volume s mount);
          b = bytes_to_rw cluster_size (ff_current_pos (fatfile s f)) cluster_offset n
      in do {
        (r, s) \<leftarrow>
          (if mode = FAT_WRITE then do {
             (r, s) \<leftarrow> (if cluster_offset > 0 \<or> b < cluster_size
                       then fat_rwCluster D mount cluster clusterBuffer FAT_READ s
                       else Some (SUCCESS, set_mem (memset (mem s) clusterBuffer 0x00 (nat cluster_size)) s));
             Some (r, if r = FAIL then s else
               set_mem (memcpy (mem s) (clusterBuffer + word_of_int cluster_offset) (mem s) buffer (nat b)) s)
           }
           else Some (SUCCESS, s));
        if r = FAIL then Some (bytes_rw, s)
        else do {
          (r, s) \<leftarrow> fat_rwCluster D mount cluster clusterBuffer mode s;
          if r = FAIL then Some (bytes_rw, s)
          else do {
            let s = (if mode = FAT_READ
                     then set_mem (memcpy (mem s) buffer (mem s) (clusterBuffer + word_of_int cluster_offset) (nat b)) s
                     else s);
            let n = n - word_of_int b;
            if n = 0 then Some (bytes_rw + b, s)
            else do {
              let cluster = fat_getFATCluster s mount cluster;
              if cluster = FAT_FREECLUSTER \<or> cluster = FAIL then Some (bytes_rw + b, s)
              else rw_loop D f mode clusterBuffer cluster (buffer + word_of_int b) 0 n (bytes_rw + b) s
            }
          }
        }
      })"

definition fat_rw :: "'d fat drivers \<Rightarrow> u32 \<Rightarrow> u32 \<Rightarrow> u32 \<Rightarrow> int \<Rightarrow> 'd fat vfs \<Rightarrow> (int \<times> 'd fat vfs) option" where
  "fat_rw D handle buffer n mode s = (let f = h_data_ptr (handle_heap s handle) in
     if f = NULL then Some (FAIL, s)
     else do {
       let mount = ff_mount (fatfile s f);
       let cluster_size = fm_cluster_size (volume s mount);
       let pos = ff_current_pos (fatfile s f);
       let file_size = e_file_size (ff_entry (fatfile s f));
       i \<leftarrow> quot pos cluster_size;
       let start = uint (e_start_cluster (ff_entry (fatfile s f)));
       let cluster = follow s mount start (unat (word_of_int i :: u32));
       if cluster = FAIL then Some (FAIL, s)
       else do {
         let past = word_of_int pos + n > file_size;
         (ok, s) \<leftarrow>
           (if past \<and> mode = FAT_WRITE then do {
              (last, s) \<leftarrow> extend_chain D mount cluster (unat (n div word_of_int cluster_size + 1)) s;
              if last = FAIL then Some (False, s)
              else do {
                s \<leftarrow> fat_setFATCluster D mount last FAT_ENDOFCLUSTER True s;
                Some (True, s)
              }
            }
            else Some (True, s));
         if \<not> ok then Some (FAIL, s)
         else do {
           let n = (if past \<and> mode \<noteq> FAT_WRITE then file_size - word_of_int pos else n);
           let (clusterBuffer, s) = kmalloc (nat cluster_size) s;
           (bytes_rw, s) \<leftarrow> rw_loop D f mode clusterBuffer cluster buffer (pos smod cluster_size) n 0 s;
           let s = set_file f (\<lambda>x. x\<lparr>ff_current_pos := wrap32 (ff_current_pos x + bytes_rw)\<rparr>) (kfree clusterBuffer s);
           Some (bytes_rw, s)
         }
       }
     })"

definition fat_read :: "'d fat drivers \<Rightarrow> u32 \<Rightarrow> u32 \<Rightarrow> u32 \<Rightarrow> 'd fat vfs \<Rightarrow> (int \<times> 'd fat vfs) option" where
  "fat_read D handle buffer n s = fat_rw D handle buffer n FAT_READ s"

definition fat_write :: "'d fat drivers \<Rightarrow> u32 \<Rightarrow> u32 \<Rightarrow> u32 \<Rightarrow> 'd fat vfs \<Rightarrow> (int \<times> 'd fat vfs) option" where
  "fat_write D handle buffer n s = (let f = h_data_ptr (handle_heap s handle) in
     if f = NULL then Some (FAIL, s)
     else do {
       let orig_position = ff_current_pos (fatfile s f);
       (bytes_written, s) \<leftarrow> fat_rw D handle buffer n FAT_WRITE s;
       if bytes_written \<ge> 0 then
         if (word_of_int (orig_position + bytes_written) :: u32) > e_file_size (ff_entry (fatfile s f))
         then fat_setFileSize D f (wrap32 (orig_position + bytes_written)) s
         else Some (SUCCESS, s)
       else Some (FAIL, s)
     })"

section \<open>Names\<close>

text \<open>
  The end of \<open>fat_create\<close>: the new entry goes into the directory whose entry \<open>fat_file2entry\<close> has put
  into the file. \<open>filename\<close> is \<^term>\<open>None\<close> when the source has computed it as \<open>NULL + 1\<close>. It also
  answers what the name's buffer holds afterwards.
\<close>

definition create_in :: "'d fat drivers \<Rightarrow> u32 \<Rightarrow> u32 \<Rightarrow> bool \<Rightarrow> bytes option \<Rightarrow> 'd fat vfs \<Rightarrow> (int \<times> 'd fat vfs) option" where
  "create_in D vol f create_dir filename s =
     (if f = NULL then None
      else do {
        let s = set_file f (\<lambda>x. x\<lparr>ff_mount := vol, ff_dir_index := FAIL,
                  ff_dir_cluster := uint (e_start_cluster (ff_entry x)), ff_current_pos := 0,
                  ff_entry := fat_entry_of_bytes (replicate ENTRY_SIZE 0)\<rparr>) s;
        name \<leftarrow> filename;
        (_, _, s) \<leftarrow> fat_setFileName f name s;
        if create_dir then do {
          let s = set_file f (\<lambda>x. x\<lparr>ff_entry := (ff_entry x)\<lparr>e_attribute := e_attribute (ff_entry x) OR 0x10,
                    e_start_cluster := word_of_int (fat_getFreeCluster s vol)\<rparr>\<rparr>) s;
          let cluster = e_start_cluster (ff_entry (fatfile s f));
          if cluster \<noteq> word_of_int FAIL then do {
            (entry, s) \<leftarrow> kzalloc (nat (fm_cluster_size (volume s vol))) s;
            (_, s) \<leftarrow> fat_rwCluster D vol (uint cluster) entry FAT_WRITE s;
            s \<leftarrow> fat_setFATCluster D vol (uint cluster) FAT_ENDOFCLUSTER True s;
            fat_updateFileEntry D f (kfree entry s)
          }
          else Some (FAIL, s)
        }
        else fat_updateFileEntry D f
          (set_file f (\<lambda>x. x\<lparr>ff_entry := (ff_entry x)\<lparr>e_attribute := e_attribute (ff_entry x) OR 0x20,
             e_start_cluster := word_of_int FAT_FREECLUSTER\<rparr>\<rparr>) s)
      })"

text \<open>
  \<open>fat_create\<close>. The name is copied to \<open>dirname\<close> without a look at its pointer, and before the first \<open>fat_file2entry\<close>; \<open>filename\<close> is used again after
  it, as that call has left it. The call \<open>strcpy(dirname, '/')\<close> follows a character as a pointer. The
  source returns \<open>res\<close>, a name it does not declare; the model returns \<open>ret\<close>.
\<close>

definition fat_create :: "'d fat drivers \<Rightarrow> fat_entry \<Rightarrow> u32 \<Rightarrow> bytes \<Rightarrow> 'd fat vfs \<Rightarrow>
    (int \<times> bytes \<times> 'd fat vfs) option" where
  "fat_create D garbage mount filename s = (let vol = mp_data_ptr (mp_heap s mount) in
     if vol = NULL then Some (FAIL, filename, s)
     else do {
       let (f, s) = kmalloc FILE_SIZE s;
       n \<leftarrow> strlen filename;
       let (d, s) = kmalloc (n + 1) s;
       let dirname = cstr filename @ [0];
       (r, filename, s) \<leftarrow> (if d = NULL then None else fat_file2entry D garbage vol filename NULL NULL s);
       if r \<noteq> FAIL then Some (FAIL, filename, kfree f (kfree d s))
       else do {
         n \<leftarrow> strlen filename;
         if n = 0 then None
         else do {
           let create_dir = (filename ! (n - 1) = PATH_SLASH);
           let filename = (if create_dir then filename[n - 1 := 0] else filename);
           let dirname = (if create_dir then cstr filename @ [0] else dirname);
           i \<leftarrow> strrchr dirname PATH_SLASH;
           let dirname = dirname[i + 1 := 0];
           let name = map_option (\<lambda>i. drop (i + 1) filename) (strrchr filename PATH_SLASH);
           (r, _, s) \<leftarrow> fat_file2entry D garbage vol dirname NULL f s;
           if r = SUCCESS then do {
             (ret, s) \<leftarrow> create_in D vol f create_dir name s;
             Some (ret, filename, kfree f (kfree d s))
           }
           else Some (FAIL, filename, kfree f (kfree d s))
         }
       }
     })"

definition fat_delete :: "'d fat drivers \<Rightarrow> fat_entry \<Rightarrow> u32 \<Rightarrow> bytes \<Rightarrow> 'd fat vfs \<Rightarrow> (int \<times> 'd fat vfs) option" where
  "fat_delete D garbage mount filename s = (let vol = mp_data_ptr (mp_heap s mount) in
     if vol = NULL then Some (FAIL, s)
     else do {
       let (f, s) = kmalloc FILE_SIZE s;
       if f = NULL then None
       else do {
         let s = set_file f (\<lambda>x. x\<lparr>ff_mount := vol\<rparr>) s;
         (r, _, s) \<leftarrow> fat_file2entry D garbage vol filename NULL f s;
         if r = SUCCESS then do {
           let s = set_file f (\<lambda>x. x\<lparr>ff_entry := (ff_entry x)\<lparr>e_name := (e_name (ff_entry x))[0 := FAT_ENTRY_DELETED]\<rparr>\<rparr>) s;
           (ret, s) \<leftarrow> fat_setFileSize D f 0 s;
           Some (ret, kfree f s)
         }
         else Some (FAIL, kfree f s)
       }
     })"

definition fat_rename :: "'d fat drivers \<Rightarrow> fat_entry \<Rightarrow> u32 \<Rightarrow> bytes \<Rightarrow> bytes \<Rightarrow> 'd fat vfs \<Rightarrow> (int \<times> 'd fat vfs) option" where
  "fat_rename D garbage mount src dst s = (let vol = mp_data_ptr (mp_heap s mount) in
     if vol = NULL then Some (FAIL, s)
     else do {
       let (f, s) = kmalloc FILE_SIZE s;
       if f = NULL then None
       else do {
         let s = set_file f (\<lambda>x. x\<lparr>ff_mount := vol\<rparr>) s;
         (r, _, s) \<leftarrow> fat_file2entry D garbage vol src NULL f s;
         if r = SUCCESS then
           case strrchr dst PATH_SLASH of
             None \<Rightarrow> Some (FAIL, kfree f s)
           | Some i \<Rightarrow> do {
               (_, _, s) \<leftarrow> fat_setFileName f (drop (i + 1) dst) s;
               (ret, s) \<leftarrow> fat_updateFileEntry D f s;
               Some (ret, kfree f s)
             }
         else Some (FAIL, kfree f s)
       }
     })"

definition fat_copy :: int where "fat_copy = FAIL"

section \<open>Listing a directory\<close>

definition unpad :: "bytes \<Rightarrow> bytes" where
  "unpad field = takeWhile (\<lambda>c. c \<noteq> FAT_PADBYTE) field"

definition list_entry :: "fat_entry \<Rightarrow> vfs_dirlist_entry" where
  "list_entry e = \<lparr>
     de_name = map (char_of \<circ> unat) (map tolower (unpad (e_name e)) @
       (if e_extension e ! 0 \<noteq> FAT_PADBYTE then DOT # unpad (e_extension e) else [])),
     de_attributes = (if is_directory e then VFS_DIRECTORY else VFS_FILE),
     de_size = sint (e_file_size e)\<rparr>"

text \<open>
  The loop: \<open>dirIndex\<close> has no bound but the first unused entry as long as fewer than 32 entries are
  listed. The listing has room for 32.
\<close>

partial_function (option) list_loop :: "memory \<Rightarrow> u32 \<Rightarrow> int \<Rightarrow> nat \<Rightarrow> vfs_dirlist_entry list \<Rightarrow> vfs_dirlist_entry list option" where
  "list_loop m dir dirIndex entryIndex entries =
     (if entryIndex < 32 \<or> dirIndex < 16 then
        let e = entry_of m dir dirIndex in
        if e_name e ! 0 = 0 then Some entries
        else if e_name e ! 0 = FAT_ENTRY_DELETED \<or> e_file_size e = -1
        then list_loop m dir (dirIndex + 1) entryIndex entries
        else if length entries \<le> entryIndex then None
        else list_loop m dir (dirIndex + 1) (entryIndex + 1) (entries[entryIndex := list_entry e])
      else Some entries)"

definition fat_list :: "'d fat drivers \<Rightarrow> fat_entry \<Rightarrow> u32 \<Rightarrow> bytes \<Rightarrow> 'd fat vfs \<Rightarrow> (u32 \<times> 'd fat vfs) option" where
  "fat_list D garbage mount dirname s = (let vol = mp_data_ptr (mp_heap s mount) in
     if vol = NULL then Some (word_of_int FAIL, s)
     else do {
       n \<leftarrow> strlen dirname;
       (dir, ok, s) \<leftarrow>
         (if n = 0 then Some (fm_rootdir (volume s vol), True, s)
          else do {
            let (dir, s) = kmalloc (nat (fm_cluster_size (volume s vol))) s;
            (r, _, s) \<leftarrow> fat_file2entry D garbage vol dirname dir NULL s;
            if r < 0 then Some (dir, False, s)
            else do {
              (_, s) \<leftarrow> fat_rwCluster D vol (uint (e_start_cluster (entry_of (mem s) dir 0))) dir FAT_READ s;
              Some (dir, True, s)
            }
          });
       if \<not> ok then Some (word_of_int FAIL, kfree dir s)
       else do {
         let (entry, s) = kmalloc (40 * 32) s;
         if entry = NULL then None
         else do {
           entries \<leftarrow> list_loop (mem s) dir 0 0 (replicate 32 \<lparr>de_name = [], de_attributes = 0, de_size = 0\<rparr>);
           Some (entry, kfree dir (s\<lparr>dirlist_heap := (dirlist_heap s)(entry := entries)\<rparr>))
         }
       }
     })"

section \<open>Registration\<close>

text \<open>\<open>calls\<close> holds the addresses the linker gives the functions of the driver.\<close>

definition fat_init :: "vfs_calltable \<Rightarrow> 'd fat vfs \<Rightarrow> (int \<times> 'd fat vfs) option" where
  "fat_init calls s =
     (let (fs, s) = kmalloc 64 s in
      if fs = NULL then None
      else Some (vfs_register fs (set_fs fs (\<lambda>x. x\<lparr>fs_type := FAT_TYPE, fs_calltable := calls\<rparr>) s)))"

text \<open>
  What the driver's functions do when the switch calls them, with a name in the switch's buffer: the
  string and its null byte. What the buffer holds afterwards is the string up to its first null byte.
\<close>

definition c_buffer :: "string \<Rightarrow> bytes" where "c_buffer name = str name @ [0]"
definition c_string :: "bytes \<Rightarrow> string" where "c_string buf = map (char_of \<circ> unat) (cstr buf)"

definition fat_driver :: "'d fat drivers \<Rightarrow> fat_entry \<Rightarrow> 'd fat drivers" where
  "fat_driver D garbage = \<lparr>
     call_open = \<lambda>_ h n s. map_option (\<lambda>(r, b, s). (r, c_string b, s)) (fat_open D garbage h (c_buffer n) s),
     call_close = \<lambda>_ h s. Some (fat_close h s),
     call_clone = \<lambda>_ h c s. Some (fat_clone, s),
     call_read = \<lambda>_. fat_read D, call_write = \<lambda>_. fat_write D,
     call_seek = \<lambda>_ h off origin s. Some (fat_seek h off origin s),
     call_control = \<lambda>_ h r a s. Some (fat_control, s),
     call_create = \<lambda>_ m n s. map_option (\<lambda>(r, b, s). (r, c_string b, s)) (fat_create D garbage m (c_buffer n) s),
     call_delete = \<lambda>_ m n. fat_delete D garbage m (c_buffer n),
     call_rename = \<lambda>_ m a b. fat_rename D garbage m (c_buffer a) (c_buffer b),
     call_copy = \<lambda>_ m a b s. Some (fat_copy, s),
     call_list = \<lambda>_ m n. fat_list D garbage m (c_buffer n),
     call_mount = \<lambda>_ d n t. fat_mount D d, call_unmount = \<lambda>_ m n. fat_unmount D m\<rparr>"

end
