(* ===== verification/FatExample.thy ===== *)
theory FatExample
  imports Fat
begin

text \<open>
  A concrete machine for the witnesses of the FAT properties: a volume of one-sector clusters of
  64 bytes on a disk that keeps its position and its sectors, the handle of the device at 0x500,
  an open file at 0x520 behind the handle 0x510, and three free blocks of memory.
\<close>

type_synonym disk = "nat \<times> (nat \<Rightarrow> bytes)"

definition set_device :: "'d \<Rightarrow> 'd fat vfs \<Rightarrow> 'd fat vfs" where
  "set_device d s = s\<lparr>world := (world s)\<lparr>device := d\<rparr>\<rparr>"

definition ex_disk_drivers :: "disk fat drivers" where
  "ex_disk_drivers = \<lparr>call_open = \<lambda>c h n s. Some (h, n, s), call_close = \<lambda>c h s. Some (0, s), call_clone = \<lambda>c h k s. Some (0, s),
     call_read = \<lambda>c h a n s. (case device (world s) of (p, d) \<Rightarrow>
       Some (0, set_device (p + 1, d) (set_mem (put_bytes (mem s) a (take (unat n) (d p))) s))),
     call_write = \<lambda>c h a n s. (case device (world s) of (p, d) \<Rightarrow>
       Some (0, set_device (p + 1, d(p := bytes_at (mem s) a (unat n))) s)),
     call_seek = \<lambda>c h off origin s. Some (0, set_device (unat off div 64, snd (device (world s))) s),
     call_control = \<lambda>c h x y s. Some (0, s), call_create = \<lambda>c m n s. Some (0, n, s), call_delete = \<lambda>c m n s. Some (0, s),
     call_rename = \<lambda>c m x y s. Some (0, s), call_copy = \<lambda>c m x y s. Some (0, s), call_list = \<lambda>c m n s. Some (0, s),
     call_mount = \<lambda>c d m t s. Some (1, s), call_unmount = \<lambda>c m n s. Some (0, s)\<rparr>"

definition ex_calltable :: vfs_calltable where
  "ex_calltable = \<lparr>ct_open = 1, ct_close = 1, ct_clone = 1, ct_read = 1, ct_write = 1, ct_seek = 1, ct_control = 1,
     ct_create = 1, ct_delete = 1, ct_rename = 1, ct_copy = 1, ct_list = 1, ct_mount = 1, ct_unmount = 1\<rparr>"

definition ex_entry :: "u16 \<Rightarrow> u32 \<Rightarrow> fat_entry" where
  "ex_entry c n = \<lparr>e_name = replicate 8 0x41, e_extension = replicate 3 0x20, e_attribute = 0x20, e_reserved = replicate 10 0,
     e_time = [0, 0], e_date = [0, 0], e_start_cluster = c, e_file_size = n\<rparr>"

definition ex_file :: "int \<Rightarrow> fat_file" where
  "ex_file pos = \<lparr>ff_mount = 0x1000, ff_entry = ex_entry 5 100, ff_dir_cluster = 3, ff_dir_index = 0, ff_current_pos = pos\<rparr>"

text \<open>The memory: 64 bytes per sector and one sector per cluster in the boot sector at 0x1004.\<close>

definition ex_memory :: memory where
  "ex_memory = (\<lambda>_. 0)(0x100F := 64, 0x1011 := 1)"

definition ex_fat :: "memory \<Rightarrow> u8 \<Rightarrow> int \<Rightarrow> u32 \<Rightarrow> disk \<Rightarrow> disk fat vfs" where
  "ex_fat m type pos mode d =
     \<lparr>fs_heap = (\<lambda>_. \<lparr>fs_type = FAT_TYPE, fs_calltable = ex_calltable, fs_prev = NULL\<rparr>),
      mp_heap = (\<lambda>_. \<lparr>mp_fs = 0x700, mp_data_ptr = 0x1000, mp_mountpoint = NULL, mp_device = NULL, mp_next = NULL\<rparr>),
      handle_heap = (\<lambda>a. \<lparr>h_mount = 0x600, h_data_ptr = 0x520, h_mode = (if a = 0x500 then VFS_MODE_READWRITE else mode)\<rparr>),
      dev_heap = (\<lambda>_. \<lparr>dev_prev = NULL, dev_calltable = NULL, dev_name = NULL, dev_type = 0\<rparr>), str_heap = (\<lambda>_. []),
      io_heap = (\<lambda>_. []), dirlist_heap = (\<lambda>_. []), vfs_fsHead = NULL, vfs_mpHead = NULL, vfs_mpTail = NULL,
      dfs_deviceHead = NULL, pool = [0x4000, 0x5000, 0x6000], sizes = (\<lambda>_. 0), freed = [],
      world = \<lparr>fat_mem = m,
        mount_store = (\<lambda>_. \<lparr>fm_device = 0x500, fm_rootdir = 0x3000, fm_type = type, fm_fat_data = 0x2000,
          fm_fat_size = 64, fm_cluster_size = 64, fm_total_clusters = 16\<rparr>),
        file_store = (\<lambda>_. ex_file pos), device = d\<rparr>\<rparr>"

lemma ex_fat_simps [simp]:
  "mem (ex_fat m ty pos mode d) = m" "volume (ex_fat m ty pos mode d) a = \<lparr>fm_device = 0x500, fm_rootdir = 0x3000,
     fm_type = ty, fm_fat_data = 0x2000, fm_fat_size = 64, fm_cluster_size = 64, fm_total_clusters = 16\<rparr>"
  "fatfile (ex_fat m ty pos mode d) a = ex_file pos" "pool (ex_fat m ty pos mode d) = [0x4000, 0x5000, 0x6000]"
  "mp_data_ptr (mp_heap (ex_fat m ty pos mode d) a) = 0x1000" "h_data_ptr (handle_heap (ex_fat m ty pos mode d) a) = 0x520"
  "h_mode (handle_heap (ex_fat m ty pos mode d) a) = (if a = 0x500 then VFS_MODE_READWRITE else mode)"
  "handle_calls (ex_fat m ty pos mode d) a = ex_calltable" "device (world (ex_fat m ty pos mode d)) = d"
  by (simp_all add: ex_fat_def mem_def volume_def fatfile_def handle_calls_def mount_calls_def)

lemma bytes_at_few:
  "bytes_at m a 1 = [m a]" "bytes_at m a 2 = [m a, m (a + 1)]" "bytes_at m a 4 = [m a, m (a + 1), m (a + 2), m (a + 3)]"
proof -
  have "[0..<1] = [0]" "[0..<2] = [0, 1]" "[0..<4] = [0, 1, 2, 3]" by (simp_all add: upt_rec)
  then show "bytes_at m a 1 = [m a]" "bytes_at m a 2 = [m a, m (a + 1)]" "bytes_at m a 4 = [m a, m (a + 1), m (a + 2), m (a + 3)]"
    unfolding bytes_at_def by simp_all
qed

lemma ex_boot [simp]:
  "boot (ex_fat ex_memory ty pos mode d) 0x1000 bytes_per_sector = 64" "boot (ex_fat ex_memory ty pos mode d) 0x1000 sectors_per_cluster = 1"
  "boot (ex_fat ex_memory ty pos mode d) 0x1000 hidden_sectors = 0" "boot (ex_fat ex_memory ty pos mode d) 0x1000 num_fats = 0"
  "boot (ex_fat ex_memory ty pos mode d) 0x1000 num_root_dir_ents = 0"
  by (simp_all add: boot_def boot_address_def bytes_at_few bytes_at_few(1) [simplified] ex_memory_def)

end
