(* ===== verification/FatTableProps.thy ===== *)
theory FatTableProps
  imports FatExample
begin

text \<open>
  Properties of the file allocation table and of cluster transfers (theory FatTable): the table as
  one little-endian number cut into entries, what an assignment to it changes, the search for a
  free cluster, and where the sectors of a cluster go in memory.
\<close>

section \<open>Fields of the state\<close>

lemma mem_set_mem [simp]: "mem (set_mem m s) = m"
  by (simp add: mem_def set_mem_def)

lemma volume_set_mem [simp]: "volume (set_mem m s) = volume s"
  by (simp add: volume_def set_mem_def)

lemma volume_set_volume [simp]: "volume (set_volume a F s) = (volume s)(a := F (volume s a))"
  by (simp add: volume_def set_volume_def)

lemma mem_set_volume [simp]: "mem (set_volume a F s) = mem s"
  by (simp add: mem_def set_volume_def)

section \<open>Numbers in bytes\<close>

lemma length_bytes_at [simp]: "length (bytes_at m a n) = n"
  by (simp add: bytes_at_def)

lemma bytes_at_nth [simp]: "i < n \<Longrightarrow> bytes_at m a n ! i = m (a + of_nat i)"
  by (simp add: bytes_at_def)

lemma le_append: "le (xs @ ys) = le xs + 256 ^ length xs * le ys"
  by (induction xs) (simp_all add: algebra_simps)

lemma le_bound: "le xs < 256 ^ length xs"
proof (induction xs)
  case (Cons b bs)
  have "unat b < 2 ^ LENGTH(8)" by (rule unsigned_less)
  then have "unat b \<le> 255" by simp
  then have "unat b + 256 * le bs < 256 * (le bs + 1)" by simp
  also have "\<dots> \<le> 256 * 256 ^ length bs" using Cons.IH by (intro mult_le_mono) simp_all
  finally show ?case by simp
qed simp

lemma le_drop: "k \<le> length bs \<Longrightarrow> le bs div 256 ^ k = le (drop k bs)"
proof -
  assume k: "k \<le> length bs"
  have "le bs = le (take k bs) + 256 ^ k * le (drop k bs)"
    using le_append [of "take k bs" "drop k bs"] k by (simp add: min_def)
  moreover have "le (take k bs) < 256 ^ k" using le_bound [of "take k bs"] k by (simp add: min_absorb2)
  ultimately show ?thesis by simp
qed

lemma le_take: "k \<le> length bs \<Longrightarrow> le bs mod 256 ^ k = le (take k bs)"
proof -
  assume k: "k \<le> length bs"
  have "le bs = le (take k bs) + 256 ^ k * le (drop k bs)"
    using le_append [of "take k bs" "drop k bs"] k by (simp add: min_def)
  moreover have "le (take k bs) < 256 ^ k" using le_bound [of "take k bs"] k by (simp add: min_absorb2)
  ultimately show ?thesis by simp
qed

lemma bytes_at_part: "k + j \<le> n \<Longrightarrow> take j (drop k (bytes_at m a n)) = bytes_at m (a + of_nat k) j"
  by (rule nth_equalityI) (simp_all add: add.assoc)

text \<open>The number in \<open>j\<close> bytes at offset \<open>k\<close> of a longer number.\<close>

lemma le_part: "k + j \<le> n \<Longrightarrow> le (bytes_at m a n) div 256 ^ k mod 256 ^ j = le (bytes_at m (a + of_nat k) j)"
  by (simp add: le_drop le_take bytes_at_part)

lemma le_bytes_at_cong: "(\<And>i. i < n \<Longrightarrow> m (a + of_nat i) = m' (a + of_nat i)) \<Longrightarrow> bytes_at m a n = bytes_at m' a n"
  by (simp add: bytes_at_def)

lemma le_le_bytes: "le (le_bytes n v) = v mod 256 ^ n"
  by (induction n arbitrary: v) (simp_all add: mod_mult2_eq unat_of_nat take_bit_eq_mod algebra_simps)

lemma length_le_bytes [simp]: "length (le_bytes n v) = n"
  by (induction n arbitrary: v) simp_all

lemma bytes_at_put_bytes: "length bs \<le> 2 ^ 32 \<Longrightarrow> bytes_at (put_bytes m a bs) a (length bs) = bs"
  by (rule nth_equalityI) (simp_all add: put_bytes_def unat_of_nat take_bit_nat_eq_self)

text \<open>The layout of an entry: what is written of it is what is read.\<close>

definition entry_ok :: "fat_entry \<Rightarrow> bool" where
  "entry_ok e \<longleftrightarrow> length (e_name e) = 8 \<and> length (e_extension e) = 3 \<and> length (e_reserved e) = 10 \<and>
     length (e_time e) = 2 \<and> length (e_date e) = 2"

lemma fat_entry_codec:
  assumes "entry_ok e"
  shows "length (bytes_of_fat_entry e) = ENTRY_SIZE" "fat_entry_of_bytes (bytes_of_fat_entry e) = e"
proof -
  have "unat (e_start_cluster e) < 65536" "unat (e_file_size e) < 4294967296"
    using unsigned_less [of "e_start_cluster e"] unsigned_less [of "e_file_size e"] by simp_all
  then show "length (bytes_of_fat_entry e) = ENTRY_SIZE" "fat_entry_of_bytes (bytes_of_fat_entry e) = e"
    using assms by (simp_all add: entry_ok_def bytes_of_fat_entry_def fat_entry_of_bytes_def ENTRY_SIZE_def le_le_bytes nth_append)
qed

section \<open>Reading the table\<close>

text \<open>
  The reference: the table is one number of \<open>n\<close> bytes, and the entry of a cluster is its \<open>w\<close> bits
  from bit \<open>w * c\<close> on, for a width of 12, 16 or 32 bits.
\<close>

definition table_entry :: "nat \<Rightarrow> nat \<Rightarrow> nat \<Rightarrow> nat" where
  "table_entry w N c = N div 2 ^ (w * c) mod 2 ^ w"

definition end_mark :: "u8 \<Rightarrow> int" where
  "end_mark type = (if type = FAT_12 then 0xFFF else if type = FAT_16 then 0xFFFF else 0x0FFFFFFF)"

lemma masks [simp]:
  "FAT_CLUSTER12 FAT_ENDOFCLUSTER = 0xFFF" "FAT_CLUSTER16 FAT_ENDOFCLUSTER = 0xFFFF"
  "FAT_CLUSTER32 FAT_ENDOFCLUSTER = 0x0FFFFFFF"
  by (simp_all add: FAT_CLUSTER12_def FAT_CLUSTER16_def FAT_CLUSTER32_def FAT_ENDOFCLUSTER_def)

lemma FAT_CLUSTER12_mod: "FAT_CLUSTER12 c = c mod 4096"
proof -
  have m: "(0xFFF :: int) = mask 12" by (simp add: mask_eq_exp_minus_1)
  show ?thesis unfolding FAT_CLUSTER12_def m by (simp add: take_bit_eq_mask [symmetric] take_bit_eq_mod)
qed

lemma wrap32_small: "0 \<le> x \<Longrightarrow> x < 2 ^ 31 \<Longrightarrow> wrap32 x = x"
  by (simp add: wrap32_def signed_take_bit_int_eq_self)

lemma sdiv_nat: "int a sdiv int b = int (a div b)"
  by (simp add: signed_divide_int_def sgn_if zdiv_int)

lemma pow_16: "(2 :: nat) ^ (16 * c) = 256 ^ (2 * c)" and pow_32: "(2 :: nat) ^ (32 * c) = 256 ^ (4 * c)"
proof -
  have "(256 :: nat) = 2 ^ 8" by simp
  then show "(2 :: nat) ^ (16 * c) = 256 ^ (2 * c)" "(2 :: nat) ^ (32 * c) = 256 ^ (4 * c)"
    by (simp_all only: power_mult [symmetric]) simp_all
qed

lemma entry_12:
  fixes N c :: nat
  defines "h \<equiv> N div 256 ^ (3 * c div 2) mod 256 ^ 2"
  shows "table_entry 12 N c = (if odd c then h div 16 else h mod 4096)"
proof (cases "odd c")
  case True
  then obtain q where c: "c = 2 * q + 1" by (rule oddE)
  have "3 * c div 2 = 3 * q + 1" unfolding c by presburger
  then have e: "12 * c = 8 * (3 * c div 2) + 4" unfolding c by simp
  have "(2 :: nat) ^ (12 * c) = 256 ^ (3 * c div 2) * 16"
    unfolding e power_add power_mult by simp
  then show ?thesis
    using True by (simp add: table_entry_def h_def div_mult2_eq mod_mult2_eq [of _ 16 4096, simplified] )
next
  case False
  then obtain q where c: "c = 2 * q" by auto
  have e: "12 * c = 8 * (3 * c div 2)" unfolding c by simp
  have "(2 :: nat) ^ (12 * c) = 256 ^ (3 * c div 2)"
    unfolding e power_mult by simp
  then show ?thesis
    using False by (simp add: table_entry_def h_def mod_mod_cancel)
qed

lemma entry_16:
  assumes "2 * c + 2 \<le> n"
  shows "table_entry 16 (le (bytes_at m a n)) c = le (bytes_at m (a + word_of_int (2 * int c)) 2)"
proof -
  have "table_entry 16 N c = N div 256 ^ (2 * c) mod 256 ^ 2" for N by (simp add: table_entry_def pow_16)
  then show ?thesis using le_part [OF assms, of m a] by simp
qed

lemma entry_32:
  assumes "4 * c + 4 \<le> n"
  shows "table_entry 32 (le (bytes_at m a n)) c = le (bytes_at m (a + word_of_int (4 * int c)) 4)"
proof -
  have "table_entry 32 N c = N div 256 ^ (4 * c) mod 256 ^ 4" for N by (simp add: table_entry_def pow_32)
  then show ?thesis using le_part [OF assms, of m a] by simp
qed

lemma entry_12_bytes:
  assumes "3 * c div 2 + 2 \<le> n"
  shows "table_entry 12 (le (bytes_at m a n)) c =
    (let h = le (bytes_at m (a + word_of_nat (3 * c div 2)) 2) in if odd c then h div 16 else h mod 4096)"
  unfolding entry_12 le_part [OF assms] Let_def by (rule refl)

text \<open>The three widths of \<open>fat_getFATCluster\<close>, with the table's bytes as a number.\<close>

lemma get_12:
  assumes "fm_type (volume s mount) = FAT_12" "3 * c div 2 + 2 \<le> n" "3 * c < 2 ^ 31"
  shows "fat_getFATCluster s mount (int c) =
    (let v = int (table_entry 12 (le (bytes_at (mem s) (fm_fat_data (volume s mount)) n)) c)
     in if v = 0xFFF then FAIL else v)"
proof -
  have k: "wrap32 (int c * 3) sdiv 2 = int (3 * c div 2)"
  proof -
    have "wrap32 (int c * 3) = int (3 * c)" using assms(3) by (subst wrap32_small) simp_all
    then show ?thesis using sdiv_nat [of "3 * c" 2] by simp
  qed
  have "int c AND 1 \<noteq> 0 \<longleftrightarrow> odd c" by (simp add: and_one_eq mod_2_eq_odd)
  moreover have "drop_bit 4 (int x) = int (x div 16)" for x by (simp add: drop_bit_eq_div zdiv_int)
  moreover have "FAT_CLUSTER12 (int x) = int (x mod 4096)" for x by (simp add: FAT_CLUSTER12_mod zmod_int)
  ultimately show ?thesis
    using assms(1) by (simp add: fat_getFATCluster_def Let_def k entry_12_bytes [OF assms(2)] fat_types)
qed

lemma get_16:
  assumes "fm_type (volume s mount) = FAT_16" "2 * c + 2 \<le> n"
  shows "fat_getFATCluster s mount (int c) =
    (let v = int (table_entry 16 (le (bytes_at (mem s) (fm_fat_data (volume s mount)) n)) c)
     in if v = 0xFFFF then FAIL else v)"
  using assms(1) by (simp add: fat_getFATCluster_def Let_def entry_16 [OF assms(2)] fat_types)

lemma get_32:
  assumes "fm_type (volume s mount) = FAT_32" "4 * c + 4 \<le> n"
  shows "fat_getFATCluster s mount (int c) =
    (let v = wrap32 (int (table_entry 32 (le (bytes_at (mem s) (fm_fat_data (volume s mount)) n)) c))
     in if v = 0x0FFFFFFF then FAIL else v)"
  using assms(1) by (simp add: fat_getFATCluster_def Let_def entry_32 [OF assms(2)] fat_types)

text \<open>
  C31. \<open>fat_getFATCluster\<close> reads the packed table: for every width, the entry of a cluster is its
  bits of the table as one number, with the end-of-chain mark read as \<open>FAIL\<close>; an entry of 32 bits
  is a signed integer, of which no bits are masked. Any other width is \<open>FAIL\<close>.
\<close>

theorem getFATCluster_packed:
  assumes "fm_type (volume s mount) = of_nat w" "w \<in> {12, 16, 32}" "w * (c + 1) \<le> 8 * n" "3 * c < 2 ^ 31"
  shows "fat_getFATCluster s mount (int c) =
    (let v = wrap32 (int (table_entry w (le (bytes_at (mem s) (fm_fat_data (volume s mount)) n)) c))
     in if v = end_mark (fm_type (volume s mount)) then FAIL else v)"
proof -
  have small: "wrap32 (int (table_entry w N c)) = int (table_entry w N c)" if "w \<le> 16" for N
  proof -
    have "table_entry w N c < 2 ^ w" by (simp add: table_entry_def)
    also have "(2 :: nat) ^ w \<le> 2 ^ 16" using that by (intro power_increasing) simp_all
    finally show ?thesis by (intro wrap32_small) simp_all
  qed
  consider "w = 12" | "w = 16" | "w = 32" using assms(2) by blast
  then show ?thesis
  proof cases
    case 1
    then have "3 * c div 2 + 2 \<le> n" using assms(3) by simp
    then show ?thesis using 1 assms(1,4) small get_12 [of s mount c n] by (simp add: end_mark_def fat_types)
  next
    case 2
    then have "2 * c + 2 \<le> n" using assms(3) by simp
    then show ?thesis using 2 assms(1) small get_16 [of s mount c n] by (simp add: end_mark_def fat_types)
  next
    case 3
    then have "4 * c + 4 \<le> n" using assms(3) by simp
    then show ?thesis using 3 assms(1) get_32 [of s mount c n] by (simp add: end_mark_def fat_types)
  qed
qed

theorem getFATCluster_packed_witness:
  "fat_getFATCluster (ex_fat ((\<lambda>_. 0)(0x2004 := 0x50, 0x2005 := 0x12)) FAT_12 0 0 (0, \<lambda>_. [])) 0x1000 3 = 0x125"
proof -
  let ?s = "ex_fat ((\<lambda>_. 0)(0x2004 := 0x50, 0x2005 := 0x12)) FAT_12 0 0 (0, \<lambda>_. [])"
  have "[0..<6] = [0, 1, 2, 3, 4, 5]" by (simp add: upt_rec)
  then have "le (bytes_at (mem ?s) 0x2000 6) = 0x125000000000" by (simp add: bytes_at_def)
  moreover have "wrap32 0x125 = 0x125" by (simp add: wrap32_small)
  ultimately show ?thesis
    using getFATCluster_packed [of ?s "0x1000" 12 3 6] by (simp add: table_entry_def end_mark_def fat_types)
qed

section \<open>Writing the table\<close>

lemma stored_byte: "(word_of_int (FAT_CLUSTER16 v) :: u8) = word_of_int v" "(word_of_int (FAT_CLUSTER32 v) :: u8) = word_of_int v"
proof -
  have m: "(0xFFFF :: int) = mask 16" "(0x0FFFFFFF :: int) = mask 28" by (simp_all add: mask_eq_exp_minus_1)
  show "(word_of_int (FAT_CLUSTER16 v) :: u8) = word_of_int v" "(word_of_int (FAT_CLUSTER32 v) :: u8) = word_of_int v"
    unfolding FAT_CLUSTER16_def FAT_CLUSTER32_def m by (rule bit_word_eqI; simp add: bit_simps)+
qed

lemma set_byte:
  assumes "fm_type (volume s mount) = of_nat w" "w \<in> {16, 32}"
  shows "fat_setFATCluster D mount (int c) v False s =
    Some (set_mem ((mem s)(fm_fat_data (volume s mount) + of_nat c := word_of_int v)) s)"
  using assms by (auto simp: fat_setFATCluster_def Let_def stored_byte fat_types)

text \<open>A byte outside the bytes of an entry does not change it.\<close>

lemma of_nat_eq_u32: "i < 2 ^ 32 \<Longrightarrow> j < 2 ^ 32 \<Longrightarrow> (of_nat i :: u32) = of_nat j \<longleftrightarrow> i = j"
  by (simp add: word_of_nat_eq_iff take_bit_nat_eq_self)

lemma bytes_at_upd:
  assumes "k + n \<le> 2 ^ 32" "c < 2 ^ 32" "\<not> (k \<le> c \<and> c < k + n)"
  shows "bytes_at (m(a + of_nat c := v)) (a + of_nat k) n = bytes_at m (a + of_nat k) n"
proof (rule le_bytes_at_cong)
  fix i assume "i < n"
  then have "(of_nat (k + i) :: u32) \<noteq> of_nat c" using assms by (subst of_nat_eq_u32) auto
  then have "a + of_nat k + of_nat i \<noteq> a + (of_nat c :: u32)" by (simp add: add.assoc)
  then show "(m(a + of_nat c := v)) (a + of_nat k + of_nat i) = m (a + of_nat k + of_nat i)" by simp
qed

lemma get_after_set:
  assumes "fm_type (volume s mount) = of_nat w" "w \<in> {16, 32}" "c < 2 ^ 30" "c' < 2 ^ 30" "c' \<noteq> c div (w div 8)"
  shows "fat_getFATCluster (set_mem ((mem s)(fm_fat_data (volume s mount) + of_nat c := b)) s) mount (int c')
    = fat_getFATCluster s mount (int c')"
proof (cases "w = 16")
  case True
  have out: "\<not> (2 * c' \<le> c \<and> c < 2 * c' + 2)" using assms(5) True by auto
  show ?thesis
    using assms(1,3,4) True bytes_at_upd [OF _ _ out, of "mem s" "fm_fat_data (volume s mount)" b]
    by (simp add: fat_getFATCluster_def Let_def fat_types)
next
  case False
  then have w: "w = 32" using assms(2) by simp
  have out: "\<not> (4 * c' \<le> c \<and> c < 4 * c' + 4)" using assms(5) w by auto
  show ?thesis
    using assms(1,3,4) w bytes_at_upd [OF _ _ out, of "mem s" "fm_fat_data (volume s mount)" b]
    by (simp add: fat_getFATCluster_def Let_def fat_types)
qed

text \<open>
  Setting the entry of a cluster in a table of 16- or 32-bit entries writes the low byte of the
  value into the byte whose index is the number of the cluster: no cluster but number \<open>c div 2\<close> or
  \<open>c div 4\<close> can read differently afterwards, so that the entry of the cluster itself stays what
  it was unless it is cluster 0. No chain can be built with it.
\<close>

theorem setFATCluster_misses:
  assumes "fm_type (volume s mount) = of_nat w" "w \<in> {16, 32}" "c < 2 ^ 30"
  shows "\<exists>s'. fat_setFATCluster D mount (int c) v False s = Some s' \<and>
    mem s' = (mem s)(fm_fat_data (volume s mount) + of_nat c := word_of_int v) \<and>
    (\<forall>c' < 2 ^ 30. c' \<noteq> c div (w div 8) \<longrightarrow> fat_getFATCluster s' mount (int c') = fat_getFATCluster s mount (int c')) \<and>
    (c \<noteq> 0 \<longrightarrow> fat_getFATCluster s' mount (int c) = fat_getFATCluster s mount (int c))"
proof -
  have "c \<noteq> c div (w div 8)" if "c \<noteq> 0" using that assms(2) by auto
  then show ?thesis
    using set_byte [OF assms(1,2)] get_after_set [OF assms] assms(3) by auto
qed

theorem setFATCluster_misses_witness:
  "\<exists>s'. fat_setFATCluster ex_disk_drivers 0x1000 5 0x1234 False (ex_fat (\<lambda>_. 0) FAT_16 0 0 (0, \<lambda>_. [])) = Some s' \<and>
    mem s' = (\<lambda>_. 0)(0x2005 := 0x34) \<and> fat_getFATCluster s' 0x1000 5 = 0"
proof -
  have "fat_getFATCluster (ex_fat (\<lambda>_. 0) FAT_16 0 0 (0, \<lambda>_. [])) 0x1000 5 = 0"
    by (simp add: fat_getFATCluster_def fat_types bytes_at_few)
  moreover have w: "(0x1234 :: u8) = 0x34" by simp
  ultimately show ?thesis
    using setFATCluster_misses [of "ex_fat (\<lambda>_. 0) FAT_16 0 0 (0, \<lambda>_. [])" "0x1000" 16 5 ex_disk_drivers "0x1234"]
    by (auto simp: fat_types w)
qed

section \<open>Free clusters\<close>

lemma find_free_correct:
  "(let r = find_free s mount i n in
    (r = FAIL \<and> (\<forall>c. i \<le> c \<and> c < i + int n \<longrightarrow> fat_getFATCluster s mount c \<noteq> FAT_FREECLUSTER)) \<or>
    (i \<le> r \<and> r < i + int n \<and> fat_getFATCluster s mount r = FAT_FREECLUSTER \<and>
     (\<forall>c. i \<le> c \<and> c < r \<longrightarrow> fat_getFATCluster s mount c \<noteq> FAT_FREECLUSTER)))"
proof (induction n arbitrary: i)
  case (Suc n)
  show ?case
  proof (cases "fat_getFATCluster s mount i = FAT_FREECLUSTER")
    case False
    have split: "(\<forall>c. i \<le> c \<and> c < j \<longrightarrow> P c) \<longleftrightarrow> P i \<and> (\<forall>c. i + 1 \<le> c \<and> c < j \<longrightarrow> P c)" if "i < j" for P j
      using that by (metis add1_zle_eq order_le_less order_refl)
    show ?thesis
      using Suc.IH [of "i + 1"] False
      unfolding Let_def find_free.simps
      by (auto simp: split [of "i + int (Suc n)"] split) (metis add1_zle_eq order_le_less)+
  qed (simp add: Let_def)
qed (simp add: Let_def)

definition free_clusters :: "'d fat vfs \<Rightarrow> u32 \<Rightarrow> int set" where
  "free_clusters s mount =
     {c. 0 \<le> c \<and> c < fm_total_clusters (volume s mount) \<and> fat_getFATCluster s mount c = FAT_FREECLUSTER}"

text \<open>
  \<open>fat_getFreeCluster\<close> answers the lowest cluster of the volume whose entry reads as free, and
  \<open>FAIL\<close> exactly when there is none.
\<close>

theorem getFreeCluster_lowest:
  "fat_getFreeCluster s mount = (if free_clusters s mount = {} then FAIL else Min (free_clusters s mount))"
proof -
  let ?n = "nat (fm_total_clusters (volume s mount))" and ?r = "fat_getFreeCluster s mount"
  have fin: "finite (free_clusters s mount)"
    unfolding free_clusters_def by (rule finite_subset [of _ "{0..<fm_total_clusters (volume s mount)}"]) auto
  show ?thesis
    using find_free_correct [of s mount 0 ?n] unfolding Let_def fat_getFreeCluster_def [symmetric]
  proof (elim disjE conjE)
    assume "?r = FAIL" and none: "\<forall>c. 0 \<le> c \<and> c < 0 + int ?n \<longrightarrow> fat_getFATCluster s mount c \<noteq> FAT_FREECLUSTER"
    have "free_clusters s mount = {}" using none by (auto simp: free_clusters_def)
    then show ?thesis using \<open>?r = FAIL\<close> by simp
  next
    assume r: "0 \<le> ?r" "?r < 0 + int ?n" "fat_getFATCluster s mount ?r = FAT_FREECLUSTER"
      and least: "\<forall>c. 0 \<le> c \<and> c < ?r \<longrightarrow> fat_getFATCluster s mount c \<noteq> FAT_FREECLUSTER"
    have "?r < fm_total_clusters (volume s mount)" using r(1,2) by linarith
    then have mem: "?r \<in> free_clusters s mount" using r(1,3) by (simp add: free_clusters_def)
    moreover have "?r \<le> c" if "c \<in> free_clusters s mount" for c
    proof (rule ccontr)
      assume "\<not> ?r \<le> c"
      moreover have "0 \<le> c" "fat_getFATCluster s mount c = FAT_FREECLUSTER" using that by (simp_all add: free_clusters_def)
      ultimately show False using least by simp
    qed
    ultimately have "Min (free_clusters s mount) = ?r" by (intro Min_eqI [OF fin])
    then show ?thesis using mem by auto
  qed
qed

section \<open>Clusters\<close>

text \<open>The reference: one transfer of \<open>n\<close> bytes for every address, until one fails.\<close>

fun transfers :: "(u32 \<Rightarrow> u32 \<Rightarrow> u32 \<Rightarrow> 's \<Rightarrow> (int \<times> 's) option) \<Rightarrow> u32 \<Rightarrow> u32 \<Rightarrow> u32 list \<Rightarrow> 's \<Rightarrow> (int \<times> 's) option" where
  "transfers rw dev n [] s = Some (SUCCESS, s)"
| "transfers rw dev n (a # as) s = do {
     (r, s) \<leftarrow> rw dev a n s;
     if r = FAIL then Some (FAIL, s) else transfers rw dev n as s
   }"

text \<open>Where the code puts sector \<open>i\<close> of a cluster: the offsets of the rounds add up.\<close>

definition sector_address :: "u32 \<Rightarrow> int \<Rightarrow> nat \<Rightarrow> u32" where
  "sector_address buf bps i = buf + word_of_int (bps * int (\<Sum>j \<le> i. j))"

definition same_geometry :: "u32 \<Rightarrow> 'd fat vfs \<Rightarrow> 'd fat vfs \<Rightarrow> bool" where
  "same_geometry mount s s' \<longleftrightarrow> volume s' mount = volume s mount \<and>
     boot s' mount bytes_per_sector = boot s mount bytes_per_sector \<and>
     boot s' mount sectors_per_cluster = boot s mount sectors_per_cluster"

lemma boot_byte: "0 \<le> boot s mount sectors_per_cluster" "boot s mount sectors_per_cluster < 256"
  using le_bound [of "bytes_at (mem s) (boot_address mount + 13) 1"] by (simp_all add: boot_def)

lemma sector_address_step:
  "buf + word_of_int (bps * int (\<Sum>j < i. j)) + word_of_int (bps * int i) = sector_address buf bps i"
proof -
  have e: "int (\<Sum>j \<le> i. j) = int (\<Sum>j < i. j) + int i"
    by (simp only: lessThan_Suc_atMost [symmetric] sum.lessThan_Suc of_nat_add)
  show ?thesis unfolding sector_address_def e distrib_left by (simp only: of_int_add add.assoc)
qed

lemma rw_sectors_transfers:
  assumes "same_geometry mount s0 s" "left \<le> 256" "int (256 - left) \<le> boot s0 mount sectors_per_cluster"
    "\<And>i s r s'. int i < boot s0 mount sectors_per_cluster \<Longrightarrow> same_geometry mount s0 s \<Longrightarrow>
       rw (fm_device (volume s0 mount)) (sector_address buf (boot s0 mount bytes_per_sector) i)
         (word_of_int (boot s0 mount bytes_per_sector)) s = Some (r, s') \<Longrightarrow> same_geometry mount s0 s'"
  shows "rw_sectors rw mount (buf + word_of_int (boot s0 mount bytes_per_sector * int (\<Sum>j < 256 - left. j))) left s =
    transfers rw (fm_device (volume s0 mount)) (word_of_int (boot s0 mount bytes_per_sector))
      (map (sector_address buf (boot s0 mount bytes_per_sector)) [256 - left..<nat (boot s0 mount sectors_per_cluster)]) s"
  using assms(1-3)
proof (induction left arbitrary: s)
  case 0
  then show ?case using boot_byte [of s0 mount] by simp
next
  case (Suc left)
  let ?bps = "boot s0 mount bytes_per_sector" and ?spc = "boot s0 mount sectors_per_cluster"
  let ?i = "256 - Suc left"
  have g: "boot s mount bytes_per_sector = ?bps" "boot s mount sectors_per_cluster = ?spc" "volume s mount = volume s0 mount"
    using Suc.prems(1) by (simp_all add: same_geometry_def)
  have i: "256 - left = Suc ?i" using Suc.prems(2) by simp
  show ?case
  proof (cases "int ?i < ?spc")
    case True
    note addr = sector_address_step [of buf ?bps ?i]
    have addr': "sector_address buf ?bps ?i = buf + word_of_int (?bps * int (\<Sum>j < 256 - left. j))"
      unfolding i sector_address_def lessThan_Suc_atMost ..
    have seq: "[?i..<nat ?spc] = ?i # [256 - left..<nat ?spc]"
      using True unfolding i by (simp add: upt_conv_Cons)
    have le: "int (256 - left) \<le> ?spc" using True i by simp
    let ?call = "rw (fm_device (volume s0 mount)) (sector_address buf ?bps ?i) (word_of_int ?bps) s"
    show ?thesis
    proof (cases ?call)
      case None
      then show ?thesis unfolding seq rw_sectors.simps Let_def g addr list.map transfers.simps by (simp only: True if_True bind.bind_lzero)
    next
      case (Some p)
      obtain r s' where p: "p = (r, s')" by (cases p)
      have call: "?call = Some (r, s')" using Some p by simp
      have kept: "same_geometry mount s0 s'" by (rule assms(4) [OF True Suc.prems(1) call])
      have "left \<le> 256" using Suc.prems(2) by simp
      note ih = Suc.IH [OF kept this le, folded addr']
      show ?thesis
        unfolding seq rw_sectors.simps Let_def g addr list.map transfers.simps call
        by (simp only: True if_True bind.bind_lunit prod.case ih)
    qed
  next
    case False
    then have "nat ?spc \<le> ?i" by simp
    then show ?thesis using False by (simp add: g Let_def)
  qed
qed

lemma rwCluster_transfers:
  assumes "mode \<in> {FAT_READ, FAT_WRITE}" "fat_cluster2block s mount c = Some block"
    "vfs_seek D (fm_device (volume s mount)) (word_of_int (block * boot s mount bytes_per_sector + 1)) VFS_SEEK_START s = Some (r, s1)"
    "r \<noteq> FAIL" "same_geometry mount s s1"
    "\<And>i s2 r s3. int i < boot s mount sectors_per_cluster \<Longrightarrow> same_geometry mount s s2 \<Longrightarrow>
       (if mode = FAT_READ then vfs_read D else vfs_write D) (fm_device (volume s mount))
         (sector_address buf (boot s mount bytes_per_sector) i)
         (word_of_int (boot s mount bytes_per_sector)) s2 = Some (r, s3) \<Longrightarrow> same_geometry mount s s3"
  shows "fat_rwCluster D mount c buf mode s =
    transfers (if mode = FAT_READ then vfs_read D else vfs_write D) (fm_device (volume s mount))
      (word_of_int (boot s mount bytes_per_sector))
      (map (sector_address buf (boot s mount bytes_per_sector)) [0..<nat (boot s mount sectors_per_cluster)]) s1"
proof -
  have le: "int (256 - 256) \<le> boot s mount sectors_per_cluster" using boot_byte(1) [of s mount] by simp
  have "rw_sectors (if mode = FAT_READ then vfs_read D else vfs_write D) mount buf 256 s1 =
    transfers (if mode = FAT_READ then vfs_read D else vfs_write D) (fm_device (volume s mount))
      (word_of_int (boot s mount bytes_per_sector))
      (map (sector_address buf (boot s mount bytes_per_sector)) [0..<nat (boot s mount sectors_per_cluster)]) s1"
    using rw_sectors_transfers [OF assms(5) order_refl le assms(6)] by simp
  then show ?thesis using assms(1-4) by (auto simp: fat_rwCluster_def FAT_READ_def FAT_WRITE_def)
qed

text \<open>With three sectors or more the last one goes behind the end of a buffer of the size of a cluster.\<close>

lemma gauss: "2 * (\<Sum>j \<le> k. j) = k * (k + 1)" for k :: nat
  by (induction k) simp_all

lemma overrun: "3 \<le> (n :: nat) \<Longrightarrow> n \<le> (\<Sum>j \<le> n - 1. j)"
proof -
  assume n: "3 \<le> n"
  then obtain k where k: "n = k + 3" by (metis le_add_diff_inverse2)
  define S where "S = (\<Sum>j \<le> k + 2. j)"
  have "2 * S = (k + 2) * (k + 2 + 1)" unfolding S_def by (rule gauss)
  moreover have "2 * (k + 3) \<le> (k + 2) * (k + 2 + 1)" by (intro mult_le_mono) simp_all
  ultimately have "2 * (k + 3) \<le> 2 * S" by (simp only:)
  then have "k + 3 \<le> S" by simp
  moreover have "n - 1 = k + 2" using k by simp
  ultimately show ?thesis unfolding S_def k by (simp only:)
qed

text \<open>
  C32. \<open>fat_rwCluster\<close> seeks to the block of the cluster and then transfers one sector after the other
  until one fails, as the reference does, but sector \<open>i\<close> goes to the sum of the offsets up to \<open>i\<close>
  and not to offset \<open>i\<close>: right for up to two sectors in a cluster, and from three on the last
  sector lies behind the buffer.
\<close>

theorem rwCluster_addresses:
  assumes "mode \<in> {FAT_READ, FAT_WRITE}" "fat_cluster2block s mount c = Some block"
    "vfs_seek D (fm_device (volume s mount)) (word_of_int (block * boot s mount bytes_per_sector + 1)) VFS_SEEK_START s = Some (r, s1)"
    "r \<noteq> FAIL" "same_geometry mount s s1"
    "\<forall>i s2 r s3. int i < boot s mount sectors_per_cluster \<longrightarrow> same_geometry mount s s2 \<longrightarrow>
       (if mode = FAT_READ then vfs_read D else vfs_write D) (fm_device (volume s mount))
         (sector_address buf (boot s mount bytes_per_sector) i)
         (word_of_int (boot s mount bytes_per_sector)) s2 = Some (r, s3) \<longrightarrow> same_geometry mount s s3"
  shows "fat_rwCluster D mount c buf mode s =
      transfers (if mode = FAT_READ then vfs_read D else vfs_write D) (fm_device (volume s mount))
        (word_of_int (boot s mount bytes_per_sector))
        (map (sector_address buf (boot s mount bytes_per_sector)) [0..<nat (boot s mount sectors_per_cluster)]) s1 \<and>
    (\<forall>i \<le> 1. sector_address buf (boot s mount bytes_per_sector) i = buf + word_of_int (boot s mount bytes_per_sector * int i)) \<and>
    (3 \<le> boot s mount sectors_per_cluster \<longrightarrow>
      boot s mount sectors_per_cluster * boot s mount bytes_per_sector
      \<le> boot s mount bytes_per_sector * int (\<Sum>j \<le> nat (boot s mount sectors_per_cluster) - 1. j))"
proof -
  let ?n = "nat (boot s mount sectors_per_cluster)"
  have "int ?n * boot s mount bytes_per_sector \<le> boot s mount bytes_per_sector * int (\<Sum>j \<le> ?n - 1. j)" if "3 \<le> ?n"
  proof -
    have "0 \<le> boot s mount bytes_per_sector" by (simp add: boot_def)
    moreover have "int ?n \<le> int (\<Sum>j \<le> ?n - 1. j)" using overrun [OF that] by (simp only: of_nat_le_iff)
    ultimately show ?thesis by (metis mult.commute mult_left_mono)
  qed
  moreover have "boot s mount sectors_per_cluster = int ?n" using boot_byte(1) [of s mount] by simp
  moreover have "sector_address buf bps i = buf + word_of_int (bps * int i)" if "i \<le> 1" for bps i
  proof -
    have "i = 0 \<or> i = 1" using that by auto
    then show ?thesis by (auto simp: sector_address_def)
  qed
  moreover note rwCluster_transfers [OF assms(1-5)] assms(6)
  ultimately show ?thesis by (metis nat_le_iff of_nat_le_iff of_nat_numeral)
qed

lemma ex_seek: "vfs_seek ex_disk_drivers 0x500 off org (ex_fat m ty pos mode d) = Some (0, set_device (unat off div 64, snd d) (ex_fat m ty pos mode d))"
  by (simp add: vfs_seek_def ex_calltable_def) (simp add: ex_disk_drivers_def)

lemma set_device_simps [simp]:
  "mem (set_device d s) = mem s" "volume (set_device d s) = volume s" "fatfile (set_device d s) = fatfile s"
  "boot (set_device d s) = boot s" "handle_calls (set_device d s) = handle_calls s" "device (world (set_device d s)) = d"
  "handle_heap (set_device d s) = handle_heap s" "pool (set_device d s) = pool s" "freed (set_device d s) = freed s"
  by (simp_all add: set_device_def mem_def volume_def fatfile_def boot_def handle_calls_def mount_calls_def fun_eq_iff)

text \<open>A transfer into memory that keeps clear of the boot sector leaves its fields as they were.\<close>

definition clear_of_boot :: "u32 \<Rightarrow> u32 \<Rightarrow> nat \<Rightarrow> bool" where
  "clear_of_boot mount a n \<longleftrightarrow> (\<forall>i < 512. n \<le> unat (boot_address mount + of_nat i - a))"

lemma boot_put_bytes:
  assumes "clear_of_boot mount a n" "length bs \<le> n"
  shows "boot (set_mem (put_bytes (mem s) a bs) s) mount fld = boot s mount fld"
proof -
  obtain off k where f: "boot_field fld = (off, k)" "off + k \<le> 512" by (cases fld) simp_all
  have "bytes_at (put_bytes (mem s) a bs) (boot_address mount + of_nat off) k = bytes_at (mem s) (boot_address mount + of_nat off) k"
  proof (rule le_bytes_at_cong)
    fix i assume "i < k"
    then have "off + i < 512" using f(2) by simp
    then have "n \<le> unat (boot_address mount + of_nat (off + i) - a)" using assms(1) unfolding clear_of_boot_def by blast
    then have "\<not> unat (boot_address mount + of_nat off + of_nat i - a) < length bs"
      using assms(2) by (simp add: add.assoc)
    then show "put_bytes (mem s) a bs (boot_address mount + of_nat off + of_nat i) = mem s (boot_address mount + of_nat off + of_nat i)"
      by (simp add: put_bytes_def)
  qed
  then show ?thesis by (simp add: boot_def f)
qed

lemma ex_clear: "clear_of_boot 0x1000 0x4000 64"
  unfolding clear_of_boot_def boot_address_def
proof (intro allI impI)
  fix i :: nat
  assume i: "i < 512"
  have "(0x1000 + 4 + of_nat i - 0x4000 :: u32) = of_nat (4294955012 + i)" by simp
  then show "64 \<le> unat (0x1000 + 4 + of_nat i - 0x4000 :: u32)"
    using i by (simp only: unat_of_nat) (simp add: take_bit_nat_eq_self)
qed

lemma ex_read_keeps:
  assumes "same_geometry 0x1000 s s2" "vfs_read ex_disk_drivers h 0x4000 64 s2 = Some (r, s3)"
  shows "same_geometry 0x1000 s s3"
proof -
  obtain q d where d: "device (world s2) = (q, d)" by (cases "device (world s2)")
  have "s3 = s2 \<or> s3 = set_device (q + 1, d) (set_mem (put_bytes (mem s2) 0x4000 (take 64 (d q))) s2)"
    using assms(2) by (auto simp: vfs_read_def ex_disk_drivers_def d split: if_splits)
  then show ?thesis
    using assms(1) boot_put_bytes [OF ex_clear, of "take 64 (d q)" s2] by (auto simp: same_geometry_def)
qed

theorem rwCluster_addresses_witness:
  "fat_rwCluster ex_disk_drivers 0x1000 5 0x4000 FAT_READ (ex_fat ex_memory FAT_16 0 0 (0, \<lambda>_. []))
    = transfers (vfs_read ex_disk_drivers) 0x500 64 [0x4000] (ex_fat ex_memory FAT_16 0 0 (4, \<lambda>_. []))"
proof -
  let ?s = "\<lambda>p. ex_fat ex_memory FAT_16 0 0 (p, \<lambda>_. [])"
  have block: "fat_cluster2block (?s 0) 0x1000 5 = Some 4"
    by (simp add: fat_cluster2block_def ENTRY_SIZE_def wrap32_small)
  have dev: "set_device (4, \<lambda>_. []) (?s 0) = ?s 4" by (simp add: set_device_def ex_fat_def)
  have addr: "sector_address 0x4000 64 0 = 0x4000" by (simp add: sector_address_def)
  have same: "same_geometry 0x1000 (?s 0) (?s 4)" by (simp add: same_geometry_def)
  show ?thesis
    using rwCluster_addresses [of FAT_READ "?s 0" "0x1000" 5 4 ex_disk_drivers 0 "?s 4" "0x4000"] block same dev addr
      ex_read_keeps
    by (simp add: ex_seek FAIL_def)
qed

end
