(* ===== verification/FatNameProps.thy ===== *)
theory FatNameProps
  imports FatTableProps "HOL-Library.Sublist"
begin

text \<open>
  Properties of FAT file names (theory FatName): which names an entry answers to, and whether a
  name that was stored is found again.
\<close>

section \<open>Capitals\<close>

lemma toupper_simps [simp]:
  "toupper c = 0 \<longleftrightarrow> c = 0" "toupper c = DOT \<longleftrightarrow> c = DOT" "toupper c = FAT_PADBYTE \<longleftrightarrow> c = FAT_PADBYTE"
  by (auto simp: toupper_def DOT_def FAT_PADBYTE_def word_le_nat_alt unat_eq_zero)

lemma toupper_image [simp]: "0 \<in> toupper ` S \<longleftrightarrow> 0 \<in> S" "DOT \<in> toupper ` S \<longleftrightarrow> DOT \<in> S"
  by (metis image_iff toupper_simps(1), metis image_iff toupper_simps(2))

lemma toupper_ascii: "c < 0x80 \<Longrightarrow> toupper c < 0x80"
  unfolding toupper_def by (auto simp: word_less_nat_alt word_le_nat_alt unat_sub)

lemma cstr_append_zero: "0 \<notin> set a \<Longrightarrow> cstr (a @ 0 # b) = a"
  by (auto simp: cstr_def takeWhile_tail)

lemma upper_append: "0 \<notin> set a \<Longrightarrow> upper (a @ 0 # b) = map toupper a @ 0 # b"
  by (simp add: upper_def cstr_append_zero)

lemma length_upper [simp]: "length (upper buf) = length buf"
  by (simp add: upper_def cstr_def length_takeWhile_le)

section \<open>Comparing\<close>

lemma sint_ascii:
  fixes c e :: u8
  assumes "e < 0x80"
  shows "sint c = uint e \<longleftrightarrow> c = e"
proof -
  have "uint e < 128" "- 128 \<le> uint e"
    using assms order_trans [OF _ uint_ge_0 [of e], of "- 128"] by (simp_all add: word_less_def)
  moreover have "sint e = signed_take_bit 7 (uint e)" by (simp add: sint_uint)
  ultimately have "sint e = uint e" by (subst \<open>sint e = _\<close>, intro signed_take_bit_int_eq_self) simp_all
  moreover have "word_of_int (sint w) = w" for w :: u8 by simp
  ultimately show ?thesis by metis
qed

definition plain :: "bytes \<Rightarrow> bool" where
  "plain b \<longleftrightarrow> (\<forall>c \<in> set b. c < 0x80 \<and> c \<noteq> FAT_PADBYTE)"

lemma compare_field_prefix:
  assumes "plain b" "length b \<le> length nm"
  shows "compare_field (b @ replicate k FAT_PADBYTE) nm = Some (if prefix b nm then Some (drop (length b) nm) else None)"
  using assms
proof (induction b arbitrary: nm)
  case Nil
  then show ?case by (cases k) simp_all
next
  case (Cons e b)
  then obtain c cs where nm: "nm = c # cs" by (cases nm) simp_all
  have e: "e \<noteq> FAT_PADBYTE" "sint c = uint e \<longleftrightarrow> c = e"
    using Cons.prems(1) by (auto simp: plain_def intro!: sint_ascii)
  have "plain b" "length b \<le> length cs" using Cons.prems nm by (simp_all add: plain_def)
  from Cons.IH [OF this] show ?case using e by (auto simp: nm)
qed

lemma plain_head: "plain x \<Longrightarrow> pad_to 3 x ! 0 \<noteq> FAT_PADBYTE \<longleftrightarrow> x \<noteq> []"
  by (cases x) (auto simp: pad_to_def plain_def)

text \<open>The entry of a base name and an extension.\<close>

definition named :: "fat_entry \<Rightarrow> bytes \<Rightarrow> bytes \<Rightarrow> bool" where
  "named e b x \<longleftrightarrow> e_name e = pad_to 8 b \<and> e_extension e = pad_to 3 x \<and> length b \<le> 8 \<and> length x \<le> 3 \<and> plain b \<and> plain x"

definition answers :: "bytes \<Rightarrow> bytes \<Rightarrow> bytes \<Rightarrow> bool" where
  "answers b x nm \<longleftrightarrow> prefix b nm \<and>
     (nm ! length b = DOT \<or> x \<noteq> [] \<longrightarrow> prefix x (drop (length b + 1) nm))"

lemma compareName_answers:
  assumes "named e b x" "0 \<in> set name" "12 \<le> length name"
  shows "fat_compareName e name = Some (if answers b x (upper name) then SUCCESS else FAIL, upper name)"
proof -
  let ?nm = "upper name"
  have len: "length b \<le> length ?nm" "length b < length ?nm" "length x \<le> length (drop (length b + 1) ?nm)"
    using assms(1,3) by (auto simp: named_def)
  have fields: "compare_field (e_name e) ?nm = Some (if prefix b ?nm then Some (drop (length b) ?nm) else None)"
    "compare_field (e_extension e) (drop (length b + 1) ?nm)
      = Some (if prefix x (drop (length b + 1) ?nm) then Some (drop (length x) (drop (length b + 1) ?nm)) else None)"
    using assms(1) len compare_field_prefix [of b ?nm] compare_field_prefix [of x "drop (length b + 1) ?nm"]
    by (simp_all add: named_def pad_to_def)
  have rest: "drop (length b) ?nm = ?nm ! length b # drop (length b + 1) ?nm"
    using len(2) by (simp add: Cons_nth_drop_Suc)
  have head: "e_extension e ! 0 \<noteq> FAT_PADBYTE \<longleftrightarrow> x \<noteq> []"
    using assms(1) plain_head [of x] by (simp add: named_def)
  show ?thesis
    using assms(2) head fields by (auto simp: fat_compareName_def strlen_def answers_def rest Let_def)
qed

text \<open>
  What \<open>fat_compareName\<close> decides: an entry answers to every name that starts, in capitals, with
  its base name. Only when the entry has an extension, or a dot follows, is the extension looked
  at, one character further on whatever that character is; what is left of the name is never
  looked at. So a name that goes on where the entry's ends is taken for it.
\<close>

theorem compareName_prefix:
  assumes "named e b x" "0 \<in> set name" "12 \<le> length name"
  shows "fat_compareName e name = Some (if answers b x (upper name) then SUCCESS else FAIL, upper name) \<and>
    (\<forall>t. x = [] \<and> upper name = b @ t \<and> t \<noteq> [] \<and> hd t \<noteq> DOT \<longrightarrow> answers b x (upper name))"
  using compareName_answers [OF assms] by (auto simp: answers_def nth_append hd_conv_nth)

definition ex_named :: fat_entry where
  "ex_named = (ex_entry 5 100)\<lparr>e_name := pad_to 8 [0x41, 0x42]\<rparr>"

theorem compareName_prefix_witness:
  "fat_compareName ex_named ([0x61, 0x62, 0x63] @ 0 # replicate 12 0) = Some (SUCCESS, [0x41, 0x42, 0x43] @ 0 # replicate 12 0)"
proof -
  have up: "upper ([0x61, 0x62, 0x63] @ 0 # replicate 12 0) = [0x41, 0x42, 0x43] @ 0 # replicate 12 0"
    by (subst upper_append) (simp_all add: toupper_def)
  have n: "named ex_named [0x41, 0x42] []"
    by (simp add: named_def ex_named_def ex_entry_def plain_def pad_to_def FAT_PADBYTE_def)
  have a: "answers [0x41, 0x42] [] ([0x41, 0x42, 0x43] @ 0 # replicate 12 0)"
    by (simp add: answers_def)
  show ?thesis
    using compareName_prefix [OF n, of "[0x61, 0x62, 0x63] @ 0 # replicate 12 0"] a unfolding up by simp
qed

section \<open>Storing a name\<close>

lemma fatfile_set_file [simp]: "fatfile (set_file a F s) = (fatfile s)(a := F (fatfile s a))"
  by (simp add: fatfile_def set_file_def)

lemma plain_upper: "plain b \<Longrightarrow> plain (map toupper b)"
  by (auto simp: plain_def toupper_ascii)

definition stored_extension :: "bytes \<Rightarrow> bytes" where
  "stored_extension x = (if x = [] then [] else [toupper (last x)])"

lemma setFileName_stores:
  assumes "name = b @ rest @ 0 # t" "0 \<notin> set b" "DOT \<notin> set b" "length b \<le> 8" "rest = [] \<or> hd rest = DOT" "0 \<notin> set rest"
  shows "fat_setFileName f name s = Some (SUCCESS, upper name, set_file f (\<lambda>y. y\<lparr>ff_entry := (ff_entry y)\<lparr>
    e_name := pad_to 8 (map toupper b), e_extension := pad_to 3 (stored_extension (tl rest))\<rparr>\<rparr>) s)"
proof -
  have up: "upper name = map toupper b @ map toupper rest @ 0 # t"
    using assms(1,2,6) upper_append [of "b @ rest" t] by simp
  have head: "hd (map toupper rest @ 0 # t) = DOT \<longleftrightarrow> rest \<noteq> []"
    using assms(5) by (cases rest) (auto simp: DOT_def toupper_def)
  have stop: "takeWhile (\<lambda>c. c \<noteq> 0 \<and> c \<noteq> DOT) (map toupper rest @ 0 # t) = []"
    using assms(5) by (cases rest) auto
  have base: "name_part (upper name) = map toupper b"
    unfolding up name_part_def using assms(2-4) stop
    by (subst takeWhile_append2) (auto simp: FAT_NAMESIZE_def)
  have "cstr (tl (map toupper rest @ 0 # t)) = map toupper (tl rest)" if "rest \<noteq> []"
    using that assms(6) by (cases rest) (auto simp: cstr_append_zero)
  then have ext: "(if hd (drop (length b) (upper name)) = DOT
      then (let chars = cstr (tl (drop (length b) (upper name))) in if chars = [] then [] else [last chars]) else [])
      = stored_extension (tl rest)"
    unfolding up using head by (auto simp: stored_extension_def last_map)
  have "0 \<in> set name" using assms(1) by simp
  then show ?thesis
    unfolding fat_setFileName_def strlen_def Let_def base length_map ext [unfolded Let_def]
    by (simp add: FAT_NAMESIZE_def FAT_EXTENSIONSIZE_def)
qed

text \<open>
  C35. The round trip of a name: a base of at most eight characters without an extension is found
  again under the name it was stored with. With an extension only its last character is stored, so
  the name is found again exactly when the extension begins with the character it ends with.
\<close>

theorem fileName_roundtrip:
  assumes "name = b @ rest @ 0 # t" "12 \<le> length name" "plain b" "0 \<notin> set b" "DOT \<notin> set b" "length b \<le> 8"
    "rest = [] \<or> hd rest = DOT" "plain rest" "0 \<notin> set rest"
  shows "\<exists>s'. fat_setFileName f name s = Some (SUCCESS, upper name, s') \<and>
    fat_compareName (ff_entry (fatfile s' f)) name
      = Some (if tl rest = [] \<or> toupper (hd (tl rest)) = toupper (last (tl rest)) then SUCCESS else FAIL, upper name)"
proof -
  let ?s = "set_file f (\<lambda>y. y\<lparr>ff_entry := (ff_entry y)\<lparr>
    e_name := pad_to 8 (map toupper b), e_extension := pad_to 3 (stored_extension (tl rest))\<rparr>\<rparr>) s"
  have up: "upper name = map toupper b @ map toupper rest @ 0 # t"
    using assms(1,4,9) upper_append [of "b @ rest" t] by simp
  have "plain (stored_extension (tl rest))"
    using assms(8) by (cases rest) (auto simp: stored_extension_def plain_def toupper_ascii)
  then have nm: "named (ff_entry (fatfile ?s f)) (map toupper b) (stored_extension (tl rest))"
    using assms(3,6) plain_upper [of b] by (auto simp: named_def stored_extension_def)
  have "answers (map toupper b) (stored_extension (tl rest)) (upper name)
    \<longleftrightarrow> tl rest = [] \<or> toupper (hd (tl rest)) = toupper (last (tl rest))"
    unfolding up answers_def
    by (cases rest; cases "tl rest") (auto simp: stored_extension_def)
  moreover have "0 \<in> set name" using assms(1) by simp
  ultimately show ?thesis
    using setFileName_stores [OF assms(1,4,5,6,7,9), of f s] compareName_answers [OF nm _ assms(2)] by auto
qed

text \<open>A file stored as a.doc is not found again as a.doc.\<close>

theorem fileName_roundtrip_witness:
  "\<exists>s'. fat_setFileName 0x520 ([0x61] @ [DOT, 0x64, 0x6F, 0x63] @ 0 # replicate 12 0) (ex_fat ex_memory FAT_16 0 0 (0, \<lambda>_. []))
      = Some (SUCCESS, upper ([0x61] @ [DOT, 0x64, 0x6F, 0x63] @ 0 # replicate 12 0), s') \<and>
    fat_compareName (ff_entry (fatfile s' 0x520)) ([0x61] @ [DOT, 0x64, 0x6F, 0x63] @ 0 # replicate 12 0)
      = Some (FAIL, upper ([0x61] @ [DOT, 0x64, 0x6F, 0x63] @ 0 # replicate 12 0))"
  using fileName_roundtrip [of _ "[0x61]" "[DOT, 0x64, 0x6F, 0x63]" "replicate 12 0" "0x520" "ex_fat ex_memory FAT_16 0 0 (0, \<lambda>_. [])",
      OF refl]
  by (simp add: plain_def DOT_def FAT_PADBYTE_def toupper_def del: append.simps)

end
