(* ===== verification/FatPathProps.thy ===== *)
theory FatPathProps
  imports FatNameProps
begin

text \<open>
  Properties of the FAT driver's operations on names (theories FatName and Fat): the walk along a
  path of one component, and what it makes of opening, creating and deleting files.
\<close>

section \<open>One component\<close>

lemma toupper_idem [simp]: "toupper (toupper c) = toupper c"
  unfolding toupper_def by (auto simp: word_le_nat_alt unat_sub)

lemma toupper_slash [simp]: "toupper c = PATH_SLASH \<longleftrightarrow> c = PATH_SLASH"
  by (auto simp: toupper_def PATH_SLASH_def word_le_nat_alt)

definition component :: "bytes \<Rightarrow> bool" where
  "component c \<longleftrightarrow> c \<noteq> [] \<and> 0 \<notin> set c \<and> PATH_SLASH \<notin> set c"

lemma walk_skip:
  assumes "\<forall>j. i \<le> j \<and> j < i + k \<longrightarrow> buf ! j \<noteq> PATH_SLASH \<and> buf ! j \<noteq> 0"
  shows "walk_path D mount cb (k + left) i cur buf dir prev di dc s = walk_path D mount cb left (i + k) cur buf dir prev di dc s"
  using assms
proof (induction k arbitrary: i)
  case (Suc k)
  have "buf ! i \<noteq> PATH_SLASH" "buf ! i \<noteq> 0" using Suc.prems by auto
  moreover have "\<forall>j. Suc i \<le> j \<and> j < Suc i + k \<longrightarrow> buf ! j \<noteq> PATH_SLASH \<and> buf ! j \<noteq> 0" using Suc.prems by auto
  note Suc.IH [OF this]
  ultimately show ?case by simp
qed simp

lemma compareName_name: "fat_compareName e name = Some (r, name') \<Longrightarrow> name' = upper name"
  by (auto simp: fat_compareName_def Let_def split: bind_splits option.splits list.splits if_splits)

lemma scan_entries_name:
  "scan_entries m dir left name = Some (r, name') \<Longrightarrow> upper name = name \<Longrightarrow> name' = name"
proof (induction left arbitrary: name)
  case (Suc left)
  show ?case
  proof (cases "fat_compareName (entry_of m dir (int (32 - Suc left))) name")
    case None
    then show ?thesis using Suc by (auto simp: Let_def split: if_splits)
  next
    case (Some p)
    then have "snd p = name" using compareName_name [of _ name "fst p" "snd p"] Suc.prems(2) by simp
    then show ?thesis using Suc Some by (cases p) (auto simp: Let_def split: if_splits)
  qed
qed simp

lemma upper_upper: "0 \<notin> set c \<Longrightarrow> upper (map toupper c @ 0 # t) = map toupper c @ 0 # t"
  by (subst upper_append) auto

lemma walk_component:
  assumes "component c" "walk_ends = 0 \<or> walk_ends = PATH_SLASH"
    "fat_getIndex (mem s) dir (map toupper c @ 0 # t) = Some (i, nm)"
  defines "buf \<equiv> map toupper c @ 0 # t"
  shows "walk_path D mount cb (length c + Suc left) 0 0 (map toupper c @ walk_ends # t) dir g di dc s =
    (if i = FAIL then Some (Some (FAIL, dc, g, 0), buf, s)
     else do {
       (r, s') \<leftarrow> fat_rwCluster D mount (uint (e_start_cluster (entry_of (mem s) dir i))) cb FAT_READ s;
       if r = FAIL then Some (None, buf, s')
       else walk_path D mount cb left (length c + 1) (length c + 1) buf cb (entry_of (mem s) dir i) i (uint (e_start_cluster g)) s'
     })"
proof -
  let ?w = "map toupper c @ walk_ends # t"
  have c: "0 \<notin> set c" "PATH_SLASH \<notin> set c" using assms(1) by (simp_all add: component_def)
  have skip: "\<forall>j. 0 \<le> j \<and> j < 0 + length c \<longrightarrow> ?w ! j \<noteq> PATH_SLASH \<and> ?w ! j \<noteq> 0"
    using c by (auto simp: nth_append in_set_conv_nth)
  have "scan_entries (mem s) dir 32 (map toupper c @ 0 # t) = Some (i, nm)"
    using assms(3) by (simp add: fat_getIndex_def)
  then have nm: "nm = buf" unfolding buf_def by (rule scan_entries_name [OF _ upper_upper [OF c(1)]])
  have ends: "?w ! length c = walk_ends" "?w[length c := 0] = buf"
    by (simp_all add: nth_append list_update_append buf_def)
  have "walk_path D mount cb (Suc left) (length c) 0 ?w dir g di dc s =
    (if i = FAIL then Some (Some (FAIL, dc, g, 0), buf, s)
     else do {
       (r, s') \<leftarrow> fat_rwCluster D mount (uint (e_start_cluster (entry_of (mem s) dir i))) cb FAT_READ s;
       if r = FAIL then Some (None, buf, s')
       else walk_path D mount cb left (length c + 1) (length c + 1) buf cb (entry_of (mem s) dir i) i (uint (e_start_cluster g)) s'
     })"
  proof -
    have ix: "fat_getIndex (mem s) dir (drop 0 buf) = Some (i, buf)" using assms(3) nm by (simp add: buf_def)
    have "?w ! length c = PATH_SLASH \<or> ?w ! length c = 0" using assms(2) ends(1) by auto
    then show ?thesis
      unfolding walk_path.simps(2) ends(2) Let_def ix bind.bind_lunit prod.case take_0 append.left_neutral by (simp split del: if_split)
  qed
  then show ?thesis using walk_skip [OF skip, of D mount cb "Suc left" 0 dir g di dc s] by simp
qed

lemma kmalloc_world: "kmalloc n s = (a, s') \<Longrightarrow> world s' = world s \<and> mp_heap s' = mp_heap s \<and> handle_heap s' = handle_heap s
    \<and> dirlist_heap s' = dirlist_heap s \<and> freed s' = freed s"
  by (auto simp: kmalloc_def split: if_splits list.splits)

lemma walk_dir_mem: "kmalloc n s = (a, s') \<Longrightarrow> mem s' = mem s \<and> volume s' = volume s"
  by (auto simp: kmalloc_def mem_def volume_def split: if_splits list.splits)

lemma strlen_append: "0 \<notin> set c \<Longrightarrow> strlen (c @ 0 # t) = Some (length c)"
  by (simp add: strlen_def cstr_append_zero)

lemma component_upper:
  assumes "component c"
  shows "upper (c @ 0 # t) = map toupper c @ 0 # t" "upper (c @ PATH_SLASH # 0 # t) = map toupper c @ PATH_SLASH # 0 # t"
    "strlen (map toupper c @ 0 # t) = Some (length c)" "strlen (map toupper c @ PATH_SLASH # 0 # t) = Some (length c + 1)"
    "hd c \<noteq> PATH_SLASH"
proof -
  have c: "0 \<notin> set c" "PATH_SLASH \<notin> set c" "c \<noteq> []" using assms by (simp_all add: component_def)
  have slash: "PATH_SLASH \<noteq> 0" "toupper PATH_SLASH = PATH_SLASH" by (simp_all add: PATH_SLASH_def toupper_def)
  show "upper (c @ 0 # t) = map toupper c @ 0 # t" using c by (simp add: upper_append)
  show "strlen (map toupper c @ 0 # t) = Some (length c)" using c by (simp add: strlen_append)
  show "upper (c @ PATH_SLASH # 0 # t) = map toupper c @ PATH_SLASH # 0 # t"
    using upper_append [of "c @ [PATH_SLASH]" t] c slash by simp
  show "strlen (map toupper c @ PATH_SLASH # 0 # t) = Some (length c + 1)"
    using strlen_append [of "map toupper c @ [PATH_SLASH]" t] c slash by simp
  show "hd c \<noteq> PATH_SLASH" using c by (metis hd_in_set)
qed

text \<open>A leading slash is skipped.\<close>

lemma skip_slash:
  assumes "pre = [] \<or> pre = [PATH_SLASH]" "component c"
  shows "(if (pre @ c @ xs) ! 0 = PATH_SLASH then 1 else 0) = length pre"
proof -
  have "c \<noteq> []" "hd c \<noteq> PATH_SLASH" using assms(2) component_upper(5) by (auto simp: component_def)
  then show ?thesis using assms(1) by (cases c) auto
qed

lemma strlen_defined: "0 \<in> set buf \<Longrightarrow> \<exists>n. strlen buf = Some n"
  by (simp add: strlen_def)

lemma file2entry_component:
  assumes "component c" "pre = [] \<or> pre = [PATH_SLASH]"
    "fat_getIndex (mem s) (fm_rootdir (volume s mount)) (map toupper c @ 0 # t) = Some (i, nm)"
    "kmalloc (nat (fm_cluster_size (volume s mount))) s = (cb, s1)"
  defines "e \<equiv> entry_of (mem s) (fm_rootdir (volume s mount)) i" and "buf \<equiv> pre @ map toupper c @ 0 # t"
  shows "fat_file2entry D g mount (pre @ c @ 0 # t) entry f s =
    (if i = FAIL then Some (FAIL, buf, kfree cb s1)
     else do {
       (r, s2) \<leftarrow> fat_rwCluster D mount (uint (e_start_cluster e)) cb FAT_READ s1;
       if r = FAIL then Some (FAIL, buf, kfree cb s2)
       else Some (SUCCESS, buf, kfree cb (deliver entry f e i (uint (e_start_cluster g)) s2))
     })"
proof -
  note up = component_upper [OF assms(1)]
  note keep = walk_dir_mem [OF assms(4)]
  obtain n where n: "strlen (pre @ c @ 0 # t) = Some n" using strlen_defined [of "pre @ c @ 0 # t"] by auto
  have ix: "fat_getIndex (mem s1) (fm_rootdir (volume s mount)) (map toupper c @ 0 # t) = Some (i, nm)"
    using assms(3) keep by simp
  have pos: "0 < length c" using assms(1) by (simp add: component_def)
  have walk: "walk_path D mount cb (length c + 1) 0 0 (map toupper c @ 0 # t) (fm_rootdir (volume s mount)) g FAIL FAIL s1 =
    (if i = FAIL then Some (Some (FAIL, FAIL, g, 0), map toupper c @ 0 # t, s1)
     else do {
       (r, s') \<leftarrow> fat_rwCluster D mount (uint (e_start_cluster e)) cb FAT_READ s1;
       if r = FAIL then Some (None, map toupper c @ 0 # t, s')
       else Some (Some (i, uint (e_start_cluster g), e, length c + 1), map toupper c @ 0 # t, s')
     })"
    using walk_component [OF assms(1) disjI1 [OF refl] ix, of D mount cb 0 g FAIL FAIL]
    unfolding e_def conjunct1 [OF keep] walk_path.simps(1) One_nat_def .
  have parts: "drop (length pre) (pre @ c @ 0 # t) = c @ 0 # t" "take (length pre) (pre @ c @ 0 # t) = pre" by simp_all
  have f2e: "fat_file2entry D g mount (pre @ c @ 0 # t) entry f s = do {
     (r, buf, s) \<leftarrow> walk_path D mount cb (length c + 1) 0 0 (map toupper c @ 0 # t) (fm_rootdir (volume s mount)) g FAIL FAIL s1;
     let filename = pre @ buf;
     case r of
       None \<Rightarrow> Some (FAIL, filename, kfree cb s)
     | Some (dir_index, dir_cluster, prevEntry, cur) \<Rightarrow> do {
         found \<leftarrow> (if dir_index = FAIL then map_option (\<lambda>n. n = 0) (strlen (drop cur buf)) else Some True);
         if \<not> found then Some (FAIL, filename, kfree cb s)
         else Some (SUCCESS, filename, kfree cb (deliver entry f prevEntry dir_index dir_cluster s))
       }
   }"
    unfolding fat_file2entry_def n bind.bind_lunit skip_slash [OF assms(2,1)] Let_def parts up(1) up(3) assms(4) prod.case
      conjunct2 [OF keep] by (rule refl)
  show ?thesis
  proof (cases "i = FAIL")
    case True
    then show ?thesis unfolding f2e walk using up pos by (simp add: buf_def)
  next
    case False
    then show ?thesis unfolding f2e walk
      by (cases "fat_rwCluster D mount (uint (e_start_cluster e)) cb FAT_READ s1") (auto simp: buf_def Let_def)
  qed
qed

lemma file2entry_missing_directory:
  assumes "component c" "pre = [] \<or> pre = [PATH_SLASH]"
    "fat_getIndex (mem s) (fm_rootdir (volume s mount)) (map toupper c @ 0 # 0 # t) = Some (FAIL, nm)"
    "kmalloc (nat (fm_cluster_size (volume s mount))) s = (cb, s1)"
  shows "fat_file2entry D g mount (pre @ c @ PATH_SLASH # 0 # t) entry f s =
    Some (FAIL, pre @ map toupper c @ 0 # 0 # t, kfree cb s1)"
proof -
  note up = component_upper [OF assms(1)]
  note keep = walk_dir_mem [OF assms(4)]
  obtain n where n: "strlen (pre @ c @ PATH_SLASH # 0 # t) = Some n"
    using strlen_defined [of "pre @ c @ PATH_SLASH # 0 # t"] by auto
  have parts: "drop (length pre) (pre @ c @ PATH_SLASH # 0 # t) = c @ PATH_SLASH # 0 # t"
    "take (length pre) (pre @ c @ PATH_SLASH # 0 # t) = pre" by simp_all
  have ix: "fat_getIndex (mem s1) (fm_rootdir (volume s mount)) (map toupper c @ 0 # 0 # t) = Some (FAIL, nm)"
    using assms(3) keep by simp
  have len: "length c + 1 + 1 = length c + Suc 1" by simp
  have walk: "walk_path D mount cb (length c + 1 + 1) 0 0 (map toupper c @ PATH_SLASH # 0 # t) (fm_rootdir (volume s mount)) g FAIL FAIL s1 =
      Some (Some (FAIL, FAIL, g, 0), map toupper c @ 0 # 0 # t, s1)"
    unfolding len using walk_component [OF assms(1) disjI2 [OF refl] ix, of D mount cb 1 g FAIL FAIL] by simp
  have "0 < length c" using assms(1) by (simp add: component_def)
  then show ?thesis
    unfolding fat_file2entry_def n bind.bind_lunit skip_slash [OF assms(2,1)] Let_def parts up(2) up(4) assms(4) prod.case
      conjunct2 [OF keep] walk
    using up(3) [of "0 # t"] by simp
qed

section \<open>Opening\<close>

lemma kmalloc_first: "pool s = a # as \<Longrightarrow> n \<noteq> 0 \<Longrightarrow> \<exists>s'. kmalloc n s = (a, s') \<and> pool s' = as"
  by (simp add: kmalloc_def)

text \<open>
  C36. Opening a file of the root directory goes the wrong way round. A file that is there, and whose
  first cluster can be read, is not opened, in any mode: the blocks taken are freed. A name that is not there
  is opened, with an entry that is whatever the block of the new file held before: at once when the
  mode has not the bit of reading (the code tests that one instead of truncation) or the size in that entry is
  zero; otherwise that entry is first written with size zero to the directory cluster it names itself,
  and the open fails only when this write does.
\<close>

theorem open_inverted:
  assumes "mp_data_ptr (mp_heap s (h_mount (handle_heap s h))) = vol" "vol \<noteq> NULL" "component c" "pre = [] \<or> pre = [PATH_SLASH]"
    "pool s = f # cb # ps" "f \<noteq> NULL" "0 < fm_cluster_size (volume s vol)"
    "fat_getIndex (mem s) (fm_rootdir (volume s vol)) (map toupper c @ 0 # t) = Some (i, nm)"
  defines "s2 \<equiv> snd (kmalloc (nat (fm_cluster_size (volume s vol))) (snd (kmalloc FILE_SIZE s)))"
    and "e \<equiv> entry_of (mem s) (fm_rootdir (volume s vol)) i"
  shows "(i \<noteq> FAIL \<longrightarrow> (\<forall>r s3. fat_rwCluster D vol (uint (e_start_cluster e)) cb FAT_READ s2 = Some (r, s3) \<longrightarrow> r \<noteq> FAIL \<longrightarrow>
      (\<exists>b s'. fat_open D g h (pre @ c @ 0 # t) s = Some (NULL, b, s') \<and> freed s' = f # (if cb = NULL then [] else [cb]) @ freed s3))) \<and>
    (i = FAIL \<longrightarrow> (\<exists>b s'. h_data_ptr (handle_heap s' h) = f \<and> fatfile s' f = (fatfile s f)\<lparr>ff_mount := vol, ff_current_pos := 0\<rparr> \<and>
      fat_open D g h (pre @ c @ 0 # t) s =
        (if h_mode (handle_heap s h) AND VFS_MODE_READ = 0 \<or> e_file_size (ff_entry (fatfile s f)) = 0 then Some (h, b, s')
         else do {
           (r, s'') \<leftarrow> fat_updateFileEntry D f (set_file f (\<lambda>x. x\<lparr>ff_entry := (ff_entry x)\<lparr>e_file_size := 0\<rparr>\<rparr>) s');
           if r = FAIL then Some (NULL, b, kfree f s'') else Some (h, b, s'')
         })))"
proof -
  obtain s1 where s1: "kmalloc FILE_SIZE s = (f, s1)" "pool s1 = cb # ps"
    using kmalloc_first [OF assms(5), of FILE_SIZE] by (auto simp: FILE_SIZE_def)
  note keep1 = walk_dir_mem [OF s1(1)]
  have n: "nat (fm_cluster_size (volume s1 vol)) \<noteq> 0" using assms(7) keep1 by simp
  obtain s2' where k2: "kmalloc (nat (fm_cluster_size (volume s1 vol))) s1 = (cb, s2')"
    using kmalloc_first [OF s1(2) n] by auto
  have s2: "s2' = s2" using k2 keep1 s1 by (simp add: s2_def)
  have ix: "fat_getIndex (mem s1) (fm_rootdir (volume s1 vol)) (map toupper c @ 0 # t) = Some (i, nm)"
    using assms(8) keep1 by simp
  note f2e = file2entry_component [OF assms(3,4) ix k2, of D g NULL f]
  have w: "world s1 = world s" "world s2 = world s" "handle_heap s2 = handle_heap s" "freed s1 = freed s"
    using kmalloc_world [OF s1(1)] kmalloc_world [OF k2] s2 by simp_all
  have fl: "fatfile s2 = fatfile s" using w by (simp add: fatfile_def)
  have e': "entry_of (mem s1) (fm_rootdir (volume s1 vol)) i = e" using keep1 by (simp add: e_def)
  show ?thesis
  proof (intro conjI impI allI)
    fix r s3
    assume i: "i \<noteq> FAIL" and call: "fat_rwCluster D vol (uint (e_start_cluster e)) cb FAT_READ s2 = Some (r, s3)" "r \<noteq> FAIL"
    have "fat_open D g h (pre @ c @ 0 # t) s = Some (NULL, pre @ map toupper c @ 0 # t,
        kfree f (kfree cb (deliver NULL f e i (uint (e_start_cluster g)) s3)))"
      using assms(1,2) s1 f2e i call s2 e' by (simp add: fat_open_def SUCCESS_def)
    then show "\<exists>b s'. fat_open D g h (pre @ c @ 0 # t) s = Some (NULL, b, s') \<and> freed s' = f # (if cb = NULL then [] else [cb]) @ freed s3"
      using assms(6) by (simp add: kfree_def deliver_def Let_def set_file_def)
  next
    assume i: "i = FAIL"
    let ?s = "set_handle h (\<lambda>h. h\<lparr>h_data_ptr := f\<rparr>) (set_file f (\<lambda>x. x\<lparr>ff_mount := vol, ff_current_pos := 0\<rparr>) (kfree cb s2))"
    have m: "h_mode (handle_heap ?s h) = h_mode (handle_heap s h)" "h_data_ptr (handle_heap ?s h) = f"
      "fatfile ?s f = (fatfile s f)\<lparr>ff_mount := vol, ff_current_pos := 0\<rparr>"
      using w fl by (simp_all add: set_handle_def set_file_def kfree_def fatfile_def)
    have "fat_open D g h (pre @ c @ 0 # t) s = (if h_mode (handle_heap ?s h) AND 1 \<noteq> 0 then do {
            (r, s) \<leftarrow> fat_setFileSize D f 0 ?s;
            if r = FAIL then Some (NULL, pre @ map toupper c @ 0 # t, kfree f s) else Some (h, pre @ map toupper c @ 0 # t, s)
          }
          else Some (h, pre @ map toupper c @ 0 # t, ?s))"
      using assms(1,2,6) s1 f2e i s2 by (simp add: fat_open_def FAIL_def Let_def)
    then have "fat_open D g h (pre @ c @ 0 # t) s =
        (if h_mode (handle_heap s h) AND VFS_MODE_READ = 0 \<or> e_file_size (ff_entry (fatfile s f)) = 0 then Some (h, pre @ map toupper c @ 0 # t, ?s)
         else do {
           (r, s'') \<leftarrow> fat_updateFileEntry D f (set_file f (\<lambda>x. x\<lparr>ff_entry := (ff_entry x)\<lparr>e_file_size := 0\<rparr>\<rparr>) ?s);
           if r = FAIL then Some (NULL, pre @ map toupper c @ 0 # t, kfree f s'') else Some (h, pre @ map toupper c @ 0 # t, s'')
         })"
      unfolding fat_setFileSize_def m VFS_MODE_READ_def by (simp add: SUCCESS_def FAIL_def)
    with m(2,3) show "\<exists>b s'. h_data_ptr (handle_heap s' h) = f \<and> fatfile s' f = (fatfile s f)\<lparr>ff_mount := vol, ff_current_pos := 0\<rparr> \<and>
      fat_open D g h (pre @ c @ 0 # t) s =
        (if h_mode (handle_heap s h) AND VFS_MODE_READ = 0 \<or> e_file_size (ff_entry (fatfile s f)) = 0 then Some (h, b, s')
         else do {
           (r, s'') \<leftarrow> fat_updateFileEntry D f (set_file f (\<lambda>x. x\<lparr>ff_entry := (ff_entry x)\<lparr>e_file_size := 0\<rparr>\<rparr>) s');
           if r = FAIL then Some (NULL, b, kfree f s'') else Some (h, b, s'')
         })" by blast
  qed
qed

lemma empty_root: "fat_getIndex ex_memory 0x3000 name = Some (FAIL, name)"
proof -
  have "e_name (entry_of ex_memory 0x3000 0) ! 0 = 0"
    by (simp add: entry_of_def fat_entry_of_bytes_def ENTRY_SIZE_def ex_memory_def)
  moreover have "(32 :: nat) = Suc 31" by simp
  ultimately show ?thesis unfolding fat_getIndex_def \<open>32 = Suc 31\<close> scan_entries.simps(2) by simp
qed

text \<open>
  The root directory of the example machine is empty: /A is opened for reading, the block of the new file
  holding an entry of size zero.
\<close>

lemma set_file_switch [simp]:
  "mp_heap (set_file f F s) = mp_heap s" "handle_heap (set_file f F s) = handle_heap s" "pool (set_file f F s) = pool s"
  "fs_heap (set_file f F s) = fs_heap s" "freed (set_file f F s) = freed s"
  "device (world (set_file f F s)) = device (world s)"
  by (simp_all add: set_file_def)

lemma set_file_keeps [simp]: "mem (set_file f F s) = mem s" "volume (set_file f F s) = volume s"
  "fatfile (set_file f F s) = (fatfile s)(f := F (fatfile s f))" "set_file f F (set_file f G s) = set_file f (\<lambda>x. F (G x)) s"
  by (simp_all add: set_file_def mem_def volume_def fatfile_def)

theorem open_inverted_witness:
  "\<exists>b s'. fat_open ex_disk_drivers (ex_entry 0 0) 0x510 [PATH_SLASH, 0x41, 0]
      (set_file 0x4000 (\<lambda>x. x\<lparr>ff_entry := ex_entry 5 0\<rparr>) (ex_fat ex_memory FAT_16 0 VFS_MODE_READ (0, \<lambda>_. []))) =
      Some (0x510, b, s') \<and> h_data_ptr (handle_heap s' 0x510) = 0x4000"
proof -
  let ?s = "set_file 0x4000 (\<lambda>x. x\<lparr>ff_entry := ex_entry 5 0\<rparr>) (ex_fat ex_memory FAT_16 0 VFS_MODE_READ (0, \<lambda>_. []))"
  have z: "e_file_size (ff_entry (fatfile ?s 0x4000)) = 0" by (simp add: ex_entry_def)
  show ?thesis
    using open_inverted [of ?s "0x510" "0x1000" "[0x41]" "[PATH_SLASH]" "0x4000" "0x5000" "[0x6000]"
        "[]" FAIL "map toupper [0x41] @ [0]" ex_disk_drivers "ex_entry 0 0"] z
    by (auto simp: component_def PATH_SLASH_def empty_root)
qed

section \<open>Creating and deleting\<close>

lemma file2entry_root:
  assumes "fat_getIndex (mem s) (fm_rootdir (volume s mount)) (0 # t) = Some (FAIL, nm)"
    "kmalloc (nat (fm_cluster_size (volume s mount))) s = (cb, s1)"
  shows "fat_file2entry D g mount (PATH_SLASH # 0 # t) entry f s =
    Some (SUCCESS, PATH_SLASH # nm, kfree cb (deliver entry f g FAIL FAIL s1))"
proof -
  note keep = walk_dir_mem [OF assms(2)]
  have up: "upper (0 # t) = 0 # t" "strlen (0 # t) = Some 0" by (simp_all add: upper_def cstr_def strlen_def)
  have "scan_entries (mem s) (fm_rootdir (volume s mount)) 32 (0 # t) = Some (FAIL, nm)" using assms(1) by (simp add: fat_getIndex_def)
  then have nm: "nm = 0 # t" by (rule scan_entries_name [OF _ up(1)])
  obtain n where n: "strlen (PATH_SLASH # 0 # t) = Some n" using strlen_defined [of "PATH_SLASH # 0 # t"] by auto
  have "walk_path D mount cb (0 + 1) 0 0 (0 # t) (fm_rootdir (volume s mount)) g FAIL FAIL s1 = Some (Some (FAIL, FAIL, g, 0), nm, s1)"
    using assms(1) keep nm by (simp add: Let_def)
  then show ?thesis
    using n up keep nm assms by (simp add: fat_file2entry_def Let_def)
qed

lemma strrchr_component:
  assumes "component c"
  shows "strrchr (PATH_SLASH # c @ 0 # t) PATH_SLASH = Some 0" "strlen (PATH_SLASH # c @ 0 # t) = Some (Suc (length c))"
    "(PATH_SLASH # c @ 0 # t) ! length c \<noteq> PATH_SLASH"
proof -
  have c: "0 \<notin> set c" "PATH_SLASH \<notin> set c" "c \<noteq> []" "PATH_SLASH \<noteq> 0" using assms by (simp_all add: component_def PATH_SLASH_def)
  have str: "cstr (PATH_SLASH # c @ 0 # t) = PATH_SLASH # c"
    using cstr_append_zero [of "PATH_SLASH # c" t] c by simp
  have "takeWhile (\<lambda>x. x \<noteq> PATH_SLASH) (rev c @ [PATH_SLASH]) = rev c"
    using c by (subst takeWhile_append2) auto
  then show "strrchr (PATH_SLASH # c @ 0 # t) PATH_SLASH = Some 0" unfolding strrchr_def str by simp
  show "strlen (PATH_SLASH # c @ 0 # t) = Some (Suc (length c))" unfolding strlen_def str by simp
  obtain k where k: "length c = Suc k" using c by (cases c) auto
  then have "(PATH_SLASH # c @ 0 # t) ! length c = c ! k" by (simp add: nth_append)
  then show "(PATH_SLASH # c @ 0 # t) ! length c \<noteq> PATH_SLASH" using c k by (metis nth_mem lessI)
qed

lemma component_capitals: "component c \<Longrightarrow> component (map toupper c)"
  by (auto simp: component_def dest!: sym [of PATH_SLASH])

text \<open>The state in which \<open>create_in\<close> writes the entry of a new file.\<close>

definition created_file :: "u32 \<Rightarrow> u32 \<Rightarrow> bytes \<Rightarrow> 'd fat vfs \<Rightarrow> 'd fat vfs" where
  "created_file f vol name s = (let
     s = set_file f (\<lambda>x. x\<lparr>ff_mount := vol, ff_dir_index := FAIL, ff_dir_cluster := uint (e_start_cluster (ff_entry x)),
           ff_current_pos := 0, ff_entry := fat_entry_of_bytes (replicate ENTRY_SIZE 0)\<rparr>) s;
     s = (case fat_setFileName f name s of Some (_, _, s') \<Rightarrow> s' | None \<Rightarrow> s)
   in set_file f (\<lambda>x. x\<lparr>ff_entry := (ff_entry x)\<lparr>e_attribute := e_attribute (ff_entry x) OR 0x20,
        e_start_cluster := word_of_int FAT_FREECLUSTER\<rparr>\<rparr>) s)"

lemma created_file_value:
  assumes "component c"
  shows "\<exists>F. created_file f vol (c @ 0 # t) s = set_file f F s \<and>
    (\<forall>x. ff_dir_cluster (F x) = uint (e_start_cluster (ff_entry x)) \<and> ff_dir_index (F x) = FAIL \<and> is_archive (ff_entry (F x)))"
    (is ?changed)
    and "f \<noteq> NULL \<Longrightarrow> create_in D vol f False (Some (c @ 0 # t)) s = fat_updateFileEntry D f (created_file f vol (c @ 0 # t) s)"
proof -
  obtain n where n: "strlen (c @ 0 # t) = Some n" using strlen_defined [of "c @ 0 # t"] by auto
  show ?changed
    unfolding created_file_def Let_def fat_setFileName_def n bind.bind_lunit option.case prod.case set_file_keeps
    by (rule exI, rule conjI, rule refl) (simp add: is_archive_def bit_or_iff)
  show "f \<noteq> NULL \<Longrightarrow> create_in D vol f False (Some (c @ 0 # t)) s = fat_updateFileEntry D f (created_file f vol (c @ 0 # t) s)"
    by (simp add: create_in_def created_file_def Let_def fat_setFileName_def n)
qed

lemma mem_volume_free: "mem (kfree a s) = mem s" "volume (kfree a s) = volume s"
  by (simp_all add: kfree_def mem_def volume_def)

text \<open>What the heap leaves alone.\<close>

definition same_world :: "'d fat vfs \<Rightarrow> 'd fat vfs \<Rightarrow> bool" where
  "same_world s s' \<longleftrightarrow> world s' = world s \<and> fs_heap s' = fs_heap s \<and> mp_heap s' = mp_heap s \<and> handle_heap s' = handle_heap s"

lemma same_world_heap: "kmalloc n s = (a, s') \<Longrightarrow> same_world s s'" "same_world s (kfree b s)"
  by (auto simp: same_world_def kmalloc_def kfree_def split: if_splits list.splits)

lemma same_world_trans: "same_world s s1 \<Longrightarrow> same_world s1 s2 \<Longrightarrow> same_world s s2"
  by (simp add: same_world_def)

lemma same_world_mem: "same_world s s' \<Longrightarrow> mem s' = mem s \<and> volume s' = volume s \<and> fatfile s' = fatfile s"
  by (simp add: same_world_def mem_def volume_def fatfile_def)

lemma create_root_calls:
  assumes "mp_data_ptr (mp_heap s m) = vol" "vol \<noteq> NULL" "component c" "pool s = f # d # cb # cb' # ps" "f \<noteq> NULL" "d \<noteq> NULL"
    "0 < fm_cluster_size (volume s vol)"
    "fat_getIndex (mem s) (fm_rootdir (volume s vol)) (map toupper c @ 0 # t) = Some (FAIL, nm)"
    "fat_getIndex (mem s) (fm_rootdir (volume s vol)) (0 # tl c @ [0]) = Some (FAIL, nm')"
  shows "\<exists>s4. same_world s s4 \<and> pool s4 = ps \<and> fat_create D g m (PATH_SLASH # c @ 0 # t) s = do {
      (ret, s') \<leftarrow> create_in D vol f False (Some (map toupper c @ 0 # t))
        (kfree cb' (set_file f (\<lambda>x. x\<lparr>ff_dir_cluster := FAIL, ff_dir_index := FAIL, ff_entry := g\<rparr>) s4));
      Some (ret, PATH_SLASH # map toupper c @ 0 # t, kfree f (kfree d s'))
    }"
proof -
  let ?n = "nat (fm_cluster_size (volume s vol))" and ?c = "map toupper c" and ?vol = "volume s vol"
  note str = strrchr_component [OF component_capitals [OF assms(3)], of t] strrchr_component [OF assms(3), of "[]"]
    strrchr_component(2) [OF assms(3), of t]
  have n: "?n \<noteq> 0" using assms(7) by simp
  obtain s1 where s1: "kmalloc FILE_SIZE s = (f, s1)" "pool s1 = d # cb # cb' # ps"
    using kmalloc_first [OF assms(4), of FILE_SIZE] by (auto simp: FILE_SIZE_def)
  obtain s2 where s2: "kmalloc (Suc (length c) + 1) s1 = (d, s2)" "pool s2 = cb # cb' # ps"
    using kmalloc_first [OF s1(2), of "Suc (length c) + 1"] by auto
  obtain s3 where s3: "kmalloc ?n s2 = (cb, s3)" "pool s3 = cb' # ps" using kmalloc_first [OF s2(2) n] by auto
  have p3: "pool (kfree cb s3) = cb' # ps" using s3(2) by (simp add: kfree_def)
  obtain s4 where s4: "kmalloc ?n (kfree cb s3) = (cb', s4)" "pool s4 = ps" using kmalloc_first [OF p3 n] by auto
  note w = same_world_heap(1)
  have sw: "same_world s s4"
    by (rule same_world_trans [OF same_world_trans [OF same_world_trans [OF same_world_trans [OF w [OF s1(1)] w [OF s2(1)]]
          w [OF s3(1)]] same_world_heap(2)] w [OF s4(1)]])
  have k: "mem s2 = mem s" "volume s2 = volume s" "mem s3 = mem s" "volume s3 = volume s" "mem s4 = mem s" "volume s4 = volume s"
    using walk_dir_mem [OF s1(1)] walk_dir_mem [OF s2(1)] walk_dir_mem [OF s3(1)] walk_dir_mem [OF s4(1)]
    by (simp_all add: mem_volume_free)
  have first: "fat_file2entry D g vol ([PATH_SLASH] @ c @ 0 # t) NULL NULL s2 = Some (FAIL, [PATH_SLASH] @ ?c @ 0 # t, kfree cb s3)"
  proof -
    have ix: "fat_getIndex (mem s2) (fm_rootdir (volume s2 vol)) (?c @ 0 # t) = Some (FAIL, nm)" using assms(8) k by simp
    have "kmalloc (nat (fm_cluster_size (volume s2 vol))) s2 = (cb, s3)" using s3(1) k by simp
    from file2entry_component [OF assms(3) disjI2 [OF refl] ix this, of D g NULL NULL] show ?thesis by simp
  qed
  have second: "fat_file2entry D g vol (PATH_SLASH # 0 # tl c @ [0]) NULL f (kfree cb s3) =
    Some (SUCCESS, PATH_SLASH # nm', kfree cb' (deliver NULL f g FAIL FAIL s4))"
    by (rule file2entry_root) (use assms(9) s4(1) k in \<open>simp_all add: mem_volume_free\<close>)
  have c: "c \<noteq> []" using assms(3) by (simp add: component_def)
  have cs: "cstr (PATH_SLASH # c @ 0 # t) @ [0] = PATH_SLASH # c @ 0 # []"
    using cstr_append_zero [of "PATH_SLASH # c" t] assms(3) by (simp add: component_def PATH_SLASH_def)
  have cut: "(PATH_SLASH # c @ 0 # [])[0 + 1 := 0] = PATH_SLASH # 0 # tl c @ [0]" using c by (cases c) simp_all
  let ?file = "\<lambda>x. x\<lparr>ff_dir_cluster := FAIL, ff_dir_index := FAIL, ff_entry := g\<rparr>"
  have del: "kfree cb' (deliver NULL f g FAIL FAIL s4) = kfree cb' (set_file f ?file s4)"
    using assms(5) by (simp add: deliver_def Let_def)
  let ?s5 = "kfree cb' (set_file f ?file s4)"
  have create: "fat_create D g m (PATH_SLASH # c @ 0 # t) s = do {
      (ret, s') \<leftarrow> create_in D vol f False (Some (?c @ 0 # t)) ?s5;
      Some (ret, PATH_SLASH # ?c @ 0 # t, kfree f (kfree d s'))
    }"
    unfolding fat_create_def Let_def assms(1) s1(1) prod.case str(7) bind.bind_lunit s2(1) if_not_P [OF assms(6)] cs
      first [unfolded append.append_Cons append.append_Nil]
    using assms(2) str c cut second del by (simp add: Let_def)
  show ?thesis by (rule exI [of _ s4], rule conjI [OF sw conjI [OF s4(2) create]])
qed

end
