(* ===== verification/FatProps.thy ===== *)
theory FatProps
  imports FatPathProps
begin

text \<open>
  Properties of the FAT driver's operations (theory Fat): the file position, the bytes of one round
  of a transfer, reading inside a cluster, opening, creating and listing.
\<close>

section \<open>The file position\<close>

definition position_ok :: "fat_file \<Rightarrow> bool" where
  "position_ok x \<longleftrightarrow> 0 \<le> ff_current_pos x \<and> ff_current_pos x \<le> uint (e_file_size (ff_entry x)) \<and>
     uint (e_file_size (ff_entry x)) < 2 ^ 31"

text \<open>The position an offset means: an offset is signed, as the callers use it.\<close>

definition seek_target :: "fat_file \<Rightarrow> u32 \<Rightarrow> u8 \<Rightarrow> int" where
  "seek_target x offset origin =
     (if origin = VFS_SEEK_START then sint offset
      else if origin = VFS_SEEK_CURRENT then ff_current_pos x + sint offset
      else uint (e_file_size (ff_entry x)) - sint offset)"

lemma sint_u32_bounds: "- (2 ^ 31) \<le> sint w" "sint w < 2 ^ 31" for w :: u32
  using sint_ge [of w] sint_less [of w] by simp_all

lemma wrap32_cases: "- (2 ^ 31) \<le> x \<Longrightarrow> x < 2 ^ 32 \<Longrightarrow> wrap32 x = (if x < 2 ^ 31 then x else x - 2 ^ 32)"
proof -
  assume x: "- (2 ^ 31) \<le> x" "x < 2 ^ 32"
  show ?thesis
  proof (cases "x < 2 ^ 31")
    case True
    then show ?thesis using x by (simp add: wrap32_def signed_take_bit_int_eq_self)
  next
    case False
    have "wrap32 x = wrap32 (x - 2 ^ 32)"
      unfolding wrap32_def by (rule signed_take_bit_eq_iff_take_bit_eq [THEN iffD2]) (simp add: take_bit_eq_mod)
    also have "\<dots> = x - 2 ^ 32" using x False unfolding wrap32_def by (intro signed_take_bit_int_eq_self) simp_all
    finally show ?thesis using False by simp
  qed
qed

lemma wrap32_word: "wrap32 x = sint (word_of_int x :: u32)"
  by (simp add: wrap32_def sint_sbintrunc')

lemma wrap32_uint: "wrap32 (x + uint w) = wrap32 (x + sint w)" for w :: u32
  unfolding wrap32_word by simp

lemma sint_minus: "sint (n - w) = wrap32 (uint n - sint w)" for n w :: u32
  unfolding wrap32_word by simp

text \<open>The code's test of a wrapped position, against the position that was meant.\<close>

lemma position_test:
  fixes n :: u32
  assumes "- (2 ^ 31) \<le> x" "x < 2 ^ 32" "uint n < 2 ^ 31"
  shows "(word_of_int (wrap32 x) :: u32) > n \<or> wrap32 x < 0 \<longleftrightarrow> \<not> (0 \<le> x \<and> x \<le> uint n)"
    and "0 \<le> x \<Longrightarrow> x \<le> uint n \<Longrightarrow> wrap32 x = x"
proof -
  have w: "wrap32 x = (if x < 2 ^ 31 then x else x - 2 ^ 32)" by (rule wrap32_cases [OF assms(1,2)])
  show "0 \<le> x \<Longrightarrow> x \<le> uint n \<Longrightarrow> wrap32 x = x" using w assms(3) by simp
  have "uint (word_of_int x :: u32) = x" if "0 \<le> x" "x < 2 ^ 31"
    using that by (simp add: uint_word_of_int_eq take_bit_int_eq_self)
  then show "(word_of_int (wrap32 x) :: u32) > n \<or> wrap32 x < 0 \<longleftrightarrow> \<not> (0 \<le> x \<and> x \<le> uint n)"
    using w assms by (auto simp: word_less_def)
qed

text \<open>
  C33. \<open>fat_seek\<close> moves the position to where the offset points from the start, the position or the
  end, when that is inside the file, and leaves it where it was otherwise; it answers the position
  in either case, keeps it inside the file, and changes nothing else. An unknown origin fails.
\<close>

theorem seek_stays_inside:
  fixes offset :: u32 and origin :: u8 and s :: "'d fat vfs"
  assumes "h_data_ptr (handle_heap s h) = f" "f \<noteq> NULL" "position_ok (fatfile s f)"
  defines "t \<equiv> seek_target (fatfile s f) offset origin"
  shows "if origin \<in> {VFS_SEEK_START, VFS_SEEK_CURRENT, VFS_SEEK_END}
    then (\<exists>pos. fat_seek h offset origin s = (pos, set_file f (\<lambda>x. x\<lparr>ff_current_pos := pos\<rparr>) s) \<and>
      pos = (if 0 \<le> t \<and> t \<le> uint (e_file_size (ff_entry (fatfile s f))) then t else ff_current_pos (fatfile s f)) \<and>
      position_ok ((fatfile s f)\<lparr>ff_current_pos := pos\<rparr>))
    else fat_seek h offset origin s = (FAIL, s)"
proof -
  let ?x = "fatfile s f" and ?n = "e_file_size (ff_entry (fatfile s f))"
  have ok: "0 \<le> ff_current_pos ?x" "ff_current_pos ?x \<le> uint ?n" "uint ?n < 2 ^ 31"
    using assms(3) by (simp_all add: position_ok_def)
  note b = sint_u32_bounds [of offset]
  have t: "- (2 ^ 31) \<le> t" "t < 2 ^ 32"
    using ok b by (auto simp: t_def seek_target_def)
  have start: "sint offset = wrap32 (sint offset)" using b wrap32_cases [of "sint offset"] by simp
  note test = position_test [OF t ok(3)]
  show ?thesis
  proof (cases "origin \<in> {VFS_SEEK_START, VFS_SEEK_CURRENT, VFS_SEEK_END}")
    case True
    have "fat_seek h offset origin s = (let pos = (if (word_of_int (wrap32 t) :: u32) > ?n \<or> wrap32 t < 0
        then ff_current_pos ?x else wrap32 t) in (pos, set_file f (\<lambda>x. x\<lparr>ff_current_pos := pos\<rparr>) s))"
      using True assms(1,2) start
      by (auto simp: fat_seek_def t_def seek_target_def wrap32_uint sint_minus VFS_SEEK_START_def VFS_SEEK_CURRENT_def
          VFS_SEEK_END_def Let_def)
    then show ?thesis using True test ok by (auto simp: Let_def position_ok_def)
  next
    case False
    then show ?thesis using assms(1,2) by (simp add: fat_seek_def Let_def)
  qed
qed

theorem seek_stays_inside_witness:
  "fst (fat_seek 0x510 10 VFS_SEEK_END (ex_fat ex_memory FAT_16 7 0 (0, \<lambda>_. []))) = 90"
  using seek_stays_inside [of "ex_fat ex_memory FAT_16 7 0 (0, \<lambda>_. [])" "0x510" "0x520" VFS_SEEK_END 10]
  by (auto simp: position_ok_def ex_file_def ex_entry_def seek_target_def VFS_SEEK_START_def VFS_SEEK_CURRENT_def VFS_SEEK_END_def)

section \<open>The bytes of one round\<close>

lemma bytes_to_rw_value:
  fixes n :: u32
  assumes "0 < cs" "cs < 2 ^ 31" "0 \<le> pos" "uint n < 2 ^ 31" "0 < uint n"
  shows "bytes_to_rw cs pos (pos mod cs) n =
    (if pos < cs \<and> cs < pos + min (uint n) cs then uint n - (pos + min (uint n) cs - cs) else min (uint n) cs)"
proof -
  have sn: "sint n = uint n" using assms(4,5) wrap32_cases [of "uint n"] by (simp add: wrap32_word)
  have gt: "n > word_of_int cs \<longleftrightarrow> cs < uint n"
    using assms(1,2) by (simp add: word_less_def uint_word_of_int_eq take_bit_int_eq_self)
  have b: "(if n > word_of_int cs then cs else sint n) = min (uint n) cs"
    by (auto simp: gt sn)
  have k: "pos sdiv cs = pos div cs" using assms(1,3) by (simp add: signed_divide_int_def sgn_if)
  have off: "0 \<le> pos mod cs" "pos mod cs < cs" using assms(1) by simp_all
  show ?thesis
  proof (cases "pos < cs")
    case True
    then have e: "pos div cs = 0" "pos mod cs = pos" using assms(3) by simp_all
    have "sint (n - word_of_int z) = uint n - z" if "0 \<le> z" "z \<le> uint n" for z
    proof -
      have "n - word_of_int z = word_of_int (uint n - z)" by simp
      then show ?thesis using that assms(4) wrap32_cases [of "uint n - z"] wrap32_word [of "uint n - z"] by simp
    qed
    from this [of "pos + min (uint n) cs - cs"] show ?thesis
      using True assms(1,3,5) unfolding bytes_to_rw_def b Let_def k e by auto
  next
    case False
    then have "1 \<le> pos div cs" using assms(1) by (simp add: pos_imp_zdiv_pos_iff int_one_le_iff_zero_less)
    then have "2 * cs \<le> (pos div cs + 1) * cs" using assms(1) by (intro mult_right_mono) simp_all
    moreover have "min (uint n) cs \<le> cs" by simp
    ultimately have "\<not> pos mod cs + min (uint n) cs > (pos div cs + 1) * cs" using off by linarith
    then show ?thesis using False unfolding bytes_to_rw_def b Let_def k by simp
  qed
qed

text \<open>
  How far one round of \<open>fat_rw\<close> reads into its cluster buffer: it stays inside it exactly when the
  position is at the start of a cluster, or the rest of the request fits into the rest of the
  cluster, or the position is in the first cluster of the file and the request is not longer than a
  cluster; then the round transfers as much as it can. In every other case it reads, or writes,
  behind the end of the buffer.
\<close>

theorem round_stays_in_cluster:
  fixes n :: u32
  assumes "0 < cs" "cs < 2 ^ 31" "0 \<le> pos" "0 < uint n" "uint n < 2 ^ 31"
  defines "off \<equiv> pos mod cs"
  shows "(off + bytes_to_rw cs pos off n \<le> cs \<longleftrightarrow> off = 0 \<or> off + uint n \<le> cs \<or> (pos < cs \<and> uint n \<le> cs)) \<and>
    (off + bytes_to_rw cs pos off n \<le> cs \<longrightarrow> bytes_to_rw cs pos off n = min (uint n) (cs - off))"
proof -
  have off: "0 \<le> off" "off < cs" using assms(1) by (simp_all add: off_def)
  have small: "off = pos" if "pos < cs" using that assms(3) by (simp add: off_def)
  show ?thesis
    using assms(4) off small bytes_to_rw_value [OF assms(1-3,5,4)] unfolding off_def [symmetric]
    by (auto simp: min_def split: if_splits)
qed

text \<open>Reading 40 bytes from position 100 with clusters of 64 bytes: 76 of the 64 bytes of the buffer.\<close>

theorem round_stays_in_cluster_witness: "\<not> 36 + bytes_to_rw 64 100 36 (40 :: u32) \<le> 64"
  using round_stays_in_cluster [of 64 100 "40 :: u32"] by simp

section \<open>Listing\<close>

text \<open>A directory in memory: its entries up to the first one that was never used, at most 32.\<close>

definition directory_at :: "memory \<Rightarrow> u32 \<Rightarrow> fat_entry list \<Rightarrow> bool" where
  "directory_at m dir es \<longleftrightarrow> length es \<le> 32 \<and>
     (\<forall>k < length es. entry_of m dir (int k) = es ! k \<and> e_name (es ! k) ! 0 \<noteq> 0) \<and>
     e_name (entry_of m dir (int (length es))) ! 0 = 0"

definition live :: "fat_entry \<Rightarrow> bool" where
  "live e \<longleftrightarrow> e_name e ! 0 \<noteq> FAT_ENTRY_DELETED \<and> e_file_size e \<noteq> -1"

lemma list_loop_directory:
  assumes "directory_at m dir es" "k \<le> length es" "j \<le> k" "length acc = 32"
  shows "list_loop m dir (int k) j acc =
    Some (take j acc @ map list_entry (filter live (drop k es)) @ drop (j + length (filter live (drop k es))) acc)"
  using assms(2-4)
proof (induction "length es - k" arbitrary: k j acc)
  case 0
  then have k: "k = length es" by simp
  then have "e_name (entry_of m dir (int k)) ! 0 = 0" using assms(1) by (simp add: directory_at_def)
  then have "list_loop m dir (int k) j acc = Some acc" by (subst list_loop.simps) (simp add: Let_def)
  then show ?case using k by simp
next
  case (Suc n)
  then have k: "k < length es" by simp
  then have e: "entry_of m dir (int k) = es ! k" "e_name (es ! k) ! 0 \<noteq> 0" "k < 32" "length es \<le> 32"
    using assms(1) by (simp_all add: directory_at_def)
  have rest: "drop k es = es ! k # drop (Suc k) es" using k by (simp add: Cons_nth_drop_Suc)
  have step: "list_loop m dir (int k) j acc =
    (if live (es ! k) then list_loop m dir (int (Suc k)) (Suc j) (acc[j := list_entry (es ! k)])
     else list_loop m dir (int (Suc k)) j acc)"
    using e Suc.prems(2,3) by (subst list_loop.simps) (auto simp: Let_def live_def add.commute)
  have "n = length es - Suc k" "Suc k \<le> length es" using Suc.hyps(2) k by simp_all
  note IH = Suc.hyps(1) [OF this]
  show ?case
  proof (cases "live (es ! k)")
    case True
    have "take (Suc j) (acc[j := x]) = take j acc @ [x]" for x
      using Suc.prems(2,3) e(3) by (simp add: take_Suc_conv_app_nth)
    then show ?thesis using IH [of "Suc j" "acc[j := list_entry (es ! k)]"] Suc.prems(2,3) True
      unfolding step rest by simp
  next
    case False
    then show ?thesis using IH [of j acc] Suc.prems(2,3) unfolding step rest by simp
  qed
qed

definition no_entry :: vfs_dirlist_entry where
  "no_entry = \<lparr>de_name = [], de_attributes = 0, de_size = 0\<rparr>"

text \<open>
  C34. Listing the root directory: the entries that are neither deleted nor of size -1, in order, with
  the rest of the 32 entries zero. But the directory that was listed is given back to the heap,
  and for the root that is the volume's own copy of it.
\<close>

theorem list_root:
  assumes "mp_data_ptr (mp_heap s mount) = vol" "vol \<noteq> NULL" "dirname ! 0 = 0" "dirname \<noteq> []" "pool s = a # as" "a \<noteq> NULL"
    "directory_at (mem s) (fm_rootdir (volume s vol)) es" "fm_rootdir (volume s vol) \<noteq> NULL"
  shows "\<exists>s'. fat_list D garbage mount dirname s = Some (a, s') \<and>
    dirlist_heap s' a = map list_entry (filter live es) @ replicate (32 - length (filter live es)) no_entry \<and>
    freed s' = fm_rootdir (volume s vol) # freed s \<and> fm_rootdir (volume s' vol) = fm_rootdir (volume s vol)"
proof -
  obtain t where d: "dirname = 0 # t" using assms(3,4) by (cases dirname) simp_all
  have n: "strlen dirname = Some 0" by (simp add: strlen_def d cstr_def)
  obtain s1 where s1: "kmalloc (40 * 32) s = (a, s1)" using assms(5) by (simp add: kmalloc_def)
  note keep = kmalloc_world [OF s1]
  have m1: "mem s1 = mem s" "volume s1 = volume s" using keep by (simp_all add: mem_def volume_def)
  have loop: "list_loop (mem s) (fm_rootdir (volume s vol)) 0 0 (replicate 32 no_entry) =
      Some (map list_entry (filter live es) @ replicate (32 - length (filter live es)) no_entry)"
    using list_loop_directory [OF assms(7), of 0 0 "replicate 32 no_entry"] by simp
  have "fat_list D garbage mount dirname s = Some (a, kfree (fm_rootdir (volume s vol))
      (s1\<lparr>dirlist_heap := (dirlist_heap s1)(a := map list_entry (filter live es) @ replicate (32 - length (filter live es)) no_entry)\<rparr>))"
    using assms(1,2,6) n s1 m1 loop by (simp add: fat_list_def Let_def no_entry_def)
  then show ?thesis using assms(8) keep by (simp add: kfree_def volume_def)
qed

definition ex_directory :: memory where
  "ex_directory = put_bytes ex_memory 0x3000 (bytes_of_fat_entry (ex_entry 5 100))"

lemma ex_entry_ok: "entry_ok (ex_entry c n)"
  by (simp add: entry_ok_def ex_entry_def)

lemma ex_directory_at: "directory_at ex_directory 0x3000 [ex_entry 5 100]"
proof -
  have len: "length (bytes_of_fat_entry (ex_entry 5 100)) = 32"
    using fat_entry_codec(1) [OF ex_entry_ok] by (simp add: ENTRY_SIZE_def)
  have "entry_of ex_directory 0x3000 0 = ex_entry 5 100"
    using bytes_at_put_bytes [of "bytes_of_fat_entry (ex_entry 5 100)" ex_memory "0x3000"] fat_entry_codec(2) [OF ex_entry_ok]
    by (simp add: entry_of_def ex_directory_def len ENTRY_SIZE_def)
  moreover have "ex_directory 0x3020 = 0"
    by (simp add: ex_directory_def put_bytes_def len ex_memory_def)
  then have "e_name (entry_of ex_directory 0x3000 1) ! 0 = 0"
    by (simp add: entry_of_def fat_entry_of_bytes_def ENTRY_SIZE_def)
  moreover have "e_name (ex_entry 5 100) ! 0 \<noteq> 0" by (simp add: ex_entry_def)
  ultimately show ?thesis by (simp add: directory_at_def)
qed

theorem list_root_witness:
  "\<exists>s'. fat_list ex_disk_drivers (ex_entry 0 0) 0x610 [0] (ex_fat ex_directory FAT_16 0 0 (0, \<lambda>_. [])) = Some (0x4000, s') \<and>
    hd (dirlist_heap s' 0x4000) = \<lparr>de_name = ''aaaaaaaa'', de_attributes = VFS_FILE, de_size = 100\<rparr> \<and> 0x3000 \<in> set (freed s')"
proof -
  have "live (ex_entry 5 100)" by (simp add: live_def ex_entry_def FAT_ENTRY_DELETED_def)
  moreover have "replicate 8 (char_of (97 :: nat)) = ''aaaaaaaa''" by code_simp
  then have "list_entry (ex_entry 5 100) = \<lparr>de_name = ''aaaaaaaa'', de_attributes = VFS_FILE, de_size = 100\<rparr>"
    by (simp add: list_entry_def ex_entry_def unpad_def FAT_PADBYTE_def tolower_def is_directory_def)
  ultimately show ?thesis
    using list_root [of "ex_fat ex_directory FAT_16 0 0 (0, \<lambda>_. [])" "0x610" "0x1000" "[0]" "0x4000" "[0x5000, 0x6000]"
      "[ex_entry 5 100]" ex_disk_drivers "ex_entry 0 0"] ex_directory_at by auto
qed

end
