(* ===== verification/FatReadProps.thy ===== *)
theory FatReadProps
  imports FatProps
begin

text \<open>
  Reading a file through its cluster chain (\<open>fat_rw\<close>): from the start of a cluster on, the transfer
  loop puts the contents of the clusters of the chain one behind the other into the caller's buffer.
\<close>

section \<open>A device that serves clusters\<close>

text \<open>
  What reading relies on, for a file \<open>x\<close> at \<open>f\<close> on the volume \<open>v\<close>, a chain \<open>cl\<close> of clusters, a
  cluster buffer \<open>cb\<close> and a caller's buffer of \<open>N\<close> bytes: in every state that \<open>keeps\<close> holds of, the
  table links the chain, and reading a cluster of it puts its \<open>contents\<close> into the cluster buffer and
  touches no other memory; and \<open>keeps\<close> does not depend on the caller's buffer.
\<close>

definition serves :: "'d fat drivers \<Rightarrow> u32 \<Rightarrow> fat_file \<Rightarrow> fat_mountpoint \<Rightarrow> int list \<Rightarrow> u32 \<Rightarrow> (int \<Rightarrow> bytes) \<Rightarrow> u32 \<Rightarrow> nat \<Rightarrow>
    ('d fat vfs \<Rightarrow> bool) \<Rightarrow> bool" where
  "serves D f x v cl cb contents buffer N keeps \<longleftrightarrow> (\<forall>s. keeps s \<longrightarrow>
     fatfile s f = x \<and> volume s (ff_mount x) = v \<and>
     (\<forall>i. Suc i < length cl \<longrightarrow> fat_getFATCluster s (ff_mount x) (cl ! i) = cl ! Suc i) \<and>
     (\<forall>c \<in> set cl. \<exists>s'. fat_rwCluster D (ff_mount x) c cb FAT_READ s = Some (SUCCESS, s') \<and> keeps s' \<and>
        bytes_at (mem s') cb (nat (fm_cluster_size v)) = contents c \<and>
        (\<forall>a. nat (fm_cluster_size v) \<le> unat (a - cb) \<longrightarrow> mem s' a = mem s a)) \<and>
     (\<forall>m. (\<forall>a. N \<le> unat (a - buffer) \<longrightarrow> m a = mem s a) \<longrightarrow> keeps (set_mem m s)))"

lemma servesD:
  assumes "serves D f x v cl cb contents buffer N keeps" "keeps s"
  shows "fatfile s f = x" "volume s (ff_mount x) = v"
    "Suc i < length cl \<Longrightarrow> fat_getFATCluster s (ff_mount x) (cl ! i) = cl ! Suc i"
    "c \<in> set cl \<Longrightarrow> \<exists>s'. fat_rwCluster D (ff_mount x) c cb FAT_READ s = Some (SUCCESS, s') \<and> keeps s' \<and>
        bytes_at (mem s') cb (nat (fm_cluster_size v)) = contents c \<and>
        (\<forall>a. nat (fm_cluster_size v) \<le> unat (a - cb) \<longrightarrow> mem s' a = mem s a)"
    "(\<And>a. N \<le> unat (a - buffer) \<Longrightarrow> m a = mem s a) \<Longrightarrow> keeps (set_mem m s)"
  using assms unfolding serves_def by blast+

section \<open>One round\<close>

text \<open>The memory after a round that copies \<open>b\<close> bytes to offset \<open>k\<close> of the caller's buffer.\<close>

lemma unat_of_nat_u32: "i < 2 ^ 32 \<Longrightarrow> unat (of_nat i :: u32) = i"
  by (simp add: unat_of_nat take_bit_nat_eq_self)

lemma memcpy_outside:
  assumes "k + b \<le> N" "N < 2 ^ 32" "N \<le> unat (a - buffer)"
  shows "memcpy m (buffer + of_nat k) m' src b a = m a"
proof -
  have "k \<le> unat (a - buffer)" using assms by simp
  then have "unat (a - buffer - of_nat k) = unat (a - buffer) - k"
    using assms by (subst unat_sub) (simp_all add: word_le_nat_alt unat_of_nat_u32)
  then have "\<not> unat (a - (buffer + of_nat k)) < b" using assms by (simp add: diff_diff_eq)
  then show ?thesis by (simp add: memcpy_def)
qed

lemma memcpy_before:
  assumes "k + b \<le> N" "N < 2 ^ 32" "i < k"
  shows "memcpy m (buffer + of_nat k) m' src b (buffer + of_nat i) = m (buffer + of_nat i)"
proof -
  have "buffer + of_nat i - (buffer + of_nat k) = (of_nat i - of_nat k :: u32)" by simp
  also have "\<dots> = of_nat (2 ^ 32 + i - k)"
    using assms by (subst of_nat_diff) simp_all
  finally have eq: "unat (buffer + of_nat i - (buffer + of_nat k)) = 2 ^ 32 + i - k"
    using assms by (simp only: unat_of_nat_u32)
  have "\<not> 2 ^ 32 + i - k < b" using assms by arith
  then have "\<not> unat (buffer + of_nat i - (buffer + of_nat k)) < b" unfolding eq .
  then show ?thesis by (simp add: memcpy_def)
qed

lemma memcpy_bytes:
  assumes "b < 2 ^ 32"
  shows "bytes_at (memcpy m d m' src b) d b = bytes_at m' src b"
  unfolding bytes_at_def using assms by (auto simp: memcpy_def unat_of_nat_u32)

lemma bytes_at_append: "bytes_at m a (i + j) = bytes_at m a i @ bytes_at m (a + of_nat i) j"
proof (rule nth_equalityI)
  fix l assume "l < length (bytes_at m a (i + j))"
  then show "bytes_at m a (i + j) ! l = (bytes_at m a i @ bytes_at m (a + of_nat i) j) ! l"
    by (cases "l < i") (simp_all add: nth_append of_nat_diff add.assoc)
qed simp

text \<open>One round on a state that \<open>keeps\<close> holds of: the contents of the cluster, and the next state.\<close>

lemma read_round:
  assumes "serves D f x v cl cb contents buffer N keeps" "keeps s" "c \<in> set cl"
    "k + b \<le> N" "N < 2 ^ 31" "b \<le> nat (fm_cluster_size v)" "b < 2 ^ 31"
    "\<And>i. i < N \<Longrightarrow> nat (fm_cluster_size v) \<le> unat (buffer + of_nat i - cb)"
  shows "\<exists>s2 s3. fat_rwCluster D (ff_mount x) c cb FAT_READ s = Some (SUCCESS, s2) \<and> keeps s2 \<and> keeps s3 \<and>
    s3 = set_mem (memcpy (mem s2) (buffer + of_nat k) (mem s2) cb b) s2 \<and>
    bytes_at (mem s3) (buffer + of_nat k) b = take b (contents c) \<and>
    (\<forall>i < k. mem s3 (buffer + of_nat i) = mem s (buffer + of_nat i))"
proof -
  obtain s2 where s2: "fat_rwCluster D (ff_mount x) c cb FAT_READ s = Some (SUCCESS, s2)" "keeps s2"
    "bytes_at (mem s2) cb (nat (fm_cluster_size v)) = contents c"
    "\<And>a. nat (fm_cluster_size v) \<le> unat (a - cb) \<Longrightarrow> mem s2 a = mem s a"
    using servesD(4) [OF assms(1-3)] by blast
  let ?m = "memcpy (mem s2) (buffer + of_nat k) (mem s2) cb b"
  have N: "N < 2 ^ 32" using assms(5) by simp
  have "keeps (set_mem ?m s2)"
    by (rule servesD(5) [OF assms(1) s2(2)]) (rule memcpy_outside [OF assms(4) N])
  moreover have "bytes_at ?m (buffer + of_nat k) b = take b (contents c)"
  proof -
    have "take b (drop 0 (bytes_at (mem s2) cb (nat (fm_cluster_size v)))) = bytes_at (mem s2) (cb + of_nat 0) b"
      by (rule bytes_at_part) (use assms(6) in simp)
    then show ?thesis using memcpy_bytes [of b "mem s2" "buffer + of_nat k" "mem s2" cb] s2(3) assms(7) by simp
  qed
  moreover have "?m (buffer + of_nat i) = mem s (buffer + of_nat i)" if "i < k" for i
  proof -
    have "?m (buffer + of_nat i) = mem s2 (buffer + of_nat i)" by (rule memcpy_before [OF assms(4) N that])
    also have "\<dots> = mem s (buffer + of_nat i)" by (rule s2(4)) (rule assms(8), use that assms(4) in simp)
    finally show ?thesis .
  qed
  ultimately show ?thesis using s2(1,2) by (auto intro!: exI [of _ s2])
qed

section \<open>The loop\<close>

lemma aligned_bytes:
  fixes n :: u32
  assumes "0 < cs" "cs < 2 ^ 31" "0 \<le> pos" "pos mod cs = 0" "uint n < 2 ^ 31" "0 < uint n"
  shows "bytes_to_rw cs pos 0 n = min (uint n) cs"
proof -
  have "bytes_to_rw cs pos (pos mod cs) n =
    (if pos < cs \<and> cs < pos + min (uint n) cs then uint n - (pos + min (uint n) cs - cs) else min (uint n) cs)"
    by (rule bytes_to_rw_value [OF assms(1-3,5,6)])
  moreover have "\<not> (pos < cs \<and> cs < pos + min (uint n) cs)" 
  proof
    assume *: "pos < cs \<and> cs < pos + min (uint n) cs"
    then have "pos = 0" using assms(3,4) mod_pos_pos_trivial [of pos cs] by simp
    then show False using * by simp
  qed
  ultimately show ?thesis using assms(4) by auto
qed

lemma rest_is_zero:
  fixes n :: u32
  assumes "0 \<le> b" "b \<le> uint n" "uint n < 2 ^ 31"
  shows "(n - word_of_int b = 0) = (uint n = b)"
proof -
  have "uint (word_of_int b :: u32) = b" using assms by (simp add: uint_word_of_int_eq take_bit_int_eq_self)
  then have "(n = word_of_int b) = (uint n = b)" unfolding word_uint_eq_iff by (simp only:)
  then show ?thesis by (simp only: right_minus_eq)
qed

lemma rw_loop_round:
  fixes buffer n :: u32
  assumes "fatfile s f = x" "volume s (ff_mount x) = v" "0 < uint n" "uint n < 2 ^ 31"
    "0 < fm_cluster_size v" "fm_cluster_size v < 2 ^ 31" "0 \<le> ff_current_pos x" "ff_current_pos x mod fm_cluster_size v = 0"
    "fat_rwCluster D (ff_mount x) c cb FAT_READ s = Some (SUCCESS, s2)"
  defines "b \<equiv> min (uint n) (fm_cluster_size v)"
  defines "s3 \<equiv> set_mem (memcpy (mem s2) buffer (mem s2) cb (nat b)) s2"
  shows "rw_loop D f FAT_READ cb c buffer 0 n acc s =
    (if uint n = b then Some (acc + b, s3)
     else let c' = fat_getFATCluster s3 (ff_mount x) c in
       if c' = FAT_FREECLUSTER \<or> c' = FAIL then Some (acc + b, s3)
       else rw_loop D f FAT_READ cb c' (buffer + word_of_int b) 0 (n - word_of_int b) (acc + b) s3)"
proof -
  note b = aligned_bytes [OF assms(5-8,4,3)]
  have "0 \<le> b" "b \<le> uint n" using assms(3,5) by (simp_all add: b_def)
  then have z: "(n - word_of_int b = 0) = (uint n = b)" using assms(4) by (rule rest_is_zero)
  have modes: "(FAT_READ = FAT_WRITE) = False" "(FAT_READ = FAT_READ) = True" "(SUCCESS = FAIL) = False"
    by (simp_all add: FAT_READ_def FAT_WRITE_def)
  show ?thesis
    unfolding rw_loop.simps [of D f FAT_READ cb c buffer 0 n acc s] Let_def assms(1,2) b
      modes if_False if_True bind.bind_lunit prod.case assms(9) of_int_0 add_0_right
    unfolding b_def [symmetric] z s3_def [symmetric] by (rule refl)
qed

lemma uint_less_power: "uint w < 2 ^ k \<longleftrightarrow> unat w < 2 ^ k" for w :: u32
proof -
  have "int (unat w) < int (2 ^ k) \<longleftrightarrow> unat w < 2 ^ k" by (simp only: of_nat_less_iff)
  then show ?thesis by simp
qed

lemma uint_of_small: "0 \<le> i \<Longrightarrow> i < 2 ^ 32 \<Longrightarrow> uint (word_of_int i :: u32) = i"
  by (simp add: uint_word_of_int_eq take_bit_int_eq_self)

lemma unat_of_small: "0 \<le> i \<Longrightarrow> i < 2 ^ 32 \<Longrightarrow> unat (word_of_int i :: u32) = nat i"
  unfolding unat_eq_nat_uint by (subst uint_of_small) simp_all

text \<open>
  The loop from cluster \<open>j\<close> of the chain on, with \<open>k\<close> bytes already in the caller's buffer and \<open>n\<close>
  to come, which need all the clusters that are left.
\<close>

lemma rw_loop_chain:
  fixes buffer n :: u32
  assumes srv: "serves D f x v cl cb contents buffer N keeps"
    and cs: "0 < fm_cluster_size v" "fm_cluster_size v < 2 ^ 31"
    and pos: "0 \<le> ff_current_pos x" "ff_current_pos x mod fm_cluster_size v = 0"
    and N: "N < 2 ^ 31" and apart: "\<And>i. i < N \<Longrightarrow> nat (fm_cluster_size v) \<le> unat (buffer + of_nat i - cb)"
    and linked: "\<And>i. 0 < i \<Longrightarrow> i < length cl \<Longrightarrow> cl ! i \<noteq> FAT_FREECLUSTER \<and> cl ! i \<noteq> FAIL"
    and len: "\<And>c. c \<in> set cl \<Longrightarrow> length (contents c) = nat (fm_cluster_size v)"
  shows "keeps s \<Longrightarrow> j + Suc left = length cl \<Longrightarrow> k + unat n = N \<Longrightarrow>
    int left * fm_cluster_size v < uint n \<Longrightarrow> uint n \<le> (int left + 1) * fm_cluster_size v \<Longrightarrow>
    \<exists>s'. rw_loop D f FAT_READ cb (cl ! j) (buffer + of_nat k) 0 n acc s = Some (acc + uint n, s') \<and> keeps s' \<and>
      bytes_at (mem s') (buffer + of_nat k) (unat n) = take (unat n) (concat (map contents (drop j cl))) \<and>
      (\<forall>i < k. mem s' (buffer + of_nat i) = mem s (buffer + of_nat i))"
proof (induction left arbitrary: j k n acc s)
  case 0
  let ?b = "unat n"
  have un: "int (unat n) = uint n" by simp
  have n: "0 < uint n" "uint n \<le> fm_cluster_size v" "uint n < 2 ^ 31" using 0 cs by simp_all
  have c: "cl ! j \<in> set cl" "drop j cl = [cl ! j]" using "0.prems"(2) by (simp_all add: Cons_nth_drop_Suc [symmetric])
  have b: "unat n \<le> nat (fm_cluster_size v)" "unat n < 2 ^ 31" "k + unat n \<le> N" using n un "0.prems"(3) N by linarith+
  obtain s2 s3 where r: "fat_rwCluster D (ff_mount x) (cl ! j) cb FAT_READ s = Some (SUCCESS, s2)" "keeps s3"
    "s3 = set_mem (memcpy (mem s2) (buffer + of_nat k) (mem s2) cb (unat n)) s2"
    "bytes_at (mem s3) (buffer + of_nat k) (unat n) = take (unat n) (contents (cl ! j))"
    "\<forall>i < k. mem s3 (buffer + of_nat i) = mem s (buffer + of_nat i)"
    using read_round [OF srv "0.prems"(1) c(1) b(3) N b(1,2) apart] by blast
  have m: "min (uint n) (fm_cluster_size v) = uint n" using n by simp
  have "rw_loop D f FAT_READ cb (cl ! j) (buffer + of_nat k) 0 n acc s = Some (acc + uint n, s3)"
    using rw_loop_round [OF servesD(1,2) [OF srv "0.prems"(1)] n(1,3) cs pos r(1), of "buffer + of_nat k" acc]
    unfolding m by (simp add: r(3))
  then show ?case using r(2,4,5) c(2) by simp
next
  case (Suc left)
  define b where "b = nat (fm_cluster_size v)"
  have un: "int (unat n) = uint n" and ib: "int b = fm_cluster_size v" using cs by (simp_all add: b_def)
  have "fm_cluster_size v \<le> int (Suc left) * fm_cluster_size v" using cs by (simp add: mult_le_cancel_right1)
  moreover have "unat n < 2 ^ 31" using Suc.prems(3) N by linarith
  then have "uint n < 2 ^ 31" unfolding uint_less_power .
  ultimately have n: "fm_cluster_size v < uint n" "uint n < 2 ^ 31"
    using Suc.prems(4) by linarith+
  have n0: "0 < uint n" using n cs by simp
  have j: "j < length cl" "Suc j < length cl" "Suc j + Suc left = length cl" using Suc.prems(2) by simp_all
  have bn: "b \<le> unat n" using n(1) un ib by linarith
  then have bb: "b \<le> nat (fm_cluster_size v)" "b < 2 ^ 31" "k + b \<le> N"
    using Suc.prems(3) N unfolding b_def by linarith+
  obtain s2 s3 where r: "fat_rwCluster D (ff_mount x) (cl ! j) cb FAT_READ s = Some (SUCCESS, s2)" "keeps s3"
    "s3 = set_mem (memcpy (mem s2) (buffer + of_nat k) (mem s2) cb b) s2"
    "bytes_at (mem s3) (buffer + of_nat k) b = take b (contents (cl ! j))"
    "\<forall>i < k. mem s3 (buffer + of_nat i) = mem s (buffer + of_nat i)"
    using read_round [OF srv Suc.prems(1) nth_mem [OF j(1)] bb(3) N bb(1,2) apart] by blast
  have m: "min (uint n) (fm_cluster_size v) = int b" "(uint n = int b) = False" using n ib by simp_all
  have next_c: "fat_getFATCluster s3 (ff_mount x) (cl ! j) = cl ! Suc j" by (rule servesD(3) [OF srv r(2) j(2)])
  let ?n = "n - of_nat b"
  have wb: "unat (of_nat b :: u32) = b" using bb(2) by (simp add: unat_of_nat_u32)
  have n': "unat ?n = unat n - b" using bn by (subst unat_sub) (simp_all add: word_le_nat_alt wb)
  have un': "uint ?n = uint n - fm_cluster_size v" using n' bn un ib by (metis of_nat_diff uint_nat)
  have step: "rw_loop D f FAT_READ cb (cl ! j) (buffer + of_nat k) 0 n acc s =
      rw_loop D f FAT_READ cb (cl ! Suc j) (buffer + of_nat (k + b)) 0 ?n (acc + int b) s3"
    using rw_loop_round [OF servesD(1,2) [OF srv Suc.prems(1)] n0 n(2) cs pos r(1), of "buffer + of_nat k" acc]
      linked [of "Suc j"] j(2)
    unfolding m nat_int r(3) [symmetric] next_c Let_def by (simp add: add.assoc)
  have "k + b + unat ?n = N" using n' bn Suc.prems(3) by simp
  moreover have "int left * fm_cluster_size v < uint ?n" "uint ?n \<le> (int left + 1) * fm_cluster_size v"
    using Suc.prems(4,5) unfolding un' by (simp_all add: algebra_simps)
  ultimately obtain s' where s': "rw_loop D f FAT_READ cb (cl ! Suc j) (buffer + of_nat (k + b)) 0 ?n (acc + int b) s3
      = Some (acc + int b + uint ?n, s')" "keeps s'"
    "bytes_at (mem s') (buffer + of_nat (k + b)) (unat ?n) = take (unat ?n) (concat (map contents (drop (Suc j) cl)))"
    "\<forall>i < k + b. mem s' (buffer + of_nat i) = mem s3 (buffer + of_nat i)"
    using Suc.IH [OF r(2) j(3), of "k + b" ?n "acc + int b"] by blast
  have first: "bytes_at (mem s') (buffer + of_nat k) b = contents (cl ! j)"
  proof -
    have "bytes_at (mem s') (buffer + of_nat k) b = bytes_at (mem s3) (buffer + of_nat k) b"
      by (rule le_bytes_at_cong) (use s'(4) [rule_format, of "k + _"] in \<open>simp add: add.assoc\<close>)
    then show ?thesis using r(4) len [OF nth_mem [OF j(1)]] by (simp add: b_def)
  qed
  have "bytes_at (mem s') (buffer + of_nat k) (unat n) =
      bytes_at (mem s') (buffer + of_nat k) b @ bytes_at (mem s') (buffer + of_nat (k + b)) (unat ?n)"
  proof -
    have "unat n = b + unat ?n" using n' bn by simp
    then show ?thesis by (simp add: bytes_at_append add.assoc)
  qed
  also have "\<dots> = take (unat n) (concat (map contents (drop j cl)))"
    unfolding first s'(3) using len [OF nth_mem [OF j(1)]] n' bn
    by (simp add: Cons_nth_drop_Suc [OF j(1), symmetric] b_def)
  finally show ?case using s' step r(5) un' ib by (intro exI [of _ s']) simp
qed

section \<open>Reading\<close>

lemma sdiv_aligned:
  assumes "0 \<le> pos" "pos < 2 ^ 31" "0 < cs" "pos mod cs = 0"
  shows "quot pos cs = Some (pos div cs)" "pos smod cs = 0" "unat (word_of_int (pos div cs) :: u32) = nat (pos div cs)"
proof -
  have d: "pos sdiv cs = pos div cs" "pos smod cs = 0" "0 \<le> pos div cs"
    using assms by (simp_all add: signed_divide_int_def signed_modulo_int_def sgn_if pos_imp_zdiv_nonneg_iff)
  have "pos div cs \<le> pos" using assms zdiv_mono2 [of pos 1 cs] by simp
  moreover have "(2 :: int) ^ 31 < 2 ^ 32" by simp
  ultimately have "pos div cs < 2 ^ 32" using assms(2) by linarith
  then show "quot pos cs = Some (pos div cs)" "pos smod cs = 0" "unat (word_of_int (pos div cs) :: u32) = nat (pos div cs)"
    using assms(3) d by (simp_all add: quot_def unat_of_small)
qed

lemma not_past:
  fixes n size :: u32
  assumes "0 \<le> pos" "pos + uint n \<le> uint size" "uint size < 2 ^ 31"
  shows "(word_of_int pos + n > size) = False" "wrap32 (pos + uint n) = pos + uint n" "(word_of_int (pos + uint n) > size) = False"
proof -
  have n: "0 \<le> uint n" by simp
  have s: "0 \<le> pos + uint n" "pos + uint n < 2 ^ 31" using assms n by linarith+
  moreover have "(2 :: int) ^ 31 < 2 ^ 32" by simp
  ultimately have "uint (word_of_int (pos + uint n) :: u32) = pos + uint n" by (intro uint_of_small) linarith+
  then show 1: "(word_of_int (pos + uint n) > size) = False" using assms(2) by (simp add: word_less_def)
  moreover have "word_of_int pos + n = word_of_int (pos + uint n)" by simp
  ultimately show "(word_of_int pos + n > size) = False" by (simp only:)
  show "wrap32 (pos + uint n) = pos + uint n" using s by (rule wrap32_small)
qed

lemma fat_read_chain:
  fixes n buffer :: u32 and s :: "'d fat vfs"
  assumes "h_data_ptr (handle_heap s h) = f" "f \<noteq> NULL" "position_ok x"
    "fatfile s f = x" "volume s (ff_mount x) = v" "fm_cluster_size v = cs"
    "0 < cs" "cs < 2 ^ 31" "ff_current_pos x mod cs = 0" "0 < uint n" "ff_current_pos x + uint n \<le> uint (e_file_size (ff_entry x))"
    "follow s (ff_mount x) (uint (e_start_cluster (ff_entry x))) (nat (ff_current_pos x div cs)) = c" "cl = c # cs'"
    "\<forall>i < length cl. cl ! i \<noteq> FAIL \<and> (0 < i \<longrightarrow> cl ! i \<noteq> FAT_FREECLUSTER)" "\<forall>c \<in> set cl. length (contents c) = nat cs"
    "int (length cs') * cs < uint n" "uint n \<le> int (length cl) * cs"
    "kmalloc (nat cs) s = (cb, s1)" "keeps s1" "serves D f x v cl cb contents buffer (unat n) keeps"
    "\<forall>i < unat n. nat cs \<le> unat (buffer + of_nat i - cb)"
  shows "\<exists>s'. fat_read D h buffer n s = Some (uint n, s') \<and>
    bytes_at (mem s') buffer (unat n) = take (unat n) (concat (map contents cl)) \<and>
    fatfile s' f = x\<lparr>ff_current_pos := ff_current_pos x + uint n\<rparr>"
proof -
  let ?pos = "ff_current_pos x" and ?size = "e_file_size (ff_entry x)"
  have pos: "0 \<le> ?pos" "uint ?size < 2 ^ 31" using assms(3) by (simp_all add: position_ok_def)
  have small: "uint n < 2 ^ 31" "?pos < 2 ^ 31" "?pos + uint n < 2 ^ 31" using pos assms(10,11) by linarith+
  have un: "unat n < 2 ^ 31" using small(1) unfolding uint_less_power .
  note start = sdiv_aligned [OF pos(1) small(2) assms(7,9)]
  note inside = not_past [OF pos(1) assms(11) pos(2)]
  have modes: "(FAT_READ = FAT_WRITE) = False" by (simp add: FAT_READ_def FAT_WRITE_def)
  have c: "cl ! 0 = c" "c \<noteq> FAIL" "length cl = Suc (length cs')" using assms(13,14) by auto
  have clusters: "int (length cs') * fm_cluster_size v < uint n" "uint n \<le> (int (length cs') + 1) * fm_cluster_size v"
    using assms(16,17) c(3) by (simp_all add: assms(6) algebra_simps)
  have "\<exists>s2. rw_loop D f FAT_READ cb (cl ! 0) (buffer + of_nat 0) 0 n 0 s1 = Some (0 + uint n, s2) \<and> keeps s2 \<and>
      bytes_at (mem s2) (buffer + of_nat 0) (unat n) = take (unat n) (concat (map contents (drop 0 cl))) \<and>
      (\<forall>i < 0. mem s2 (buffer + of_nat i) = mem s1 (buffer + of_nat i))"
    by (rule rw_loop_chain [OF assms(20) assms(7,8) [folded assms(6)] pos(1) assms(9) [folded assms(6)] un _ _ _ assms(19) _ _ clusters])
      (use assms(14,15,21) c(3) in \<open>auto simp: assms(6)\<close>)
  then obtain s2 where s2: "rw_loop D f FAT_READ cb c buffer 0 n 0 s1 = Some (uint n, s2)" "keeps s2"
    "bytes_at (mem s2) buffer (unat n) = take (unat n) (concat (map contents cl))" unfolding c(1) by auto
  have x2: "fatfile s2 f = x" by (rule servesD(1) [OF assms(20) s2(2)])
  let ?s = "set_file f (\<lambda>x. x\<lparr>ff_current_pos := wrap32 (ff_current_pos x + uint n)\<rparr>) (kfree cb s2)"
  have "fat_read D h buffer n s = Some (uint n, ?s)"
    unfolding fat_read_def fat_rw_def Let_def assms(1,4,5,6) start bind.bind_lunit
      assms(12) modes simp_thms if_False if_True prod.case assms(18) s2(1) inside(1)
    using assms(2) c(2) by simp
  moreover have "bytes_at (mem ?s) buffer (unat n) = take (unat n) (concat (map contents cl))"
    using s2(3) by (simp add: mem_def set_file_def kfree_def)
  moreover have "fatfile ?s f = x\<lparr>ff_current_pos := ?pos + uint n\<rparr>"
    using x2 inside(2) by (simp add: fatfile_def set_file_def kfree_def)
  ultimately show ?thesis by blast
qed

end
