(* ===== verification/FatStore.thy ===== *)
theory FatStore
  imports FatReadProps
begin

text \<open>
  What the properties of reading and writing files of a FAT volume rely on: a device that stores
  sectors, reached through the switch. On such a device the transfers of clusters (\<open>fat_rwCluster\<close>) store
  clusters, as long as a cluster has one or two sectors.
\<close>

section \<open>A device that stores clusters\<close>

text \<open>
  Two states with the same volumes, device, drivers and handles, that agree on a part of the memory;
  open files and the heap may differ. And two with the same files, handles and heap.
\<close>

definition agree :: "u32 set \<Rightarrow> 'd fat vfs \<Rightarrow> 'd fat vfs \<Rightarrow> bool" where
  "agree fixed s s' \<longleftrightarrow> (\<forall>a \<in> fixed. mem s' a = mem s a) \<and> volume s' = volume s \<and> device (world s') = device (world s) \<and>
     fs_heap s' = fs_heap s \<and> mp_heap s' = mp_heap s \<and> handle_heap s' = handle_heap s"

definition same_files :: "'d fat vfs \<Rightarrow> 'd fat vfs \<Rightarrow> bool" where
  "same_files s s' \<longleftrightarrow> fatfile s' = fatfile s \<and> handle_heap s' = handle_heap s \<and> pool s' = pool s"

text \<open>
  What the transfers rely on, for a volume \<open>v\<close> at \<open>mount\<close>, the clusters \<open>cl\<close> of a file, and the addresses
  \<open>B\<close> of the buffers the kernel heap hands out. In every state that \<open>keeps\<close> holds of, the table links
  the clusters, reading a cluster delivers its \<open>contents\<close> and writing one replaces them; \<open>keeps\<close> and
  the contents are the same in states that agree on the memory \<open>fixed\<close>.
\<close>

definition stores_clusters :: "'d fat drivers \<Rightarrow> u32 \<Rightarrow> fat_mountpoint \<Rightarrow> int list \<Rightarrow> u32 set \<Rightarrow> u32 set \<Rightarrow>
    ('d fat vfs \<Rightarrow> int \<Rightarrow> bytes) \<Rightarrow> ('d fat vfs \<Rightarrow> bool) \<Rightarrow> bool" where
  "stores_clusters D mount v cl B fixed contents keeps \<longleftrightarrow>
     (\<forall>s. keeps s \<longrightarrow> volume s mount = v \<and>
       (\<forall>i. Suc i < length cl \<longrightarrow> fat_getFATCluster s mount (cl ! i) = cl ! Suc i) \<and>
       (\<forall>c \<in> set cl. length (contents s c) = nat (fm_cluster_size v) \<and> (\<forall>cb \<in> B.
         (\<exists>s'. fat_rwCluster D mount c cb FAT_READ s = Some (SUCCESS, s') \<and> keeps s' \<and> same_files s s' \<and> contents s' = contents s \<and>
            bytes_at (mem s') cb (nat (fm_cluster_size v)) = contents s c \<and>
            (\<forall>a. nat (fm_cluster_size v) \<le> unat (a - cb) \<longrightarrow> mem s' a = mem s a)) \<and>
         (\<exists>s'. fat_rwCluster D mount c cb FAT_WRITE s = Some (SUCCESS, s') \<and> keeps s' \<and> same_files s s' \<and>
            contents s' = (contents s)(c := bytes_at (mem s) cb (nat (fm_cluster_size v))) \<and> mem s' = mem s))) \<and>
       (\<forall>s'. agree fixed s s' \<longrightarrow> keeps s' \<and> contents s' = contents s))"

lemma storesD:
  assumes "stores_clusters D mount v cl B fixed contents keeps" "keeps s"
  shows "volume s mount = v" "Suc i < length cl \<Longrightarrow> fat_getFATCluster s mount (cl ! i) = cl ! Suc i"
    "c \<in> set cl \<Longrightarrow> length (contents s c) = nat (fm_cluster_size v)"
    "c \<in> set cl \<Longrightarrow> cb \<in> B \<Longrightarrow> \<exists>s'. fat_rwCluster D mount c cb FAT_READ s = Some (SUCCESS, s') \<and> keeps s' \<and> same_files s s' \<and>
        contents s' = contents s \<and> bytes_at (mem s') cb (nat (fm_cluster_size v)) = contents s c \<and>
        (\<forall>a. nat (fm_cluster_size v) \<le> unat (a - cb) \<longrightarrow> mem s' a = mem s a)"
    "c \<in> set cl \<Longrightarrow> cb \<in> B \<Longrightarrow> \<exists>s'. fat_rwCluster D mount c cb FAT_WRITE s = Some (SUCCESS, s') \<and> keeps s' \<and> same_files s s' \<and>
        contents s' = (contents s)(c := bytes_at (mem s) cb (nat (fm_cluster_size v))) \<and> mem s' = mem s"
    "agree fixed s s' \<Longrightarrow> keeps s' \<and> contents s' = contents s"
  using assms unfolding stores_clusters_def by blast+

lemma same_files_trans: "same_files s s1 \<Longrightarrow> same_files s1 s2 \<Longrightarrow> same_files s s2"
  by (simp add: same_files_def)

lemma agree_mem: "(\<And>a. a \<in> fixed \<Longrightarrow> m a = mem s a) \<Longrightarrow> agree fixed s (set_mem m s)"
  and same_files_mem: "same_files s (set_mem m s)"
  and agree_file: "agree fixed s (set_file f F s)"
  and agree_kfree: "agree fixed s (kfree a s)"
  by (simp_all add: agree_def same_files_def mem_def volume_def set_file_def fatfile_def kfree_def set_mem_def)

lemma agree_kmalloc: "kmalloc n s = (a, s') \<Longrightarrow> agree fixed s s'"
  by (auto simp: kmalloc_def agree_def mem_def volume_def split: if_splits list.splits)

section \<open>A device that stores sectors\<close>

text \<open>
  The laws of the device behind the handle \<open>dev\<close>, for sectors of \<open>bps\<close> bytes with the numbers \<open>K\<close> and for
  sector buffers at the addresses \<open>B\<close>. Seeking to where FAT looks for sector \<open>k\<close> makes \<open>k\<close> the position;
  reading delivers the sector at the position, writing replaces it, and both move to the next one.
  Nothing else is touched, and only the memory \<open>fixed\<close> matters.
\<close>

definition stores_sectors :: "'d fat drivers \<Rightarrow> u32 \<Rightarrow> nat \<Rightarrow> int set \<Rightarrow> u32 set \<Rightarrow> u32 set \<Rightarrow>
    ('d fat vfs \<Rightarrow> int \<Rightarrow> bytes) \<Rightarrow> ('d fat vfs \<Rightarrow> int) \<Rightarrow> ('d fat vfs \<Rightarrow> bool) \<Rightarrow> bool" where
  "stores_sectors D dev bps K B fixed sec pos keeps \<longleftrightarrow> (\<forall>s. keeps s \<longrightarrow>
     (\<forall>k \<in> K. length (sec s k) = bps \<and>
       (\<exists>r s'. vfs_seek D dev (word_of_int (k * int bps + 1)) VFS_SEEK_START s = Some (r, s') \<and> r \<noteq> FAIL \<and> keeps s' \<and>
          pos s' = k \<and> same_files s s' \<and> sec s' = sec s \<and> mem s' = mem s)) \<and>
     (\<forall>a \<in> B. pos s \<in> K \<longrightarrow>
       (\<exists>r s'. vfs_read D dev a (of_nat bps) s = Some (r, s') \<and> r \<noteq> FAIL \<and> keeps s' \<and> pos s' = pos s + 1 \<and> same_files s s' \<and>
          sec s' = sec s \<and> bytes_at (mem s') a bps = sec s (pos s) \<and> (\<forall>b. bps \<le> unat (b - a) \<longrightarrow> mem s' b = mem s b)) \<and>
       (\<exists>r s'. vfs_write D dev a (of_nat bps) s = Some (r, s') \<and> r \<noteq> FAIL \<and> keeps s' \<and> pos s' = pos s + 1 \<and> same_files s s' \<and>
          sec s' = (sec s)(pos s := bytes_at (mem s) a bps) \<and> mem s' = mem s)) \<and>
     (\<forall>s'. agree fixed s s' \<longrightarrow> keeps s' \<and> sec s' = sec s \<and> pos s' = pos s))"

lemma sectorsD:
  assumes "stores_sectors D dev bps K B fixed sec pos keeps" "keeps s"
  shows "k \<in> K \<Longrightarrow> length (sec s k) = bps"
    "k \<in> K \<Longrightarrow> \<exists>r s'. vfs_seek D dev (word_of_int (k * int bps + 1)) VFS_SEEK_START s = Some (r, s') \<and> r \<noteq> FAIL \<and> keeps s' \<and>
        pos s' = k \<and> same_files s s' \<and> sec s' = sec s \<and> mem s' = mem s"
    "a \<in> B \<Longrightarrow> pos s \<in> K \<Longrightarrow> \<exists>r s'. vfs_read D dev a (of_nat bps) s = Some (r, s') \<and> r \<noteq> FAIL \<and> keeps s' \<and> pos s' = pos s + 1 \<and>
        same_files s s' \<and> sec s' = sec s \<and> bytes_at (mem s') a bps = sec s (pos s) \<and> (\<forall>b. bps \<le> unat (b - a) \<longrightarrow> mem s' b = mem s b)"
    "a \<in> B \<Longrightarrow> pos s \<in> K \<Longrightarrow> \<exists>r s'. vfs_write D dev a (of_nat bps) s = Some (r, s') \<and> r \<noteq> FAIL \<and> keeps s' \<and> pos s' = pos s + 1 \<and>
        same_files s s' \<and> sec s' = (sec s)(pos s := bytes_at (mem s) a bps) \<and> mem s' = mem s"
    "agree fixed s s' \<Longrightarrow> keeps s' \<and> sec s' = sec s \<and> pos s' = pos s"
  using assms unfolding stores_sectors_def by blast+

text \<open>
  The volume \<open>v\<close> at \<open>mount\<close>: clusters of one or two sectors, cluster \<open>c\<close> from sector \<open>b0 + spc * c\<close> on, and the
  table links the clusters \<open>cl\<close>.
\<close>

definition fat_layout :: "u32 \<Rightarrow> fat_mountpoint \<Rightarrow> int list \<Rightarrow> int \<Rightarrow> nat \<Rightarrow> nat \<Rightarrow> ('d fat vfs \<Rightarrow> bool) \<Rightarrow> bool" where
  "fat_layout mount v cl b0 spc bps keeps \<longleftrightarrow> bps < 2 ^ 16 \<and> (spc = 1 \<or> spc = 2) \<and> fm_cluster_size v = int (spc * bps) \<and>
     (\<forall>t. keeps t \<longrightarrow> volume t mount = v \<and> boot t mount sectors_per_cluster = int spc \<and> boot t mount bytes_per_sector = int bps \<and>
       (\<forall>c \<in> set cl. fat_cluster2block t mount c = Some (b0 + int spc * c)) \<and>
       (\<forall>i. Suc i < length cl \<longrightarrow> fat_getFATCluster t mount (cl ! i) = cl ! Suc i))"

definition cluster_sectors :: "int \<Rightarrow> nat \<Rightarrow> int \<Rightarrow> int list" where
  "cluster_sectors b0 spc c = map (\<lambda>i. b0 + int spc * c + int i) [0..<spc]"

definition cluster_bytes :: "('d fat vfs \<Rightarrow> int \<Rightarrow> bytes) \<Rightarrow> int \<Rightarrow> nat \<Rightarrow> 'd fat vfs \<Rightarrow> int \<Rightarrow> bytes" where
  "cluster_bytes sec b0 spc s c = concat (map (sec s) (cluster_sectors b0 spc c))"

section \<open>The transfers of one cluster\<close>

lemma rw_sectors_one:
  assumes "boot s mount sectors_per_cluster = 1" "boot s' mount sectors_per_cluster = 1" "r \<noteq> FAIL"
    "vfs_rw (fm_device (volume s mount)) cb (word_of_int (boot s mount bytes_per_sector)) s = Some (r, s')"
  shows "rw_sectors vfs_rw mount cb 256 s = Some (SUCCESS, s')"
proof -
  have e: "(256 :: nat) = Suc (Suc 254)" by simp
  show ?thesis unfolding e rw_sectors.simps Let_def using assms by simp
qed

lemma rw_sectors_two:
  assumes "boot s mount sectors_per_cluster = 2" "boot s1 mount sectors_per_cluster = 2" "boot s2 mount sectors_per_cluster = 2"
    "vfs_rw (fm_device (volume s mount)) cb (word_of_int (boot s mount bytes_per_sector)) s = Some (r, s1)" "r \<noteq> FAIL"
    "vfs_rw (fm_device (volume s1 mount)) (cb + word_of_int (boot s1 mount bytes_per_sector)) (word_of_int (boot s1 mount bytes_per_sector)) s1
      = Some (r', s2)" "r' \<noteq> FAIL"
  shows "rw_sectors vfs_rw mount cb 256 s = Some (SUCCESS, s2)"
proof -
  have e: "(256 :: nat) = Suc (Suc (Suc 253))" by simp
  show ?thesis unfolding e rw_sectors.simps Let_def using assms by simp
qed

text \<open>The sectors of the clusters and the sector buffers of the cluster buffers \<open>C\<close> are there.\<close>

definition has_room :: "nat \<Rightarrow> nat \<Rightarrow> int \<Rightarrow> int list \<Rightarrow> int set \<Rightarrow> u32 set \<Rightarrow> u32 set \<Rightarrow> bool" where
  "has_room spc bps b0 cl K B C \<longleftrightarrow> (\<forall>c \<in> set cl. set (cluster_sectors b0 spc c) \<subseteq> K) \<and>
     (\<forall>cb \<in> C. cb \<in> B \<and> (spc = 2 \<longrightarrow> cb + of_nat bps \<in> B))"

lemma cluster_sectors_simps:
  "cluster_sectors b0 1 c = [b0 + c]" "cluster_sectors b0 2 c = [b0 + 2 * c, b0 + 2 * c + 1]"
proof -
  have "[0..<2] = [0, 1]" by (simp add: upt_rec)
  then show "cluster_sectors b0 1 c = [b0 + c]" "cluster_sectors b0 2 c = [b0 + 2 * c, b0 + 2 * c + 1]"
    by (simp_all add: cluster_sectors_def)
qed

lemma roomD:
  assumes "has_room spc bps b0 cl K B C" "spc = 1 \<or> spc = 2"
  shows "c \<in> set cl \<Longrightarrow> b0 + int spc * c \<in> K" "c \<in> set cl \<Longrightarrow> spc = 2 \<Longrightarrow> b0 + int spc * c + 1 \<in> K"
    "cb \<in> C \<Longrightarrow> cb \<in> B" "cb \<in> C \<Longrightarrow> spc = 2 \<Longrightarrow> cb + of_nat bps \<in> B"
proof -
  have room: "\<forall>c \<in> set cl. set (cluster_sectors b0 spc c) \<subseteq> K" "\<forall>cb \<in> C. cb \<in> B \<and> (spc = 2 \<longrightarrow> cb + of_nat bps \<in> B)"
    using assms(1) unfolding has_room_def by blast+
  show "b0 + int spc * c \<in> K" if "c \<in> set cl"
    using assms(2)
  proof
    assume one: "spc = 1" show ?thesis using bspec [OF room(1) that] unfolding one cluster_sectors_simps by simp
  next
    assume two: "spc = 2" show ?thesis using bspec [OF room(1) that] unfolding two cluster_sectors_simps by simp
  qed
  show "b0 + int spc * c + 1 \<in> K" if "c \<in> set cl" "spc = 2"
    using bspec [OF room(1) that(1)] unfolding that(2) cluster_sectors_simps by simp
  show "cb \<in> B" if "cb \<in> C" using room(2) that by blast
  show "cb + of_nat bps \<in> B" if "cb \<in> C" "spc = 2" using room(2) that by blast
qed

lemma rwCluster_seek:
  assumes "stores_sectors D (fm_device v) bps K B fixed sec pos keeps" "fat_layout mount v cl b0 spc bps keeps" "keeps s" "c \<in> set cl"
    "b0 + int spc * c \<in> K" "mode \<in> {FAT_READ, FAT_WRITE}"
  shows "\<exists>s0. fat_rwCluster D mount c cb mode s = rw_sectors (if mode = FAT_READ then vfs_read D else vfs_write D) mount cb 256 s0 \<and>
    keeps s0 \<and> pos s0 = b0 + int spc * c \<and> same_files s s0 \<and> sec s0 = sec s \<and> mem s0 = mem s"
proof -
  have lay: "volume s mount = v" "boot s mount bytes_per_sector = int bps" "fat_cluster2block s mount c = Some (b0 + int spc * c)"
    using assms(2-4) by (simp_all add: fat_layout_def)
  obtain r s0 where s0: "vfs_seek D (fm_device v) (word_of_int ((b0 + int spc * c) * int bps + 1)) VFS_SEEK_START s = Some (r, s0)" "r \<noteq> FAIL"
    "keeps s0" "pos s0 = b0 + int spc * c" "same_files s s0" "sec s0 = sec s" "mem s0 = mem s"
    using sectorsD(2) [OF assms(1,3,5)] by blast
  have "fat_rwCluster D mount c cb mode s = rw_sectors (if mode = FAT_READ then vfs_read D else vfs_write D) mount cb 256 s0"
    using assms(6) s0(1,2) by (simp add: fat_rwCluster_def lay) blast
  then show ?thesis using s0(3-7) by blast
qed

lemma far_behind:
  fixes a b :: u32
  assumes "2 * k \<le> unat (b - a)" "k < 2 ^ 16"
  shows "k \<le> unat (b - a)" "k \<le> unat (b - (a + of_nat k))"
proof -
  show "k \<le> unat (b - a)" using assms(1) by simp
  have e: "b - (a + of_nat k) = (b - a) - of_nat k" by simp
  have "unat ((b - a) - of_nat k) = unat (b - a) - k"
    using assms by (subst unat_sub) (simp_all add: word_le_nat_alt unat_of_nat_u32)
  then show "k \<le> unat (b - (a + of_nat k))" unfolding e using assms(1) by simp
qed

lemma just_before:
  fixes a :: u32
  assumes "i < k" "k < 2 ^ 16"
  shows "k \<le> unat (a + of_nat i - (a + of_nat k))"
proof -
  have "a + of_nat i - (a + of_nat k) = (of_nat i - of_nat k :: u32)" by simp
  also have "\<dots> = of_nat (2 ^ 32 + i - k)" using assms by (subst of_nat_diff) simp_all
  finally have e: "a + of_nat i - (a + of_nat k) = of_nat (2 ^ 32 + i - k)" .
  have "2 ^ 32 + i - k < 2 ^ 32" using assms by simp
  then show ?thesis unfolding e unat_of_nat_u32 [OF \<open>2 ^ 32 + i - k < 2 ^ 32\<close>] using assms by simp
qed

lemma cluster_read:
  assumes st: "stores_sectors D (fm_device v) bps K B fixed sec pos keeps" and lay: "fat_layout mount v cl b0 spc bps keeps"
    and room: "has_room spc bps b0 cl K B C" and s: "keeps s" "c \<in> set cl" "cb \<in> C"
  shows "\<exists>s'. fat_rwCluster D mount c cb FAT_READ s = Some (SUCCESS, s') \<and> keeps s' \<and> same_files s s' \<and> sec s' = sec s \<and>
    bytes_at (mem s') cb (spc * bps) = cluster_bytes sec b0 spc s c \<and> (\<forall>a. spc * bps \<le> unat (a - cb) \<longrightarrow> mem s' a = mem s a)"
proof -
  let ?k = "b0 + int spc * c"
  have geo: "boot t mount sectors_per_cluster = int spc" "boot t mount bytes_per_sector = int bps" "volume t mount = v" if "keeps t" for t
    using lay that by (simp_all add: fat_layout_def)
  have spc: "spc = 1 \<or> spc = 2" and bps: "bps < 2 ^ 16" using lay by (simp_all add: fat_layout_def)
  note k = roomD(1) [OF room spc s(2)] roomD(2) [OF room spc s(2)] roomD(3,4) [OF room spc s(3)]
  obtain s0 where s0: "fat_rwCluster D mount c cb FAT_READ s = rw_sectors (vfs_read D) mount cb 256 s0" "keeps s0" "pos s0 = ?k"
    "same_files s s0" "sec s0 = sec s" "mem s0 = mem s"
    using rwCluster_seek [OF st lay s(1,2) k(1), of FAT_READ cb] by auto
  obtain r s1 where s1: "vfs_read D (fm_device v) cb (of_nat bps) s0 = Some (r, s1)" "r \<noteq> FAIL" "keeps s1" "pos s1 = ?k + 1" "same_files s0 s1"
    "sec s1 = sec s0" "bytes_at (mem s1) cb bps = sec s0 ?k" "\<forall>b. bps \<le> unat (b - cb) \<longrightarrow> mem s1 b = mem s0 b"
    using sectorsD(3) [OF st s0(2) k(3), unfolded s0(3), OF k(1)] by blast
  show ?thesis
  proof (cases "spc = 1")
    case True
    have "rw_sectors (vfs_read D) mount cb 256 s0 = Some (SUCCESS, s1)"
      by (rule rw_sectors_one [OF _ _ s1(2)]) (use s1(1) True in \<open>simp_all add: geo s0(2) s1(3)\<close>)
    moreover have "cluster_bytes sec b0 spc s c = sec s ?k" unfolding cluster_bytes_def True cluster_sectors_simps by simp
    ultimately show ?thesis using True s0(1,5,6) s1(3,6,7,8) same_files_trans [OF s0(4) s1(5)] by (intro exI [of _ s1]) simp
  next
    case False
    then have two: "spc = 2" using spc by simp
    obtain r' s2 where s2: "vfs_read D (fm_device v) (cb + of_nat bps) (of_nat bps) s1 = Some (r', s2)" "r' \<noteq> FAIL" "keeps s2" "same_files s1 s2"
      "sec s2 = sec s1" "bytes_at (mem s2) (cb + of_nat bps) bps = sec s1 (?k + 1)"
      "\<forall>b. bps \<le> unat (b - (cb + of_nat bps)) \<longrightarrow> mem s2 b = mem s1 b"
      using sectorsD(3) [OF st s1(3) k(4) [OF two], unfolded s1(4), OF k(2) [OF two]] by blast
    have "rw_sectors (vfs_read D) mount cb 256 s0 = Some (SUCCESS, s2)"
      by (rule rw_sectors_two [where ?s1.0 = s1, OF _ _ _ _ s1(2) _ s2(2)]) (use s1(1) s2(1) two in \<open>simp_all add: geo s0(2) s1(3) s2(3)\<close>)
    moreover have "bytes_at (mem s2) cb bps = bytes_at (mem s1) cb bps"
      by (rule le_bytes_at_cong) (use s2(7) just_before [OF _ bps] in blast)
    then have "bytes_at (mem s2) cb (2 * bps) = sec s ?k @ sec s (?k + 1)"
      using bytes_at_append [of "mem s2" cb bps bps] s2(6) s1(6,7) s0(5) by (simp add: mult_2)
    moreover have "mem s2 a = mem s a" if "2 * bps \<le> unat (a - cb)" for a
      using far_behind [OF that bps] s2(7) s1(8) s0(6) by simp
    moreover have "cluster_bytes sec b0 spc s c = sec s ?k @ sec s (?k + 1)" unfolding cluster_bytes_def two cluster_sectors_simps by simp
    ultimately show ?thesis
      using two s0(1,5) s1(6) s2(3,5) same_files_trans [OF s0(4) same_files_trans [OF s1(5) s2(4)]] by (intro exI [of _ s2]) simp
  qed
qed

text \<open>Writing one or two sectors replaces the bytes of one cluster.\<close>

lemma cluster_upd:
  assumes "\<And>k'. k' \<noteq> k \<Longrightarrow> sec' k' = sec k'" "b0 + c = k"
  shows "concat (map sec' (cluster_sectors b0 1 c')) = (if c' = c then sec' k else concat (map sec (cluster_sectors b0 1 c')))"
  using assms unfolding cluster_sectors_simps by simp

lemma cluster_upd_two:
  assumes "\<And>k'. k' \<noteq> k \<Longrightarrow> k' \<noteq> k + 1 \<Longrightarrow> sec' k' = sec k'" "b0 + 2 * c = k"
  shows "concat (map sec' (cluster_sectors b0 2 c')) =
    (if c' = c then sec' k @ sec' (k + 1) else concat (map sec (cluster_sectors b0 2 c')))"
proof (cases "c' = c")
  case False
  then have "b0 + 2 * c' \<noteq> k" "b0 + 2 * c' \<noteq> k + 1" "b0 + 2 * c' + 1 \<noteq> k" "b0 + 2 * c' + 1 \<noteq> k + 1" using assms(2) by presburger+
  then show ?thesis using False assms(1) unfolding cluster_sectors_simps by simp
qed (use assms(2) in \<open>simp add: cluster_sectors_simps\<close>)

lemma cluster_write:
  assumes st: "stores_sectors D (fm_device v) bps K B fixed sec pos keeps" and lay: "fat_layout mount v cl b0 spc bps keeps"
    and room: "has_room spc bps b0 cl K B C" and s: "keeps s" "c \<in> set cl" "cb \<in> C"
  shows "\<exists>s'. fat_rwCluster D mount c cb FAT_WRITE s = Some (SUCCESS, s') \<and> keeps s' \<and> same_files s s' \<and>
    cluster_bytes sec b0 spc s' = (cluster_bytes sec b0 spc s)(c := bytes_at (mem s) cb (spc * bps)) \<and> mem s' = mem s"
proof -
  let ?k = "b0 + int spc * c"
  have geo: "boot t mount sectors_per_cluster = int spc" "boot t mount bytes_per_sector = int bps" "volume t mount = v" if "keeps t" for t
    using lay that by (simp_all add: fat_layout_def)
  have spc: "spc = 1 \<or> spc = 2" using lay by (simp add: fat_layout_def)
  note k = roomD(1) [OF room spc s(2)] roomD(2) [OF room spc s(2)] roomD(3,4) [OF room spc s(3)]
  obtain s0 where s0: "fat_rwCluster D mount c cb FAT_WRITE s = rw_sectors (vfs_write D) mount cb 256 s0" "keeps s0" "pos s0 = ?k"
    "same_files s s0" "sec s0 = sec s" "mem s0 = mem s"
    using rwCluster_seek [OF st lay s(1,2) k(1), of FAT_WRITE cb] by (auto simp: FAT_WRITE_def FAT_READ_def)
  obtain r s1 where s1: "vfs_write D (fm_device v) cb (of_nat bps) s0 = Some (r, s1)" "r \<noteq> FAIL" "keeps s1" "pos s1 = ?k + 1" "same_files s0 s1"
    "sec s1 = (sec s0)(?k := bytes_at (mem s0) cb bps)" "mem s1 = mem s0"
    using sectorsD(4) [OF st s0(2) k(3), unfolded s0(3), OF k(1)] by blast
  show ?thesis
  proof (cases "spc = 1")
    case True
    have "rw_sectors (vfs_write D) mount cb 256 s0 = Some (SUCCESS, s1)"
      by (rule rw_sectors_one [OF _ _ s1(2)]) (use s1(1) True in \<open>simp_all add: geo s0(2) s1(3)\<close>)
    moreover have "cluster_bytes sec b0 spc s1 = (cluster_bytes sec b0 spc s)(c := bytes_at (mem s) cb (spc * bps))"
    proof
      fix c'
      have w: "sec s1 ?k = bytes_at (mem s) cb bps" and u: "\<And>k'. k' \<noteq> ?k \<Longrightarrow> sec s1 k' = sec s k'" using s0(5,6) s1(6) by simp_all
      have eq: "cluster_bytes sec b0 1 s1 c' = (if c' = c then sec s1 ?k else cluster_bytes sec b0 1 s c')"
        unfolding cluster_bytes_def by (rule cluster_upd [OF u]) (simp_all add: True)
      show "cluster_bytes sec b0 spc s1 c' = ((cluster_bytes sec b0 spc s)(c := bytes_at (mem s) cb (spc * bps))) c'"
        unfolding True fun_upd_apply mult_1 unfolding eq w by (rule refl)
    qed
    ultimately show ?thesis using s0(1,6) s1(3,7) same_files_trans [OF s0(4) s1(5)] by (intro exI [of _ s1]) simp
  next
    case False
    then have two: "spc = 2" using spc by simp
    obtain r' s2 where s2: "vfs_write D (fm_device v) (cb + of_nat bps) (of_nat bps) s1 = Some (r', s2)" "r' \<noteq> FAIL" "keeps s2" "same_files s1 s2"
      "sec s2 = (sec s1)(?k + 1 := bytes_at (mem s1) (cb + of_nat bps) bps)" "mem s2 = mem s1"
      using sectorsD(4) [OF st s1(3) k(4) [OF two], unfolded s1(4), OF k(2) [OF two]] by blast
    have "rw_sectors (vfs_write D) mount cb 256 s0 = Some (SUCCESS, s2)"
      by (rule rw_sectors_two [where ?s1.0 = s1, OF _ _ _ _ s1(2) _ s2(2)]) (use s1(1) s2(1) two in \<open>simp_all add: geo s0(2) s1(3) s2(3)\<close>)
    moreover have "cluster_bytes sec b0 spc s2 = (cluster_bytes sec b0 spc s)(c := bytes_at (mem s) cb (spc * bps))"
    proof
      fix c'
      have u: "\<And>k'. k' \<noteq> ?k \<Longrightarrow> k' \<noteq> ?k + 1 \<Longrightarrow> sec s2 k' = sec s k'"
        and w: "sec s2 ?k = bytes_at (mem s) cb bps" "sec s2 (?k + 1) = bytes_at (mem s) (cb + of_nat bps) bps"
        using s0(5,6) s1(6,7) s2(5) by simp_all
      have eq: "cluster_bytes sec b0 2 s2 c' = (if c' = c then sec s2 ?k @ sec s2 (?k + 1) else cluster_bytes sec b0 2 s c')"
        unfolding cluster_bytes_def by (rule cluster_upd_two [OF u]) (simp_all add: two)
      show "cluster_bytes sec b0 spc s2 c' = ((cluster_bytes sec b0 spc s)(c := bytes_at (mem s) cb (spc * bps))) c'"
        unfolding two fun_upd_apply mult_2 bytes_at_append unfolding eq w by (rule refl)
    qed
    ultimately show ?thesis
      using s0(1,6) s1(7) s2(3,6) same_files_trans [OF s0(4) same_files_trans [OF s1(5) s2(4)]] by (intro exI [of _ s2]) simp
  qed
qed

section \<open>A device that stores sectors stores clusters\<close>

lemma length_cluster_bytes:
  assumes "stores_sectors D dev bps K B fixed sec pos keeps" "keeps s" "set (cluster_sectors b0 spc c) \<subseteq> K"
  shows "length (cluster_bytes sec b0 spc s c) = spc * bps"
proof -
  have "length (concat (map (sec s) ks)) = length ks * bps" if "set ks \<subseteq> K" for ks
    using that by (induction ks) (simp_all add: sectorsD(1) [OF assms(1,2)])
  from this [OF assms(3)] show ?thesis by (simp add: cluster_bytes_def cluster_sectors_def)
qed

lemma sectors_store:
  assumes st: "stores_sectors D (fm_device v) bps K B fixed sec pos keeps" and lay: "fat_layout mount v cl b0 spc bps keeps"
    and room: "has_room spc bps b0 cl K B C"
  shows "stores_clusters D mount v cl C fixed (cluster_bytes sec b0 spc) keeps"
  unfolding stores_clusters_def
proof (intro allI impI conjI ballI)
  have cs: "nat (fm_cluster_size v) = spc * bps" using lay unfolding fat_layout_def by (simp only: nat_int)
  fix s assume k: "keeps s"
  show "volume s mount = v" using lay k by (simp add: fat_layout_def)
  show "fat_getFATCluster s mount (cl ! i) = cl ! Suc i" if "Suc i < length cl" for i using lay k that by (simp add: fat_layout_def)
  fix c assume c: "c \<in> set cl"
  have "set (cluster_sectors b0 spc c) \<subseteq> K" using room c unfolding has_room_def by blast
  from length_cluster_bytes [OF st k this] show "length (cluster_bytes sec b0 spc s c) = nat (fm_cluster_size v)" unfolding cs .
  fix cb assume cb: "cb \<in> C"
  obtain s' where s': "fat_rwCluster D mount c cb FAT_READ s = Some (SUCCESS, s')" "keeps s'" "same_files s s'" "sec s' = sec s"
    "bytes_at (mem s') cb (spc * bps) = cluster_bytes sec b0 spc s c" "\<forall>a. spc * bps \<le> unat (a - cb) \<longrightarrow> mem s' a = mem s a"
    using cluster_read [OF st lay room k c cb] by blast
  have "cluster_bytes sec b0 spc s' = cluster_bytes sec b0 spc s" by (simp add: cluster_bytes_def s'(4) fun_eq_iff)
  then show "\<exists>s'. fat_rwCluster D mount c cb FAT_READ s = Some (SUCCESS, s') \<and> keeps s' \<and> same_files s s' \<and>
      cluster_bytes sec b0 spc s' = cluster_bytes sec b0 spc s \<and> bytes_at (mem s') cb (nat (fm_cluster_size v)) = cluster_bytes sec b0 spc s c \<and>
      (\<forall>a. nat (fm_cluster_size v) \<le> unat (a - cb) \<longrightarrow> mem s' a = mem s a)"
    unfolding cs using s' by blast
  show "\<exists>s'. fat_rwCluster D mount c cb FAT_WRITE s = Some (SUCCESS, s') \<and> keeps s' \<and> same_files s s' \<and>
      cluster_bytes sec b0 spc s' = (cluster_bytes sec b0 spc s)(c := bytes_at (mem s) cb (nat (fm_cluster_size v))) \<and> mem s' = mem s"
    unfolding cs by (rule cluster_write [OF st lay room k c cb])
next
  fix s s' assume "keeps s" "agree fixed s s'"
  from sectorsD(5) [OF st this] have k: "keeps s'" "sec s' = sec s" by simp_all
  show "keeps s'" by (rule k(1))
  show "cluster_bytes sec b0 spc s' = cluster_bytes sec b0 spc s" by (rule ext) (simp only: cluster_bytes_def k(2))
qed

end
