(* ===== verification/FatWriteProps.thy ===== *)
theory FatWriteProps
  imports FatStore
begin

text \<open>
  The lemmas on writing to a file of a FAT volume through its cluster chain (\<open>fat_rw\<close>), and on reading
  back what was written. The device is one that stores clusters: what writing a cluster puts there,
  reading it delivers.
\<close>

section \<open>One round of writing\<close>

text \<open>A buffer of \<open>n\<close> bytes at \<open>a\<close> that has no byte in common with one of \<open>k\<close> bytes at \<open>cb\<close>, and one in free memory.\<close>

definition clear_of :: "u32 \<Rightarrow> nat \<Rightarrow> u32 \<Rightarrow> nat \<Rightarrow> bool" where
  "clear_of cb k a n \<longleftrightarrow> (\<forall>i < n. k \<le> unat (a + of_nat i - cb))"

definition free_at :: "u32 set \<Rightarrow> u32 \<Rightarrow> nat \<Rightarrow> bool" where
  "free_at fixed a n \<longleftrightarrow> (\<forall>b \<in> fixed. n \<le> unat (b - a))"

lemma clear_of_part: "clear_of cb k a n \<Longrightarrow> i + j \<le> n \<Longrightarrow> clear_of cb k (a + of_nat i) j"
  unfolding clear_of_def
proof (intro allI impI)
  fix l assume *: "\<forall>i < n. k \<le> unat (a + of_nat i - cb)" "i + j \<le> n" "l < j"
  then have "i + l < n" by simp
  from *(1) [rule_format, OF this] show "k \<le> unat (a + of_nat i + of_nat l - cb)" by (simp add: add.assoc)
qed

lemma bytes_at_cong_clear:
  "clear_of cb k a n \<Longrightarrow> (\<And>x. k \<le> unat (x - cb) \<Longrightarrow> m x = m' x) \<Longrightarrow> bytes_at m a n = bytes_at m' a n"
  by (rule le_bytes_at_cong) (simp add: clear_of_def)

text \<open>The cluster buffer before the copy: the cluster, or zeros when it is overwritten as a whole.\<close>

lemma prepare_round:
  assumes st: "stores_clusters D mount v cl B fixed contents keeps" and s: "keeps s" "c \<in> set cl" "cb \<in> B" "free_at fixed cb cs"
    and cs: "cs = nat (fm_cluster_size v)" "cs < 2 ^ 31"
  shows "\<exists>s1. (if b < cs then fat_rwCluster D mount c cb FAT_READ s
      else Some (SUCCESS, set_mem (memset (mem s) cb 0x00 cs) s)) = Some (SUCCESS, s1) \<and> keeps s1 \<and> same_files s s1 \<and>
    contents s1 = contents s \<and> (b < cs \<longrightarrow> bytes_at (mem s1) cb cs = contents s c) \<and> (\<forall>a. cs \<le> unat (a - cb) \<longrightarrow> mem s1 a = mem s a)"
proof (cases "b < cs")
  case True
  then show ?thesis using storesD(4) [OF st s(1,2,3)] cs(1) by auto
next
  case False
  let ?s = "set_mem (memset (mem s) cb 0x00 cs) s"
  have "agree fixed s ?s" using s(4) by (intro agree_mem) (auto simp: memset_def free_at_def not_less)
  with storesD(6) [OF st s(1)] have "keeps ?s \<and> contents ?s = contents s" by blast
  then show ?thesis using False by (simp add: same_files_mem memset_def)
qed

lemma write_round:
  assumes st: "stores_clusters D mount v cl B fixed contents keeps" and s: "keeps s" "c \<in> set cl" "cb \<in> B" "free_at fixed cb cs"
    and cs: "cs = nat (fm_cluster_size v)" "cs < 2 ^ 31" and b: "b \<le> cs" "clear_of cb cs src b"
  shows "\<exists>s1 s3. (if b < cs then fat_rwCluster D mount c cb FAT_READ s
      else Some (SUCCESS, set_mem (memset (mem s) cb 0x00 cs) s)) = Some (SUCCESS, s1) \<and>
    fat_rwCluster D mount c cb FAT_WRITE (set_mem (memcpy (mem s1) cb (mem s1) src b) s1) = Some (SUCCESS, s3) \<and>
    keeps s3 \<and> same_files s s3 \<and> contents s3 = (contents s)(c := bytes_at (mem s) src b @ drop b (contents s c)) \<and>
    (\<forall>a. cs \<le> unat (a - cb) \<longrightarrow> mem s3 a = mem s a)"
proof -
  obtain s1 where s1: "(if b < cs then fat_rwCluster D mount c cb FAT_READ s
      else Some (SUCCESS, set_mem (memset (mem s) cb 0x00 cs) s)) = Some (SUCCESS, s1)" "keeps s1" "same_files s s1" "contents s1 = contents s"
    "b < cs \<longrightarrow> bytes_at (mem s1) cb cs = contents s c" "\<forall>a. cs \<le> unat (a - cb) \<longrightarrow> mem s1 a = mem s a"
    using prepare_round [OF st s cs, of b] by blast
  let ?m = "memcpy (mem s1) cb (mem s1) src b"
  let ?s2 = "set_mem ?m s1"
  have out: "?m a = mem s1 a" if "cs \<le> unat (a - cb)" for a using that b(1) by (simp add: memcpy_def)
  have "agree fixed s1 ?s2" using s(4) by (intro agree_mem out) (simp add: free_at_def)
  then have s2: "keeps ?s2" "contents ?s2 = contents s" using storesD(6) [OF st s1(2)] s1(4) by auto
  have bb: "b < 2 ^ 32" using b(1) cs(2) by simp
  have "bytes_at ?m cb cs = bytes_at (mem s) src b @ drop b (contents s c)"
  proof -
    have split: "bytes_at ?m cb (b + (cs - b)) = bytes_at ?m cb b @ bytes_at ?m (cb + of_nat b) (cs - b)" by (rule bytes_at_append)
    have "bytes_at ?m cb b = bytes_at (mem s1) src b" by (rule memcpy_bytes [OF bb])
    also have "\<dots> = bytes_at (mem s) src b" by (rule bytes_at_cong_clear [OF b(2)]) (use s1(6) in simp)
    finally have first: "bytes_at ?m cb b = bytes_at (mem s) src b" .
    have "bytes_at ?m (cb + of_nat b) (cs - b) = drop b (contents s c)"
    proof (cases "b < cs")
      case True
      have "bytes_at ?m (cb + of_nat b) (cs - b) = bytes_at (mem s1) (cb + of_nat b) (cs - b)"
      proof (rule le_bytes_at_cong)
        fix i assume i: "i < cs - b"
        have "cb + of_nat b + of_nat i - cb = (of_nat (b + i) :: u32)" by simp
        moreover have "unat (of_nat (b + i) :: u32) = b + i" using i cs(2) by (intro unat_of_nat_u32) simp
        ultimately show "?m (cb + of_nat b + of_nat i) = mem s1 (cb + of_nat b + of_nat i)"
          unfolding memcpy_def by (simp only: not_add_less1 if_False)
      qed
      also have "\<dots> = drop b (bytes_at (mem s1) cb cs)" using bytes_at_append [of "mem s1" cb b "cs - b"] True by simp
      finally show ?thesis using s1(5) True by simp
    next
      case False
      then show ?thesis using b(1) storesD(3) [OF st s(1,2)] cs(1) by (simp add: bytes_at_def)
    qed
    then show ?thesis using split first b(1) by simp
  qed
  moreover obtain s3 where s3: "fat_rwCluster D mount c cb FAT_WRITE ?s2 = Some (SUCCESS, s3)" "keeps s3" "same_files ?s2 s3"
    "contents s3 = (contents s)(c := bytes_at ?m cb cs)" "mem s3 = ?m"
    using storesD(5) [OF st s2(1) s(2,3)] s2(2) cs(1) by auto
  moreover have "same_files s s3" by (rule same_files_trans [OF s1(3) same_files_trans [OF same_files_mem s3(3)]])
  ultimately show ?thesis using s1(1,6) out by (intro exI [of _ s1] exI [of _ s3]) simp
qed

section \<open>The loop\<close>

lemma rw_loop_write_round:
  fixes buffer n :: u32
  assumes "fatfile s f = x" "volume s (ff_mount x) = v" "0 < uint n" "uint n < 2 ^ 31"
    "0 < fm_cluster_size v" "fm_cluster_size v < 2 ^ 31" "0 \<le> ff_current_pos x" "ff_current_pos x mod fm_cluster_size v = 0"
  defines "b \<equiv> min (uint n) (fm_cluster_size v)"
  assumes "(if b < fm_cluster_size v then fat_rwCluster D (ff_mount x) c cb FAT_READ s
      else Some (SUCCESS, set_mem (memset (mem s) cb 0x00 (nat (fm_cluster_size v))) s)) = Some (SUCCESS, s1)"
    "fat_rwCluster D (ff_mount x) c cb FAT_WRITE (set_mem (memcpy (mem s1) cb (mem s1) buffer (nat b)) s1) = Some (SUCCESS, s3)"
  shows "rw_loop D f FAT_WRITE cb c buffer 0 n acc s =
    (if uint n = b then Some (acc + b, s3)
     else let c' = fat_getFATCluster s3 (ff_mount x) c in
       if c' = FAT_FREECLUSTER \<or> c' = FAIL then Some (acc + b, s3)
       else rw_loop D f FAT_WRITE cb c' (buffer + word_of_int b) 0 (n - word_of_int b) (acc + b) s3)"
proof -
  note b = aligned_bytes [OF assms(5-8,4,3)]
  have "0 \<le> b" "b \<le> uint n" using assms(3,5) by (simp_all add: b_def)
  then have z: "(n - word_of_int b = 0) = (uint n = b)" using assms(4) by (rule rest_is_zero)
  have modes: "(FAT_WRITE = FAT_READ) = False" "(FAT_WRITE = FAT_WRITE) = True" "(SUCCESS = FAIL) = False"
    by (simp_all add: FAT_READ_def FAT_WRITE_def)
  have first: "(0 :: int) > 0 \<or> b < fm_cluster_size v \<longleftrightarrow> b < fm_cluster_size v" by simp
  show ?thesis
    unfolding rw_loop.simps [of D f FAT_WRITE cb c buffer 0 n acc s] Let_def assms(1,2) b b_def [symmetric] first
      modes if_False if_True assms(10) bind.bind_lunit prod.case of_int_0 add_0_right assms(11) z by (rule refl)
qed

text \<open>
  The loop from cluster \<open>j\<close> of the chain on, with \<open>k\<close> bytes of the caller's buffer written and \<open>n\<close> to
  come, which need all the clusters that are left.
\<close>

lemma rw_loop_writes:
  fixes buffer n :: u32
  assumes st: "stores_clusters D (ff_mount x) v cl B fixed contents keeps" and cb: "cb \<in> B" "free_at fixed cb cs" "clear_of cb cs buffer N"
    and cs: "cs = nat (fm_cluster_size v)" "0 < fm_cluster_size v" "fm_cluster_size v < 2 ^ 31"
    and pos: "0 \<le> ff_current_pos x" "ff_current_pos x mod fm_cluster_size v = 0" and N: "N < 2 ^ 31"
    and linked: "\<And>i. 0 < i \<Longrightarrow> i < length cl \<Longrightarrow> cl ! i \<noteq> FAT_FREECLUSTER \<and> cl ! i \<noteq> FAIL" and dist: "distinct cl"
  shows "keeps s \<Longrightarrow> fatfile s f = x \<Longrightarrow> j + Suc left = length cl \<Longrightarrow> k + unat n = N \<Longrightarrow>
    int left * fm_cluster_size v < uint n \<Longrightarrow> uint n \<le> (int left + 1) * fm_cluster_size v \<Longrightarrow>
    \<exists>s'. rw_loop D f FAT_WRITE cb (cl ! j) (buffer + of_nat k) 0 n acc s = Some (acc + uint n, s') \<and> keeps s' \<and> same_files s s' \<and>
      concat (map (contents s') (drop j cl)) =
        bytes_at (mem s) (buffer + of_nat k) (unat n) @ drop (unat n) (concat (map (contents s) (drop j cl))) \<and>
      (\<forall>c. c \<notin> set (drop j cl) \<longrightarrow> contents s' c = contents s c)"
proof (induction left arbitrary: j k n acc s)
  case 0
  have un: "int (unat n) = uint n" by simp
  have n: "0 < uint n" "uint n \<le> fm_cluster_size v" using 0 cs by simp_all
  then have nb: "unat n \<le> cs" using cs(1) un by linarith
  have un31: "unat n < 2 ^ 31" using "0.prems"(4) N by linarith
  then have n31: "uint n < 2 ^ 31" unfolding uint_less_power .
  have cs31: "cs < 2 ^ 31" using cs by simp
  have c: "cl ! j \<in> set cl" "drop j cl = [cl ! j]" using "0.prems"(3) by (simp_all add: Cons_nth_drop_Suc [symmetric])
  have cl0: "clear_of cb cs (buffer + of_nat k) (unat n)" by (rule clear_of_part [OF cb(3)]) (use "0.prems"(4) in simp)
  obtain s1 s3 where r: "(if unat n < cs then fat_rwCluster D (ff_mount x) (cl ! j) cb FAT_READ s
      else Some (SUCCESS, set_mem (memset (mem s) cb 0x00 cs) s)) = Some (SUCCESS, s1)"
    "fat_rwCluster D (ff_mount x) (cl ! j) cb FAT_WRITE (set_mem (memcpy (mem s1) cb (mem s1) (buffer + of_nat k) (unat n)) s1) = Some (SUCCESS, s3)"
    "keeps s3" "same_files s s3"
    "contents s3 = (contents s)(cl ! j := bytes_at (mem s) (buffer + of_nat k) (unat n) @ drop (unat n) (contents s (cl ! j)))"
    using write_round [OF st "0.prems"(1) c(1) cb(1,2) cs(1) cs31 nb cl0] by blast
  have m: "min (uint n) (fm_cluster_size v) = uint n" using n by simp
  have lt: "(unat n < cs) = (uint n < fm_cluster_size v)" using cs(1,2) un by linarith
  have "rw_loop D f FAT_WRITE cb (cl ! j) (buffer + of_nat k) 0 n acc s = Some (acc + uint n, s3)"
    using rw_loop_write_round [OF "0.prems"(2) storesD(1) [OF st "0.prems"(1)] n(1) n31 cs(2,3) pos, of D "cl ! j" cb s1 "buffer + of_nat k" s3 acc]
      r(1,2) unfolding m cs(1) [symmetric] lt by simp
  then show ?case using r(3-5) c(2) by simp
next
  case (Suc left)
  have un: "int (unat n) = uint n" and ib: "int cs = fm_cluster_size v" using cs by simp_all
  have "fm_cluster_size v \<le> int (Suc left) * fm_cluster_size v" using cs by (simp add: mult_le_cancel_right1)
  then have n: "fm_cluster_size v < uint n" using Suc.prems(5) by linarith
  have un31: "unat n < 2 ^ 31" using Suc.prems(4) N by linarith
  then have n31: "uint n < 2 ^ 31" unfolding uint_less_power .
  have n0: "0 < uint n" using n cs by simp
  have cs31: "cs < 2 ^ 31" using cs by simp
  have bn: "cs \<le> unat n" using n un ib by linarith
  have j: "j < length cl" "Suc j < length cl" "Suc j + Suc left = length cl" using Suc.prems(3) by simp_all
  have cl0: "clear_of cb cs (buffer + of_nat k) cs" by (rule clear_of_part [OF cb(3)]) (use Suc.prems(4) bn in simp)
  have d: "drop j cl = cl ! j # drop (Suc j) cl" using j(1) by (simp add: Cons_nth_drop_Suc)
  obtain s1 s3 where r: "(if cs < cs then fat_rwCluster D (ff_mount x) (cl ! j) cb FAT_READ s
      else Some (SUCCESS, set_mem (memset (mem s) cb 0x00 cs) s)) = Some (SUCCESS, s1)"
    "fat_rwCluster D (ff_mount x) (cl ! j) cb FAT_WRITE (set_mem (memcpy (mem s1) cb (mem s1) (buffer + of_nat k) cs) s1) = Some (SUCCESS, s3)"
    "keeps s3" "same_files s s3" "contents s3 = (contents s)(cl ! j := bytes_at (mem s) (buffer + of_nat k) cs @ drop cs (contents s (cl ! j)))"
    "\<forall>a. cs \<le> unat (a - cb) \<longrightarrow> mem s3 a = mem s a"
    using write_round [OF st Suc.prems(1) nth_mem [OF j(1)] cb(1,2) cs(1) cs31 order_refl cl0] by blast
  have m: "min (uint n) (fm_cluster_size v) = int cs" "(uint n = int cs) = False" "(int cs < fm_cluster_size v) = False"
    using n ib by simp_all
  have next_c: "fat_getFATCluster s3 (ff_mount x) (cl ! j) = cl ! Suc j" by (rule storesD(2) [OF st r(3) j(2)])
  let ?n = "n - of_nat cs"
  have wb: "unat (of_nat cs :: u32) = cs" using cs31 by (simp add: unat_of_nat_u32)
  have n': "unat ?n = unat n - cs" using bn by (subst unat_sub) (simp_all add: word_le_nat_alt wb)
  have un': "uint ?n = uint n - fm_cluster_size v" using n' bn un ib by (metis of_nat_diff uint_nat)
  have step: "rw_loop D f FAT_WRITE cb (cl ! j) (buffer + of_nat k) 0 n acc s =
      rw_loop D f FAT_WRITE cb (cl ! Suc j) (buffer + of_nat (k + cs)) 0 ?n (acc + int cs) s3"
    using rw_loop_write_round [OF Suc.prems(2) storesD(1) [OF st Suc.prems(1)] n0 n31 cs(2,3) pos, of D "cl ! j" cb s1 "buffer + of_nat k" s3 acc]
      r(1,2) linked [of "Suc j"] j(2)
    unfolding m cs(1) [symmetric] nat_int next_c Let_def by (simp add: add.assoc)
  have "k + cs + unat ?n = N" using n' bn Suc.prems(4) by simp
  moreover have "int left * fm_cluster_size v < uint ?n" "uint ?n \<le> (int left + 1) * fm_cluster_size v"
    using Suc.prems(5,6) unfolding un' by (simp_all add: algebra_simps)
  moreover have "fatfile s3 f = x" using r(4) Suc.prems(2) by (simp add: same_files_def)
  ultimately obtain s' where s': "rw_loop D f FAT_WRITE cb (cl ! Suc j) (buffer + of_nat (k + cs)) 0 ?n (acc + int cs) s3
      = Some (acc + int cs + uint ?n, s')" "keeps s'" "same_files s3 s'"
    "concat (map (contents s') (drop (Suc j) cl)) =
      bytes_at (mem s3) (buffer + of_nat (k + cs)) (unat ?n) @ drop (unat ?n) (concat (map (contents s3) (drop (Suc j) cl)))"
    "\<forall>c. c \<notin> set (drop (Suc j) cl) \<longrightarrow> contents s' c = contents s3 c"
    using Suc.IH [OF r(3) _ j(3), of "k + cs" ?n "acc + int cs"] by blast
  have new: "cl ! j \<notin> set (drop (Suc j) cl)" using dist d by (metis distinct.simps(2) distinct_drop)
  have cl1: "clear_of cb cs (buffer + of_nat (k + cs)) (unat ?n)" by (rule clear_of_part [OF cb(3)]) (use Suc.prems(4) n' bn in simp)
  have tail: "map (contents s3) (drop (Suc j) cl) = map (contents s) (drop (Suc j) cl)" using new r(5) by (intro map_cong refl) auto
  have bytes: "bytes_at (mem s3) (buffer + of_nat (k + cs)) (unat ?n) = bytes_at (mem s) (buffer + of_nat (k + cs)) (unat ?n)"
    by (rule bytes_at_cong_clear [OF cl1]) (use r(6) in simp)
  have l: "length (contents s (cl ! j)) = cs" using storesD(3) [OF st Suc.prems(1) nth_mem [OF j(1)]] cs(1) by simp
  then have head: "contents s' (cl ! j) = bytes_at (mem s) (buffer + of_nat k) cs" using s'(5) new r(5) by simp
  have "unat n = cs + unat ?n" using n' bn by simp
  then have all: "bytes_at (mem s) (buffer + of_nat k) (unat n) =
      bytes_at (mem s) (buffer + of_nat k) cs @ bytes_at (mem s) (buffer + of_nat (k + cs)) (unat ?n)"
    by (simp add: bytes_at_append add.assoc)
  have "concat (map (contents s') (drop j cl)) =
      bytes_at (mem s) (buffer + of_nat k) (unat n) @ drop (unat n) (concat (map (contents s) (drop j cl)))"
    unfolding d all using s'(4) [unfolded tail bytes] l n' bn by (simp add: head)
  moreover have "contents s' c = contents s c" if "c \<notin> set (drop j cl)" for c using that s'(5) r(5) unfolding d by simp
  moreover have "acc + int cs + uint ?n = acc + uint n" using un' ib by simp
  ultimately show ?case using step s'(1,2) same_files_trans [OF r(4) s'(3)] by (intro exI [of _ s']) simp
qed

section \<open>Writing\<close>

text \<open>A transfer that the hypotheses of the theorems below describe.\<close>

definition in_place :: "'d fat vfs \<Rightarrow> u32 \<Rightarrow> u32 \<Rightarrow> u32 \<Rightarrow> fat_file \<Rightarrow> fat_mountpoint \<Rightarrow> int list \<Rightarrow> bool" where
  "in_place s h f n x v cl \<longleftrightarrow> (let cs = fm_cluster_size v; pos = ff_current_pos x in
     h_data_ptr (handle_heap s h) = f \<and> f \<noteq> NULL \<and> fatfile s f = x \<and> position_ok x \<and> volume s (ff_mount x) = v \<and>
     0 < cs \<and> cs < 2 ^ 31 \<and> pos mod cs = 0 \<and> 0 < uint n \<and> pos + uint n \<le> uint (e_file_size (ff_entry x)) \<and>
     cl \<noteq> [] \<and> follow s (ff_mount x) (uint (e_start_cluster (ff_entry x))) (nat (pos div cs)) = hd cl \<and> distinct cl \<and>
     FAIL \<notin> set cl \<and> FAT_FREECLUSTER \<notin> set (tl cl) \<and> (int (length cl) - 1) * cs < uint n \<and> uint n \<le> int (length cl) * cs)"

lemma fat_write_in_place:
  fixes n buffer :: u32 and s :: "'d fat vfs"
  assumes p: "in_place s h f n x v cl" and st: "stores_clusters D (ff_mount x) v cl B fixed contents keeps" "keeps s"
    and heap: "pool s = cb # ps" "cb \<in> B" "free_at fixed cb (nat (fm_cluster_size v))"
    and buf: "clear_of cb (nat (fm_cluster_size v)) buffer (unat n)"
  shows "\<exists>s'. fat_write D h buffer n s = Some (SUCCESS, s') \<and> keeps s' \<and> pool s' = ps \<and> handle_heap s' = handle_heap s \<and>
    concat (map (contents s') cl) = bytes_at (mem s) buffer (unat n) @ drop (unat n) (concat (map (contents s) cl)) \<and>
    (\<forall>c. c \<notin> set cl \<longrightarrow> contents s' c = contents s c) \<and>
    fatfile s' f = x\<lparr>ff_current_pos := ff_current_pos x + uint n\<rparr>"
proof -
  let ?cs = "fm_cluster_size v" and ?pos = "ff_current_pos x" and ?size = "e_file_size (ff_entry x)"
  have h: "h_data_ptr (handle_heap s h) = f" "f \<noteq> NULL" "fatfile s f = x" "position_ok x" "volume s (ff_mount x) = v" "0 < ?cs" "?cs < 2 ^ 31"
    "?pos mod ?cs = 0" "0 < uint n" "?pos + uint n \<le> uint ?size" "cl \<noteq> []"
    "follow s (ff_mount x) (uint (e_start_cluster (ff_entry x))) (nat (?pos div ?cs)) = hd cl" "distinct cl"
    "FAIL \<notin> set cl" "FAT_FREECLUSTER \<notin> set (tl cl)" "(int (length cl) - 1) * ?cs < uint n" "uint n \<le> int (length cl) * ?cs"
    using p by (simp_all add: in_place_def Let_def)
  have pos: "0 \<le> ?pos" "uint ?size < 2 ^ 31" using h(4) by (simp_all add: position_ok_def)
  have small: "?pos < 2 ^ 31" "uint n < 2 ^ 31" using pos h(9,10) by linarith+
  then have un: "unat n < 2 ^ 31" unfolding uint_less_power by simp
  note start = sdiv_aligned [OF pos(1) small(1) h(6,8)]
  note inside = not_past [OF pos(1) h(10) pos(2)]
  have n: "nat ?cs \<noteq> 0" using h(6) by simp
  obtain s1 where s1: "kmalloc (nat ?cs) s = (cb, s1)" "pool s1 = ps" using kmalloc_first [OF heap(1) n] by auto
  have k1: "keeps s1" "contents s1 = contents s" using storesD(6) [OF st agree_kmalloc [OF s1(1)]] by simp_all
  have f1: "fatfile s1 = fatfile s" "handle_heap s1 = handle_heap s" "mem s1 = mem s"
    using kmalloc_world [OF s1(1)] by (simp_all add: fatfile_def mem_def)
  obtain c cs' where cl: "cl = c # cs'" using h(11) by (cases cl) auto
  have "\<exists>s2. rw_loop D f FAT_WRITE cb (cl ! 0) (buffer + of_nat 0) 0 n 0 s1 = Some (0 + uint n, s2) \<and> keeps s2 \<and> same_files s1 s2 \<and>
      concat (map (contents s2) (drop 0 cl)) =
        bytes_at (mem s1) (buffer + of_nat 0) (unat n) @ drop (unat n) (concat (map (contents s1) (drop 0 cl))) \<and>
      (\<forall>c. c \<notin> set (drop 0 cl) \<longrightarrow> contents s2 c = contents s1 c)"
  proof (rule rw_loop_writes [OF st(1) heap(2,3) buf refl h(6,7) pos(1) h(8) un _ h(13) k1(1)])
    show "cl ! i \<noteq> FAT_FREECLUSTER \<and> cl ! i \<noteq> FAIL" if "0 < i" "i < length cl" for i
      using that h(14,15) unfolding cl by (cases i) (auto dest: nth_mem)
    show "0 + Suc (length cs') = length cl" "0 + unat n = unat n" "fatfile s1 f = x" using h(3) f1 by (simp_all add: cl)
    show "int (length cs') * ?cs < uint n" "uint n \<le> (int (length cs') + 1) * ?cs" using h(16,17) by (simp_all add: cl algebra_simps)
  qed
  then obtain s2 where s2: "rw_loop D f FAT_WRITE cb c buffer 0 n 0 s1 = Some (uint n, s2)" "keeps s2" "same_files s1 s2"
    "concat (map (contents s2) cl) = bytes_at (mem s) buffer (unat n) @ drop (unat n) (concat (map (contents s) cl))"
    "\<forall>c. c \<notin> set cl \<longrightarrow> contents s2 c = contents s c"
    unfolding cl using f1(3) k1(2) by auto
  let ?s = "set_file f (\<lambda>x. x\<lparr>ff_current_pos := wrap32 (ff_current_pos x + uint n)\<rparr>) (kfree cb s2)"
  have x2: "fatfile s2 f = x" using s2(3) f1 h(3) by (simp add: same_files_def)
  have f3: "fatfile ?s f = x\<lparr>ff_current_pos := ?pos + uint n\<rparr>"
    using x2 inside(2) by (simp add: fatfile_def set_file_def kfree_def)
  have k2: "keeps (kfree cb s2)" "contents (kfree cb s2) = contents s2" using storesD(6) [OF st(1) s2(2) agree_kfree] by simp_all
  have k3: "keeps ?s" "contents ?s = contents s2" using storesD(6) [OF st(1) k2(1) agree_file] k2(2) by simp_all
  have "hd cl \<noteq> FAIL" using h(14) cl by auto
  then have "fat_rw D h buffer n FAT_WRITE s = Some (uint n, ?s)"
    unfolding fat_rw_def Let_def h(1,3,5) start bind.bind_lunit h(12) inside simp_thms if_False if_True prod.case s1(1)
    using h(2) s2(1) by (simp add: cl)
  then have "fat_write D h buffer n s = Some (SUCCESS, ?s)"
    using h(1-3) f3 inside(3) by (simp add: fat_write_def Let_def)
  moreover have "pool ?s = ps" "handle_heap ?s = handle_heap s"
    using s2(3) s1(2) f1(2) by (simp_all add: same_files_def set_file_def kfree_def)
  ultimately show ?thesis using k3 s2(4,5) f3 by (intro exI [of _ ?s]) simp
qed

section \<open>Reading back\<close>

text \<open>A device that stores clusters serves what it stores.\<close>

lemma stores_serves:
  assumes "stores_clusters D (ff_mount x) v cl B fixed contents keeps" "cb \<in> B" "free_at fixed buffer N"
  shows "serves D f x v cl cb C buffer N (\<lambda>t. keeps t \<and> fatfile t f = x \<and> contents t = C)"
  unfolding serves_def
proof (intro allI impI conjI ballI)
  fix t assume t: "keeps t \<and> fatfile t f = x \<and> contents t = C"
  then show "fatfile t f = x" by simp
  show "volume t (ff_mount x) = v" using storesD(1) [OF assms(1)] t by blast
  show "fat_getFATCluster t (ff_mount x) (cl ! i) = cl ! Suc i" if "Suc i < length cl" for i
    using storesD(2) [OF assms(1) _ that] t by blast
  show "\<exists>s'. fat_rwCluster D (ff_mount x) c cb FAT_READ t = Some (SUCCESS, s') \<and> (keeps s' \<and> fatfile s' f = x \<and> contents s' = C) \<and>
      bytes_at (mem s') cb (nat (fm_cluster_size v)) = C c \<and> (\<forall>a. nat (fm_cluster_size v) \<le> unat (a - cb) \<longrightarrow> mem s' a = mem t a)"
    if "c \<in> set cl" for c
    using storesD(4) [OF assms(1) _ that assms(2)] t unfolding same_files_def by (metis (no_types, lifting))
  fix m assume "\<forall>a. N \<le> unat (a - buffer) \<longrightarrow> m a = mem t a"
  then have "agree fixed t (set_mem m t)" using assms(3) by (intro agree_mem) (simp add: free_at_def)
  then show "keeps (set_mem m t)" "contents (set_mem m t) = C" using storesD(6) [OF assms(1)] t by blast+
  show "fatfile (set_mem m t) f = x" using t same_files_mem [of t m] by (simp add: same_files_def)
qed

lemma fat_read_in_place:
  fixes n buffer :: u32 and s :: "'d fat vfs"
  assumes p: "in_place s h f n x v cl" and st: "stores_clusters D (ff_mount x) v cl B fixed contents keeps" "keeps s"
    and heap: "pool s = cb # ps" "cb \<in> B"
    and buf: "clear_of cb (nat (fm_cluster_size v)) buffer (unat n)" "free_at fixed buffer (unat n)"
  shows "\<exists>s'. fat_read D h buffer n s = Some (uint n, s') \<and>
    bytes_at (mem s') buffer (unat n) = take (unat n) (concat (map (contents s) cl)) \<and>
    fatfile s' f = x\<lparr>ff_current_pos := ff_current_pos x + uint n\<rparr>"
proof -
  note h = p [unfolded in_place_def Let_def]
  have n: "nat (fm_cluster_size v) \<noteq> 0" using h by simp
  obtain s1 where s1: "kmalloc (nat (fm_cluster_size v)) s = (cb, s1)" using kmalloc_first [OF heap(1) n] by auto
  have k1: "keeps s1" "contents s1 = contents s" using storesD(6) [OF st agree_kmalloc [OF s1]] by simp_all
  have x1: "fatfile s f = x" "fatfile s1 f = x" using h kmalloc_world [OF s1] by (simp_all add: fatfile_def)
  obtain c cs' where cl: "cl = c # cs'" using h by (cases cl) auto
  have len: "\<forall>c \<in> set cl. length (contents s c) = nat (fm_cluster_size v)" using storesD(3) [OF st] by blast
  show ?thesis
  proof (rule fat_read_chain [OF _ _ _ x1(1) storesD(1) [OF st] refl _ _ _ _ _ _ cl _ len _ _ s1 _ stores_serves [OF st(1) heap(2) buf(2)]])
    show "\<forall>i<length cl. cl ! i \<noteq> FAIL \<and> (0 < i \<longrightarrow> cl ! i \<noteq> FAT_FREECLUSTER)"
    proof (intro allI impI)
      fix i assume "i < length cl"
      then show "cl ! i \<noteq> FAIL \<and> (0 < i \<longrightarrow> cl ! i \<noteq> FAT_FREECLUSTER)" using h unfolding cl by (cases i) (auto dest: nth_mem)
    qed
    show "follow s (ff_mount x) (uint (e_start_cluster (ff_entry x))) (nat (ff_current_pos x div fm_cluster_size v)) = c"
      using h cl by simp
    show "\<forall>i<unat n. nat (fm_cluster_size v) \<le> unat (buffer + of_nat i - cb)" using buf(1) by (simp add: clear_of_def)
  qed (use h k1 x1(2) in \<open>simp_all add: cl algebra_simps\<close>)
qed

lemma seek_back:
  assumes "h_data_ptr (handle_heap s h) = f" "f \<noteq> NULL" "position_ok x" "fatfile s f = x\<lparr>ff_current_pos := p\<rparr>"
  shows "fat_seek h (word_of_int (ff_current_pos x)) VFS_SEEK_START s =
    (ff_current_pos x, set_file f (\<lambda>x'. x'\<lparr>ff_current_pos := ff_current_pos x\<rparr>) s)"
proof -
  let ?p = "ff_current_pos x"
  have p: "0 \<le> ?p" "?p \<le> uint (e_file_size (ff_entry x))" "?p < 2 ^ 31" using assms(3) by (simp_all add: position_ok_def)
  have "sint (word_of_int ?p :: u32) = ?p" using p wrap32_small [of ?p] by (simp add: wrap32_word)
  moreover have "uint (word_of_int ?p :: u32) = ?p" using p by (intro uint_of_small) simp_all
  ultimately show ?thesis using assms(1,2,4) p by (simp add: fat_seek_def Let_def word_less_def)
qed

lemma fat_write_read_back:
  fixes n buffer buffer' :: u32 and s :: "'d fat vfs"
  assumes "in_place s h f n x v cl" "stores_clusters D (ff_mount x) v cl B fixed contents keeps" "keeps s"
    "pool s = cb # cb' # ps" "cb \<in> B" "cb' \<in> B" "free_at fixed cb (nat (fm_cluster_size v))"
    "clear_of cb (nat (fm_cluster_size v)) buffer (unat n)" "clear_of cb' (nat (fm_cluster_size v)) buffer' (unat n)"
    "free_at fixed buffer' (unat n)"
    "\<forall>t. keeps t \<longrightarrow> follow t (ff_mount x) (uint (e_start_cluster (ff_entry x))) (nat (ff_current_pos x div fm_cluster_size v)) = hd cl"
  shows "\<exists>s1 s2 s3. fat_write D h buffer n s = Some (SUCCESS, s1) \<and>
    fat_seek h (word_of_int (ff_current_pos x)) VFS_SEEK_START s1 = (ff_current_pos x, s2) \<and>
    fat_read D h buffer' n s2 = Some (uint n, s3) \<and> bytes_at (mem s3) buffer' (unat n) = bytes_at (mem s) buffer (unat n) \<and>
    keeps s1 \<and> keeps s2 \<and> handle_heap s1 = handle_heap s \<and> handle_heap s2 = handle_heap s"
proof -
  note h = assms(1) [unfolded in_place_def Let_def]
  obtain s1 where s1: "fat_write D h buffer n s = Some (SUCCESS, s1)" "keeps s1" "pool s1 = cb' # ps" "handle_heap s1 = handle_heap s"
    "concat (map (contents s1) cl) = bytes_at (mem s) buffer (unat n) @ drop (unat n) (concat (map (contents s) cl))"
    "fatfile s1 f = x\<lparr>ff_current_pos := ff_current_pos x + uint n\<rparr>"
    using fat_write_in_place [OF assms(1-5,7,8)] by blast
  let ?s2 = "set_file f (\<lambda>x'. x'\<lparr>ff_current_pos := ff_current_pos x\<rparr>) s1"
  have seek: "fat_seek h (word_of_int (ff_current_pos x)) VFS_SEEK_START s1 = (ff_current_pos x, ?s2)"
    by (rule seek_back [OF _ _ _ s1(6)]) (use h s1(4) in simp_all)
  have k2: "keeps ?s2" "contents ?s2 = contents s1" using storesD(6) [OF assms(2) s1(2) agree_file] by simp_all
  have x2: "fatfile ?s2 f = x" and hh: "handle_heap ?s2 = handle_heap s" using s1(4,6) by (simp, simp add: set_file_def)
  have p2: "in_place ?s2 h f n x v cl"
    using h hh x2 assms(11) [rule_format, OF k2(1)] storesD(1) [OF assms(2) k2(1)] unfolding in_place_def Let_def by simp
  have "pool ?s2 = cb' # ps" using s1(3) by (simp add: set_file_def)
  from fat_read_in_place [OF p2 assms(2) k2(1) this assms(6,9,10)]
  have "\<exists>s'. fat_read D h buffer' n ?s2 = Some (uint n, s') \<and>
    bytes_at (mem s') buffer' (unat n) = take (unat n) (concat (map (contents s1) cl))" unfolding k2(2) by blast
  then show ?thesis using s1(1,2,4,5) seek k2(1) hh by auto
qed

end
