(* ===== verification/FatChain.thy ===== *)
theory FatChain
  imports FatWriteProps
begin

text \<open>
  The properties of reading and writing a file of a FAT volume through its cluster chain, on a device
  that stores sectors, and a machine on which their hypotheses hold.
\<close>

section \<open>Reading and writing\<close>

text \<open>
  C4. \<open>fat_read\<close> from a position at the start of a cluster, for bytes inside the file, answers the
  number of bytes asked for; the caller's buffer then holds the sectors of the clusters of the
  chain, one behind the other and cut to that number, and the position has moved behind them. (From
  other positions a read can run out of its cluster buffer, see \<open>round_stays_in_cluster\<close>.)
\<close>

theorem read_chain:
  fixes n buffer :: u32 and s :: "'d fat vfs"
  assumes "in_place s h f n x v cl" "stores_sectors D (fm_device v) bps K B fixed sec pos keeps" "fat_layout (ff_mount x) v cl b0 spc bps keeps"
    "has_room spc bps b0 cl K B {cb}" "keeps s" "pool s = cb # ps"
    "clear_of cb (nat (fm_cluster_size v)) buffer (unat n)" "free_at fixed buffer (unat n)"
  shows "\<exists>s'. fat_read D h buffer n s = Some (uint n, s') \<and>
    bytes_at (mem s') buffer (unat n) = take (unat n) (concat (map (cluster_bytes sec b0 spc s) cl)) \<and>
    fatfile s' f = x\<lparr>ff_current_pos := ff_current_pos x + uint n\<rparr>"
  by (rule fat_read_in_place [OF assms(1) sectors_store [OF assms(2-4)] assms(5,6) singletonI assms(7,8)])

text \<open>
  C5. \<open>fat_write\<close> to a file in place, from the start of a cluster: the sectors of the chain hold the bytes
  of the caller's buffer, and behind them what they held before; no other cluster changes, the
  position has moved behind the bytes written, and the heap is left with one block less, which
  has been freed. The answer is \<open>SUCCESS\<close>, not the number of bytes.
\<close>

theorem write_chain:
  fixes n buffer :: u32 and s :: "'d fat vfs"
  assumes "in_place s h f n x v cl" "stores_sectors D (fm_device v) bps K B fixed sec pos keeps" "fat_layout (ff_mount x) v cl b0 spc bps keeps"
    "has_room spc bps b0 cl K B {cb}" "keeps s" "pool s = cb # ps"
    "free_at fixed cb (nat (fm_cluster_size v))" "clear_of cb (nat (fm_cluster_size v)) buffer (unat n)"
  shows "\<exists>s'. fat_write D h buffer n s = Some (SUCCESS, s') \<and> keeps s' \<and> pool s' = ps \<and> handle_heap s' = handle_heap s \<and>
    concat (map (cluster_bytes sec b0 spc s') cl) =
      bytes_at (mem s) buffer (unat n) @ drop (unat n) (concat (map (cluster_bytes sec b0 spc s) cl)) \<and>
    (\<forall>c. c \<notin> set cl \<longrightarrow> cluster_bytes sec b0 spc s' c = cluster_bytes sec b0 spc s c) \<and>
    fatfile s' f = x\<lparr>ff_current_pos := ff_current_pos x + uint n\<rparr>"
  by (rule fat_write_in_place [OF assms(1) sectors_store [OF assms(2-4)] assms(5,6) singletonI assms(7,8)])

text \<open>
  C6. The way of the bytes of a file through the switch, the driver and the device: with the driver of
  the FAT file system behind a handle for reading and writing, what \<open>vfs_write\<close> has written in place
  is what \<open>vfs_read\<close> delivers into another buffer, after \<open>vfs_seek\<close> to where the writing started.
\<close>

theorem write_read_back:
  fixes n buffer buffer' :: u32 and s :: "'d fat vfs"
  assumes "in_place s h f n x v cl" "stores_sectors D (fm_device v) bps K B fixed sec pos keeps" "fat_layout (ff_mount x) v cl b0 spc bps keeps"
    "has_room spc bps b0 cl K B {cb, cb'}" "keeps s" "pool s = cb # cb' # ps" "free_at fixed cb (nat (fm_cluster_size v))"
    "clear_of cb (nat (fm_cluster_size v)) buffer (unat n)" "clear_of cb' (nat (fm_cluster_size v)) buffer' (unat n)"
    "free_at fixed buffer' (unat n)"
    "\<forall>t. keeps t \<longrightarrow> follow t (ff_mount x) (uint (e_start_cluster (ff_entry x))) (nat (ff_current_pos x div fm_cluster_size v)) = hd cl"
    "\<forall>t. keeps t \<longrightarrow> (\<forall>call \<in> {ct_write, ct_seek, ct_read}. call (handle_calls t h) \<noteq> NULL)"
    "h \<noteq> NULL" "has_mode s h VFS_MODE_WRITE" "has_mode s h VFS_MODE_READ" "\<not> has_mode s h VFS_MODE_APPEND"
  shows "\<exists>s1 s2 s3. vfs_write (fat_driver D garbage) h buffer n s = Some (SUCCESS, s1) \<and>
    vfs_seek (fat_driver D garbage) h (word_of_int (ff_current_pos x)) VFS_SEEK_START s1 = Some (ff_current_pos x, s2) \<and>
    vfs_read (fat_driver D garbage) h buffer' n s2 = Some (uint n, s3) \<and>
    bytes_at (mem s3) buffer' (unat n) = bytes_at (mem s) buffer (unat n)"
proof -
  obtain s1 s2 s3 where r: "fat_write D h buffer n s = Some (SUCCESS, s1)"
    "fat_seek h (word_of_int (ff_current_pos x)) VFS_SEEK_START s1 = (ff_current_pos x, s2)"
    "fat_read D h buffer' n s2 = Some (uint n, s3)" "bytes_at (mem s3) buffer' (unat n) = bytes_at (mem s) buffer (unat n)"
    "keeps s1" "keeps s2" "handle_heap s1 = handle_heap s" "handle_heap s2 = handle_heap s"
    using fat_write_read_back [OF assms(1) sectors_store [OF assms(2-4)] assms(5,6) insertI1 insertI2 [OF singletonI] assms(7-11)] by blast
  have calls: "ct_write (handle_calls s h) \<noteq> NULL" "ct_seek (handle_calls s1 h) \<noteq> NULL" "ct_read (handle_calls s2 h) \<noteq> NULL"
    using assms(5,12) r(5,6) by simp_all
  have "vfs_write (fat_driver D garbage) h buffer n s = Some (SUCCESS, s1)"
    using r(1,7) calls(1) assms(13,14,16) by (simp add: vfs_write_def seek_if_append_def has_mode_def fat_driver_def SUCCESS_def FAIL_def)
  moreover have "vfs_seek (fat_driver D garbage) h (word_of_int (ff_current_pos x)) VFS_SEEK_START s1 = Some (ff_current_pos x, s2)"
    using r(2) calls(2) assms(13) by (simp add: vfs_seek_def fat_driver_def)
  moreover have "vfs_read (fat_driver D garbage) h buffer' n s2 = Some (uint n, s3)"
    using r(3,8) calls(3) assms(13,15) by (simp add: vfs_read_def has_mode_def fat_driver_def)
  ultimately show ?thesis using r(4) by blast
qed

section \<open>An example\<close>

text \<open>
  The file of 100 bytes of the example machine lies in the clusters 5 and 6, which are the sectors 4 and 5
  of the disk. The memory the transfers rely on is the boot sector and the table entry of cluster 5.
\<close>

definition chain_memory :: memory where "chain_memory = ex_memory(0x200A := 6)"

definition chain_disk :: "nat \<Rightarrow> bytes" where "chain_disk p = replicate 64 (of_nat p)"

definition store_start :: "disk fat vfs" where
  "store_start = ex_fat chain_memory FAT_16 0 VFS_MODE_READWRITE (0, chain_disk)"

definition store_fixed :: "u32 set" where
  "store_fixed = {a. unat (a - 0x1004) < 512} \<union> {0x200A, 0x200B}"

definition sector :: "disk fat vfs \<Rightarrow> int \<Rightarrow> bytes" where
  "sector s k = snd (device (world s)) (nat k)"

definition position :: "disk fat vfs \<Rightarrow> int" where
  "position s = int (fst (device (world s)))"

definition store_keeps :: "disk fat vfs \<Rightarrow> bool" where
  "store_keeps s \<longleftrightarrow> volume s = volume store_start \<and> fs_heap s = fs_heap store_start \<and> mp_heap s = mp_heap store_start \<and>
     handle_heap s = handle_heap store_start \<and> (\<forall>a \<in> store_fixed. mem s a = chain_memory a) \<and>
     (\<forall>k \<in> {4, 5}. length (sector s k) = 64)"

lemma store_keepsD:
  assumes "store_keeps s"
  shows "volume s a = volume (ex_fat ex_memory FAT_16 0 0 (0, chain_disk)) a" "handle_calls s a = ex_calltable"
    "h_mode (handle_heap s 0x500) = VFS_MODE_READWRITE" "a \<in> store_fixed \<Longrightarrow> mem s a = chain_memory a"
    "k \<in> {4, 5} \<Longrightarrow> length (sector s k) = 64"
proof -
  note keeps = assms [unfolded store_keeps_def]
  show "volume s a = volume (ex_fat ex_memory FAT_16 0 0 (0, chain_disk)) a" using keeps by (simp add: store_start_def)
  have "handle_calls s a = handle_calls store_start a" using keeps by (simp add: handle_calls_def mount_calls_def)
  then show "handle_calls s a = ex_calltable" by (simp add: store_start_def)
  show "h_mode (handle_heap s 0x500) = VFS_MODE_READWRITE" using keeps by (simp add: store_start_def)
  show "a \<in> store_fixed \<Longrightarrow> mem s a = chain_memory a" "k \<in> {4, 5} \<Longrightarrow> length (sector s k) = 64" using keeps by blast+
qed

lemma store_keepsI:
  assumes "store_keeps s" "volume s' = volume s" "fs_heap s' = fs_heap s" "mp_heap s' = mp_heap s" "handle_heap s' = handle_heap s"
    "\<And>a. a \<in> store_fixed \<Longrightarrow> mem s' a = mem s a" "\<And>k. k \<in> {4, 5} \<Longrightarrow> length (sector s' k) = 64"
  shows "store_keeps s'"
  using assms unfolding store_keeps_def by simp

text \<open>The cluster buffers and the two buffers of the caller are clear of that memory.\<close>

lemma store_apart:
  assumes "a \<in> store_fixed" "x \<in> {0x4000, 0x5000, 0x8000, 0x9000}"
  shows "100 \<le> unat (a - x)"
proof (cases "a \<in> {0x200A, 0x200B}")
  case True
  then show ?thesis using assms(2) by auto
next
  case False
  define i where "i = unat (a - 0x1004)"
  have i: "i < 512" "a = 0x1004 + of_nat i" using assms(1) False by (auto simp: store_fixed_def i_def)
  have "a - 0x4000 = of_nat (4294955012 + i)" "a - 0x5000 = of_nat (4294950916 + i)" "a - 0x8000 = of_nat (4294938628 + i)"
    "a - 0x9000 = of_nat (4294934532 + i)" by (simp_all add: i(2))
  then show ?thesis using assms(2) i(1) by (auto simp: unat_of_nat_u32 simp del: of_nat_add of_nat_numeral)
qed

lemma chain_set_mem [simp]: "set_mem m (set_device d s) = set_device d (set_mem m s)" "set_mem m (set_mem m' s) = set_mem m s"
  "set_device d (set_device d' s) = set_device d s" "fatfile (set_mem m s) = fatfile s" "handle_calls (set_mem m s) = handle_calls s"
  "handle_heap (set_mem m s) = handle_heap s" "device (world (set_mem m s)) = device (world s)"
  by (simp_all add: set_mem_def set_device_def fatfile_def handle_calls_def mount_calls_def fun_eq_iff)

lemma boot_cong:
  assumes "\<And>i. i < 512 \<Longrightarrow> mem s (boot_address mount + of_nat i) = mem s' (boot_address mount + of_nat i)"
  shows "boot s mount fld = boot s' mount fld"
proof -
  obtain off k where f: "boot_field fld = (off, k)" "off + k \<le> 512" by (cases fld) simp_all
  have "bytes_at (mem s) (boot_address mount + of_nat off) k = bytes_at (mem s') (boot_address mount + of_nat off) k"
  proof (rule le_bytes_at_cong)
    fix i assume "i < k"
    then show "mem s (boot_address mount + of_nat off + of_nat i) = mem s' (boot_address mount + of_nat off + of_nat i)"
      using assms [of "off + i"] f(2) by (simp add: add.assoc)
  qed
  then show ?thesis by (simp add: boot_def f)
qed

lemma store_boot:
  assumes "store_keeps s"
  shows "boot s 0x1000 fld = boot (ex_fat ex_memory FAT_16 0 0 (0, chain_disk)) 0x1000 fld"
proof (rule boot_cong)
  fix i :: nat assume i: "i < 512"
  have "boot_address 0x1000 + of_nat i \<in> store_fixed"
    using i by (simp add: boot_address_def store_fixed_def unat_of_nat_u32)
  moreover have "boot_address 0x1000 + of_nat i = of_nat (4100 + i)" by (simp add: boot_address_def)
  moreover have "of_nat (4100 + i) \<noteq> (0x200A :: u32)"
    using i of_nat_eq_u32 [of "4100 + i" 8202] by simp
  ultimately show "mem s (boot_address 0x1000 + of_nat i) = mem (ex_fat ex_memory FAT_16 0 0 (0, chain_disk)) (boot_address 0x1000 + of_nat i)"
    using store_keepsD(4) [OF assms] by (simp add: chain_memory_def)
qed

lemma store_next:
  assumes "store_keeps s"
  shows "fat_getFATCluster s 0x1000 5 = 6"
proof -
  have "mem s 0x200A = 6" "mem s 0x200B = 0"
    using store_keepsD(4) [OF assms] by (simp_all add: store_fixed_def chain_memory_def ex_memory_def)
  then show ?thesis
    by (simp add: fat_getFATCluster_def store_keepsD(1) [OF assms] bytes_at_few FAT_12_def FAT_16_def FAT_CLUSTER16_def FAT_ENDOFCLUSTER_def)
qed

lemma store_disk:
  "fs_heap (set_device e s) = fs_heap s" "mp_heap (set_device e s) = mp_heap s" "fs_heap (set_mem m s) = fs_heap s"
  "mp_heap (set_mem m s) = mp_heap s" "handle_heap (set_mem m s) = handle_heap s" "volume (set_mem m s) = volume s"
  "pool (set_mem m s) = pool s" "sector (set_mem m s) = sector s" "sector (set_device (p, d) s) = (\<lambda>k. d (nat k))"
  "position (set_mem m s) = position s" "position (set_device (p, d) s) = int p"
  by (simp_all add: sector_def position_def set_device_def set_mem_def volume_def fun_eq_iff)

lemma store_device: "device (world s) = (p, d) \<Longrightarrow> sector s = (\<lambda>k. d (nat k)) \<and> position s = int p"
  by (simp add: sector_def position_def fun_eq_iff)

lemma store_seek:
  assumes "store_keeps s" "k \<in> {4, 5}"
  shows "\<exists>r s'. vfs_seek ex_disk_drivers 0x500 (word_of_int (k * int 64 + 1)) VFS_SEEK_START s = Some (r, s') \<and> r \<noteq> FAIL \<and> store_keeps s' \<and>
    position s' = k \<and> same_files s s' \<and> sector s' = sector s \<and> mem s' = mem s"
proof -
  let ?d = "snd (device (world s))"
  let ?s = "set_device (nat k, ?d) s"
  have sec: "sector ?s = sector s" by (simp add: store_disk sector_def fun_eq_iff)
  have "vfs_seek ex_disk_drivers 0x500 (word_of_int (k * int 64 + 1)) VFS_SEEK_START s = Some (0, ?s)"
    using assms(2) by (auto simp: vfs_seek_def store_keepsD(2) [OF assms(1)] ex_calltable_def) (auto simp: ex_disk_drivers_def)
  moreover have "store_keeps ?s"
    by (rule store_keepsI [OF assms(1)], simp_all only: sec) (use store_keepsD(5) [OF assms(1)] in \<open>simp_all add: store_disk\<close>)
  moreover have "position ?s = k" using assms(2) by (auto simp: store_disk)
  ultimately show ?thesis using sec by (intro exI [of _ 0] exI [of _ ?s]) (simp add: same_files_def FAIL_def)
qed

lemma store_read:
  assumes k: "store_keeps s" and p: "position s \<in> {4, 5}" and a: "a \<in> {0x4000, 0x5000}"
  shows "\<exists>r s'. vfs_read ex_disk_drivers 0x500 a (of_nat 64) s = Some (r, s') \<and> r \<noteq> FAIL \<and> store_keeps s' \<and> position s' = position s + 1 \<and>
    same_files s s' \<and> sector s' = sector s \<and> bytes_at (mem s') a 64 = sector s (position s) \<and>
    (\<forall>b. 64 \<le> unat (b - a) \<longrightarrow> mem s' b = mem s b)"
proof -
  obtain q d where dev: "device (world s) = (q, d)" by (cases "device (world s)")
  have sp: "sector s = (\<lambda>k. d (nat k))" "position s = int q" using store_device [OF dev] by simp_all
  let ?s = "set_device (q + 1, d) (set_mem (put_bytes (mem s) a (d q)) s)"
  have len: "length (d q) = 64" using store_keepsD(5) [OF k p] unfolding sp by simp
  have out: "put_bytes (mem s) a (d q) b = mem s b" if "64 \<le> unat (b - a)" for b using that by (simp add: put_bytes_def len)
  have k': "store_keeps ?s"
  proof (rule store_keepsI [OF k])
    fix b assume "b \<in> store_fixed"
    then have "100 \<le> unat (b - a)" using a by (intro store_apart) auto
    then show "mem ?s b = mem s b" using out [of b] by simp
  qed (use store_keepsD(5) [OF k] in \<open>simp_all add: store_disk sp\<close>)
  have "vfs_read ex_disk_drivers 0x500 a (of_nat 64) s = Some (0, ?s)"
    using len by (simp add: vfs_read_def has_mode_def store_keepsD(2,3) [OF k] ex_calltable_def VFS_MODE_READWRITE_def VFS_MODE_READ_def)
      (simp add: ex_disk_drivers_def dev)
  moreover have "bytes_at (mem ?s) a 64 = sector s (position s)"
    using bytes_at_put_bytes [of "d q" "mem s" a] len by (simp add: sp)
  ultimately show ?thesis
    using k' out by (intro exI [of _ 0] exI [of _ ?s]) (simp add: same_files_def store_disk sp FAIL_def)
qed

lemma store_write:
  assumes k: "store_keeps s" and p: "position s \<in> {4, 5}"
  shows "\<exists>r s'. vfs_write ex_disk_drivers 0x500 a (of_nat 64) s = Some (r, s') \<and> r \<noteq> FAIL \<and> store_keeps s' \<and> position s' = position s + 1 \<and>
    same_files s s' \<and> sector s' = (sector s)(position s := bytes_at (mem s) a 64) \<and> mem s' = mem s"
proof -
  obtain q d where dev: "device (world s) = (q, d)" by (cases "device (world s)")
  have sp: "sector s = (\<lambda>k. d (nat k))" "position s = int q" using store_device [OF dev] by simp_all
  let ?s = "set_device (q + 1, d(q := bytes_at (mem s) a 64)) s"
  have sec: "sector ?s = (sector s)(position s := bytes_at (mem s) a 64)"
  proof
    fix k
    have "nat k = q \<longleftrightarrow> k = int q" using p sp(2) by auto
    then show "sector ?s k = ((sector s)(position s := bytes_at (mem s) a 64)) k" by (simp add: store_disk sp)
  qed
  have k': "store_keeps ?s"
    by (rule store_keepsI [OF k], simp_all only: sec) (use store_keepsD(5) [OF k] in \<open>simp_all add: store_disk\<close>)
  have "vfs_write ex_disk_drivers 0x500 a (of_nat 64) s = Some (0, ?s)"
    by (simp add: vfs_write_def has_mode_def store_keepsD(2,3) [OF k] ex_calltable_def VFS_MODE_READWRITE_def VFS_MODE_WRITE_def
        VFS_MODE_APPEND_def) (simp add: ex_disk_drivers_def dev FAIL_def seek_if_append_def has_mode_def
        store_keepsD(3) [OF k] VFS_MODE_READWRITE_def VFS_MODE_APPEND_def VFS_MODE_READ_def VFS_MODE_WRITE_def)
  then show ?thesis using k' sec by (intro exI [of _ 0] exI [of _ ?s]) (simp add: same_files_def sp store_disk FAIL_def)
qed

lemma store_sectors:
  "stores_sectors ex_disk_drivers (fm_device (volume store_start 0x1000)) 64 {4, 5} {0x4000, 0x5000} store_fixed sector position store_keeps"
proof -
  have v: "fm_device (volume store_start 0x1000) = 0x500" by (simp add: store_start_def)
  show ?thesis
    unfolding stores_sectors_def v
  proof (intro allI impI conjI ballI)
    fix s assume k: "store_keeps s"
    show "length (sector s i) = 64" if "i \<in> {4, 5}" for i by (rule store_keepsD(5) [OF k that])
    show "\<exists>r s'. vfs_seek ex_disk_drivers 0x500 (word_of_int (i * int 64 + 1)) VFS_SEEK_START s = Some (r, s') \<and> r \<noteq> FAIL \<and> store_keeps s' \<and>
        position s' = i \<and> same_files s s' \<and> sector s' = sector s \<and> mem s' = mem s" if "i \<in> {4, 5}" for i
      by (rule store_seek [OF k that])
    fix a :: u32 assume a: "a \<in> {0x4000, 0x5000}" and p: "position s \<in> {4, 5}"
    show "\<exists>r s'. vfs_read ex_disk_drivers 0x500 a (of_nat 64) s = Some (r, s') \<and> r \<noteq> FAIL \<and> store_keeps s' \<and> position s' = position s + 1 \<and>
        same_files s s' \<and> sector s' = sector s \<and> bytes_at (mem s') a 64 = sector s (position s) \<and>
        (\<forall>b. 64 \<le> unat (b - a) \<longrightarrow> mem s' b = mem s b)" by (rule store_read [OF k p a])
    show "\<exists>r s'. vfs_write ex_disk_drivers 0x500 a (of_nat 64) s = Some (r, s') \<and> r \<noteq> FAIL \<and> store_keeps s' \<and> position s' = position s + 1 \<and>
        same_files s s' \<and> sector s' = (sector s)(position s := bytes_at (mem s) a 64) \<and> mem s' = mem s" by (rule store_write [OF k p])
  next
    fix s s' assume k: "store_keeps s" and a: "agree store_fixed s s'"
    show st: "sector s' = sector s" "position s' = position s" using a by (simp_all add: agree_def sector_def position_def fun_eq_iff)
    show "store_keeps s'"
      by (rule store_keepsI [OF k], simp_all only: st) (use a store_keepsD(5) [OF k] in \<open>simp_all add: agree_def\<close>)
  qed
qed

lemma store_layout: "fat_layout 0x1000 (volume store_start 0x1000) [5, 6] (-1) 1 64 store_keeps"
proof -
  have "fat_cluster2block t 0x1000 c = Some (c - 1)" if "store_keeps t" "c \<in> {5, 6}" for t c
    using that(2) by (auto simp: fat_cluster2block_def store_boot [OF that(1)] store_keepsD(1) [OF that(1)] ENTRY_SIZE_def wrap32_small)
  moreover have "volume t 0x1000 = volume store_start 0x1000" if "store_keeps t" for t using that by (simp add: store_keeps_def)
  ultimately show ?thesis
    using store_boot store_next unfolding fat_layout_def by (simp add: store_start_def)
qed

text \<open>The first hundred bytes of the file at position 0, which take its two clusters.\<close>

lemma store_clear:
  assumes "x \<in> {0x8000, 0x9000}" "cb \<in> {0x4000, 0x5000}"
  shows "clear_of cb 64 x 100"
  unfolding clear_of_def
proof (intro allI impI)
  fix i :: nat assume i: "i < 100"
  have "0x8000 + of_nat i - 0x4000 = (of_nat (16384 + i) :: u32)" "0x8000 + of_nat i - 0x5000 = (of_nat (12288 + i) :: u32)"
    "0x9000 + of_nat i - 0x4000 = (of_nat (20480 + i) :: u32)" "0x9000 + of_nat i - 0x5000 = (of_nat (16384 + i) :: u32)"
    by simp_all
  then show "64 \<le> unat (x + of_nat i - cb)" using i assms by (auto simp: unat_of_nat_u32 simp del: of_nat_add of_nat_numeral)
qed

lemma store_free: "x \<in> {0x4000, 0x5000, 0x8000, 0x9000} \<Longrightarrow> k \<le> 100 \<Longrightarrow> free_at store_fixed x k"
  unfolding free_at_def using store_apart by (meson le_trans)

lemma store_begin:
  "in_place store_start 0x510 0x520 100 (ex_file 0) (volume store_start 0x1000) [5, 6]" "store_keeps store_start"
  "pool store_start = [0x4000, 0x5000, 0x6000]" "nat (fm_cluster_size (volume store_start 0x1000)) = 64" "unat (100 :: u32) = 100"
  by (simp add: in_place_def Let_def store_start_def ex_file_def ex_entry_def position_ok_def FAIL_def FAT_FREECLUSTER_def)
    (simp add: store_keeps_def sector_def, simp_all add: store_start_def chain_disk_def)

lemma store_file:
  "fat_layout (ff_mount (ex_file 0)) (volume store_start 0x1000) [5, 6] (-1) 1 64 store_keeps"
  "has_room 1 64 (-1) [5, 6] {4, 5} {0x4000, 0x5000} {0x4000}" "has_room 1 64 (-1) [5, 6] {4, 5} {0x4000, 0x5000} {0x4000, 0x5000}"
proof -
  have "ff_mount (ex_file 0) = 0x1000" by (simp add: ex_file_def)
  then show "fat_layout (ff_mount (ex_file 0)) (volume store_start 0x1000) [5, 6] (-1) 1 64 store_keeps" using store_layout by (simp only:)
qed (simp_all add: has_room_def cluster_sectors_def)

lemma store_clusters: "concat (map (cluster_bytes sector (-1) 1 s) [5, 6]) = sector s 4 @ sector s 5"
  by (simp add: cluster_bytes_def cluster_sectors_def)

theorem read_chain_witness:
  "\<exists>s'. fat_read ex_disk_drivers 0x510 0x8000 100 store_start = Some (100, s') \<and> bytes_at (mem s') 0x8000 100 = replicate 64 4 @ replicate 36 5"
proof -
  have old: "sector store_start 4 = replicate 64 4" "sector store_start 5 = replicate 64 5"
    by (simp_all add: store_start_def sector_def chain_disk_def)
  have "clear_of 0x4000 (nat (fm_cluster_size (volume store_start 0x1000))) 0x8000 (unat (100 :: u32))" "free_at store_fixed 0x8000 (unat (100 :: u32))"
    unfolding store_begin(4,5) by (simp_all add: store_free store_clear)
  from read_chain [OF store_begin(1) store_sectors store_file(1,2) store_begin(2,3) this]
  show ?thesis unfolding store_clusters old store_begin(5) by auto
qed

theorem write_chain_witness:
  "\<exists>s'. fat_write ex_disk_drivers 0x510 0x8000 100 store_start = Some (SUCCESS, s') \<and>
    sector s' 4 @ sector s' 5 = bytes_at chain_memory 0x8000 100 @ replicate 28 5"
proof -
  have old: "drop 100 (sector store_start 4 @ sector store_start 5) = replicate 28 5" "mem store_start = chain_memory"
    by (simp_all add: store_start_def sector_def chain_disk_def)
  have "free_at store_fixed 0x4000 (nat (fm_cluster_size (volume store_start 0x1000)))"
    "clear_of 0x4000 (nat (fm_cluster_size (volume store_start 0x1000))) 0x8000 (unat (100 :: u32))"
    unfolding store_begin(4,5) by (simp_all add: store_free store_clear)
  from write_chain [OF store_begin(1) store_sectors store_file(1,2) store_begin(2,3) this]
  show ?thesis unfolding store_clusters store_begin(5) old by blast
qed

theorem write_read_back_witness:
  "\<exists>s1 s2 s3. vfs_write (fat_driver ex_disk_drivers (ex_entry 0 0)) 0x510 0x8000 100 store_start = Some (SUCCESS, s1) \<and>
    vfs_seek (fat_driver ex_disk_drivers (ex_entry 0 0)) 0x510 0 VFS_SEEK_START s1 = Some (0, s2) \<and>
    vfs_read (fat_driver ex_disk_drivers (ex_entry 0 0)) 0x510 0x9000 100 s2 = Some (100, s3) \<and>
    bytes_at (mem s3) 0x9000 100 = bytes_at chain_memory 0x8000 100"
proof -
  have m: "ff_current_pos (ex_file 0) = 0" "mem store_start = chain_memory"
    by (simp_all add: ex_file_def store_start_def)
  let ?cs = "nat (fm_cluster_size (volume store_start 0x1000))"
  have fr: "free_at store_fixed 0x4000 ?cs" "clear_of 0x4000 ?cs 0x8000 (unat (100 :: u32))"
    "clear_of 0x5000 ?cs 0x9000 (unat (100 :: u32))" "free_at store_fixed 0x9000 (unat (100 :: u32))"
    unfolding store_begin(4,5) by (simp_all add: store_free store_clear)
  have start: "\<forall>t. store_keeps t \<longrightarrow> follow t (ff_mount (ex_file 0)) (uint (e_start_cluster (ff_entry (ex_file 0))))
      (nat (ff_current_pos (ex_file 0) div fm_cluster_size (volume store_start 0x1000))) = hd [5, 6]"
    by (simp add: ex_file_def ex_entry_def)
  have calls: "\<forall>t. store_keeps t \<longrightarrow> (\<forall>call \<in> {ct_write, ct_seek, ct_read}. call (handle_calls t 0x510) \<noteq> NULL)"
    using store_keepsD(2) by (simp add: ex_calltable_def)
  have mode: "has_mode store_start 0x510 VFS_MODE_WRITE" "has_mode store_start 0x510 VFS_MODE_READ"
    "\<not> has_mode store_start 0x510 VFS_MODE_APPEND"
    by (simp_all add: has_mode_def store_start_def VFS_MODE_READWRITE_def VFS_MODE_READ_def VFS_MODE_WRITE_def VFS_MODE_APPEND_def)
  from write_read_back [OF store_begin(1) store_sectors store_file(1,3) store_begin(2,3) fr start calls _ mode, of "ex_entry 0 0"]
  show ?thesis unfolding m store_begin(4,5) by simp
qed

end
