(* ===== verification/FatCreateProps.thy ===== *)
theory FatCreateProps
  imports FatChain
begin

text \<open>
  Properties of writing entries of directories of a FAT volume (\<open>fat_updateFileEntry\<close>), and of creating a file
  in the root directory, on a device that stores clusters.
\<close>

section \<open>The slots of a directory\<close>

text \<open>Slot \<open>j\<close> of a directory cluster, its first unused slot (not the last one), and an entry put there.\<close>

definition dir_slot :: "bytes \<Rightarrow> nat \<Rightarrow> fat_entry" where
  "dir_slot d j = fat_entry_of_bytes (take ENTRY_SIZE (drop (ENTRY_SIZE * j) d))"

definition used_slot :: "fat_entry \<Rightarrow> bool" where
  "used_slot e \<longleftrightarrow> e_file_size e = -1 \<or> e_name e ! 0 \<noteq> 0"

definition unused_slot :: "bytes \<Rightarrow> nat \<Rightarrow> bool" where
  "unused_slot d i \<longleftrightarrow> (\<forall>j < i. used_slot (dir_slot d j)) \<and> \<not> used_slot (dir_slot d i) \<and> Suc i < length d div ENTRY_SIZE"

text \<open>The name of the slot behind the new entry is ended at its first byte.\<close>

definition enter :: "bytes \<Rightarrow> nat \<Rightarrow> fat_entry \<Rightarrow> bytes" where
  "enter d i e = take (ENTRY_SIZE * i) d @ bytes_of_fat_entry e @ (drop (ENTRY_SIZE * Suc i) d)[0 := 0]"

lemma entry_of_slot:
  assumes "ENTRY_SIZE * Suc j \<le> n"
  shows "entry_of m dir (int j) = dir_slot (bytes_at m dir n) j"
proof -
  have "take ENTRY_SIZE (drop (ENTRY_SIZE * j) (bytes_at m dir n)) = bytes_at m (dir + of_nat (ENTRY_SIZE * j)) ENTRY_SIZE"
    by (rule bytes_at_part) (use assms in simp)
  moreover have "(word_of_int (int ENTRY_SIZE * int j) :: u32) = of_nat (ENTRY_SIZE * j)"
    by simp
  ultimately show ?thesis unfolding entry_of_def dir_slot_def by (simp only:)
qed

lemma free_entry_first:
  assumes "\<forall>l. j \<le> l \<and> l < i \<longrightarrow> used_slot (entry_of m dir (int l))" "\<not> used_slot (entry_of m dir (int i))"
    "j \<le> i" "Suc i < j + left"
  shows "free_entry m dir (int j) left = Some (int i, m(dir + of_nat (ENTRY_SIZE * Suc i) := 0))"
  using assms
proof (induction left arbitrary: j)
  case (Suc left)
  let ?e = "entry_of m dir (int j)"
  have w: "dir + word_of_int (int ENTRY_SIZE * (int i + 1)) = dir + of_nat (ENTRY_SIZE * Suc i)"
    by (simp add: distrib_left)
  show ?case
  proof (cases "j = i")
    case True
    have "e_file_size ?e \<noteq> -1" "e_name ?e ! 0 = 0" "left \<noteq> 0"
      using Suc.prems(2,4) unfolding True used_slot_def by simp_all
    then show ?thesis unfolding free_entry.simps(2) Let_def True w by (simp add: fun_upd_def)
  next
    case False
    then have u: "used_slot ?e" using Suc.prems(1,3) by simp
    have ih: "free_entry m dir (int (Suc j)) left = Some (int i, m(dir + of_nat (ENTRY_SIZE * Suc i) := 0))"
      by (rule Suc.IH) (use Suc.prems False in auto)
    have e: "int (Suc j) = int j + 1" by simp
    have "free_entry m dir (int j) (Suc left) = free_entry m dir (int j + 1) left"
      using u unfolding free_entry.simps(2) Let_def used_slot_def by auto
    then show ?thesis using ih unfolding e by (rule trans)
  qed
qed simp

lemma free_entry_slot:
  assumes "unused_slot (bytes_at m dir n) i"
  shows "free_entry m dir 0 (n div ENTRY_SIZE) = Some (int i, m(dir + of_nat (ENTRY_SIZE * Suc i) := 0))"
proof -
  have i: "Suc i < n div ENTRY_SIZE" using assms by (simp add: unused_slot_def)
  have "ENTRY_SIZE * Suc l \<le> n" if "l \<le> i" for l
  proof -
    have "ENTRY_SIZE * Suc l \<le> ENTRY_SIZE * (n div ENTRY_SIZE)" using that i by (intro mult_le_mono2) simp
    also have "\<dots> \<le> n" by simp
    finally show ?thesis .
  qed
  then have e: "entry_of m dir (int l) = dir_slot (bytes_at m dir n) l" if "l \<le> i" for l
    using that by (intro entry_of_slot) blast
  have "free_entry m dir (int 0) (n div ENTRY_SIZE) = Some (int i, m(dir + of_nat (ENTRY_SIZE * Suc i) := 0))"
  proof (rule free_entry_first)
    show "\<forall>l. 0 \<le> l \<and> l < i \<longrightarrow> used_slot (entry_of m dir (int l))" using assms e by (simp add: unused_slot_def)
    show "\<not> used_slot (entry_of m dir (int i))" using assms e [of i] by (simp add: unused_slot_def)
  qed (use i in simp_all)
  then show ?thesis by simp
qed

section \<open>The bytes of an entry in a buffer\<close>

lemma unat_offsets:
  assumes "k < 2 ^ 31" "c < 2 ^ 31"
  shows "unat (a + of_nat k - (a + of_nat c) :: u32) = (if c \<le> k then k - c else 4294967296 + k - c)"
proof -
  have "a + of_nat k - (a + of_nat c) = (of_nat k - of_nat c :: u32)" by simp
  moreover have "unat (of_nat k :: u32) = k" "unat (of_nat c :: u32) = c"
    using assms by (simp_all add: unat_of_nat_u32)
  ultimately show ?thesis using unat_diff [of "of_nat k :: u32" "of_nat c"] by simp
qed

lemma bytes_at_enter:
  assumes "n < 2 ^ 31" "ENTRY_SIZE * Suc i < n" "length bs = ENTRY_SIZE"
  shows "bytes_at (put_bytes (m(dir + of_nat (ENTRY_SIZE * Suc i) := 0)) (dir + of_nat (ENTRY_SIZE * i)) bs) dir n =
    take (ENTRY_SIZE * i) (bytes_at m dir n) @ bs @ (drop (ENTRY_SIZE * Suc i) (bytes_at m dir n))[0 := 0]"
    (is "bytes_at ?m dir n = ?r")
proof (rule nth_equalityI)
  let ?c = "ENTRY_SIZE * i" and ?k = "ENTRY_SIZE * Suc i"
  have ck: "?k = ?c + ENTRY_SIZE" by simp
  show "length (bytes_at ?m dir n) = length ?r" using assms(2,3) by simp
  fix k assume "k < length (bytes_at ?m dir n)"
  then have k: "k < n" by simp
  have c31: "?c < 2 ^ 31" "?k < 2 ^ 31" "k < 2 ^ 31" using assms(1,2) k ck by linarith+
  note u = unat_offsets [OF c31(3,1), of dir]
  have eq: "dir + of_nat k = dir + of_nat ?k \<longleftrightarrow> k = ?k"
    using of_nat_eq_u32 [of k ?k] c31 by simp
  consider "k < ?c" | "?c \<le> k" "k < ?k" | "?k \<le> k" by linarith
  then show "bytes_at ?m dir n ! k = ?r ! k"
  proof cases
    case 1
    then have "unat (dir + of_nat k - (dir + of_nat ?c)) = 4294967296 + k - ?c" using u by (simp only: not_le if_not_P)
    moreover have g: "(2 :: nat) ^ 31 = 2147483648" by simp
    have "ENTRY_SIZE \<le> 4294967296 + k - ?c" using c31(2) ck unfolding g by linarith
    ultimately have "\<not> unat (dir + of_nat k - (dir + of_nat ?c)) < length bs" using assms(3) by simp
    then show ?thesis using 1 k ck assms(2,3) eq by (simp add: put_bytes_def nth_append del: of_nat_mult)
  next
    case 2
    then have "unat (dir + of_nat k - (dir + of_nat ?c)) = k - ?c" using u by simp
    moreover have "k - ?c < ENTRY_SIZE" using 2 ck by linarith
    ultimately show ?thesis using k assms(2,3) 2 by (simp add: put_bytes_def nth_append)
  next
    case 3
    then have "unat (dir + of_nat k - (dir + of_nat ?c)) = k - ?c" using u ck by simp
    moreover have "\<not> k - ?c < ENTRY_SIZE" "\<not> k < ?c" "k - ?c - ENTRY_SIZE = k - ?k" "?k + (k - ?k) = k" using 3 ck by linarith+
    ultimately show ?thesis
      using k assms(2,3) eq 3
      by (simp add: put_bytes_def nth_append nth_list_update)
  qed
qed

lemma outside_enter:
  assumes "n < 2 ^ 31" "ENTRY_SIZE * Suc i < n" "length bs = ENTRY_SIZE" "n \<le> unat (a - dir)"
  shows "put_bytes (m(dir + of_nat (ENTRY_SIZE * Suc i) := 0)) (dir + of_nat (ENTRY_SIZE * i)) bs a = m a"
proof -
  have small: "unat (of_nat (ENTRY_SIZE * i) :: u32) = ENTRY_SIZE * i" "unat (of_nat (ENTRY_SIZE * Suc i) :: u32) = ENTRY_SIZE * Suc i"
    using assms(1,2) by (simp_all add: unat_of_nat_u32 del: of_nat_mult of_nat_add of_nat_Suc)
  have e: "a - (dir + of_nat (ENTRY_SIZE * i)) = a - dir - of_nat (ENTRY_SIZE * i)" by (simp add: algebra_simps)
  have "ENTRY_SIZE * i \<le> unat (a - dir)" using assms(2,4) by simp
  then have "unat (a - dir - of_nat (ENTRY_SIZE * i)) = unat (a - dir) - ENTRY_SIZE * i"
    using unat_sub_nowrap [of "of_nat (ENTRY_SIZE * i)" "a - dir"] unfolding small by blast
  then have "\<not> unat (a - (dir + of_nat (ENTRY_SIZE * i))) < length bs" unfolding e using assms(2,3,4) by simp
  moreover have "a \<noteq> dir + of_nat (ENTRY_SIZE * Suc i)"
  proof
    assume "a = dir + of_nat (ENTRY_SIZE * Suc i)"
    then have "unat (a - dir) = ENTRY_SIZE * Suc i" using small(2) by simp
    then show False using assms(2,4) by linarith
  qed
  ultimately show ?thesis by (simp add: put_bytes_def)
qed

section \<open>Writing an entry\<close>

lemma updateFileEntry_stores:
  assumes st: "stores_clusters D mount v cl B fixed contents keeps" and s: "keeps s" "fatfile s f = x"
    and x: "ff_mount x = mount" "ff_dir_cluster x \<in> set cl" "ff_dir_index x = FAIL" "length (bytes_of_fat_entry (ff_entry x)) = ENTRY_SIZE"
    and dir: "pool s = dir # ps" "dir \<in> B" "free_at fixed dir n" and n: "n = nat (fm_cluster_size v)" "0 < n" "n < 2 ^ 31"
    and slot: "unused_slot (contents s (ff_dir_cluster x)) i"
  shows "\<exists>s'. fat_updateFileEntry D f s = Some (SUCCESS, s') \<and> keeps s' \<and> pool s' = ps \<and> handle_heap s' = handle_heap s \<and>
    contents s' = (contents s)(ff_dir_cluster x := enter (contents s (ff_dir_cluster x)) i (ff_entry x)) \<and>
    fatfile s' = (fatfile s)(f := x\<lparr>ff_dir_index := int i\<rparr>) \<and> (\<forall>a. n \<le> unat (a - dir) \<longrightarrow> mem s' a = mem s a)"
proof -
  let ?c = "ff_dir_cluster x" and ?e = "ff_entry x" and ?k = "ENTRY_SIZE * Suc i"
  obtain s1 where s1: "kmalloc n s = (dir, s1)" "pool s1 = ps" using kmalloc_first [OF dir(1), of n] n(2) by auto
  have w1: "fatfile s1 = fatfile s" "mem s1 = mem s" "handle_heap s1 = handle_heap s"
    using same_world_mem [OF same_world_heap(1) [OF s1(1)]] same_world_heap(1) [OF s1(1)] by (simp_all add: same_world_def)
  have k1: "keeps s1" "contents s1 = contents s" using storesD(6) [OF st s(1) agree_kmalloc [OF s1(1)]] by simp_all
  have v1: "volume s mount = v" "volume s1 mount = v" by (rule storesD(1) [OF st s(1)], rule storesD(1) [OF st k1(1)])
  obtain s2 where s2: "fat_rwCluster D mount ?c dir FAT_READ s1 = Some (SUCCESS, s2)" "keeps s2" "same_files s1 s2"
    "contents s2 = contents s" "bytes_at (mem s2) dir n = contents s ?c" "\<forall>a. n \<le> unat (a - dir) \<longrightarrow> mem s2 a = mem s a"
    using storesD(4) [OF st k1(1) x(2) dir(2)] unfolding k1(2) w1(2) n(1) by blast
  have f2: "fatfile s2 = fatfile s" "handle_heap s2 = handle_heap s" "pool s2 = ps"
    using s2(3) w1 s1(2) by (simp_all add: same_files_def)
  have v2: "volume s2 mount = v" by (rule storesD(1) [OF st s2(2)])
  have free: "free_entry (mem s2) dir 0 (n div ENTRY_SIZE) = Some (int i, (mem s2)(dir + of_nat ?k := 0))"
    by (rule free_entry_slot) (simp only: s2(5) slot)
  define m where "m = put_bytes ((mem s2)(dir + of_nat ?k := 0)) (dir + of_nat (ENTRY_SIZE * i)) (bytes_of_fat_entry ?e)"
  define s3 where "s3 = set_mem m (set_file f (\<lambda>y. y\<lparr>ff_dir_index := int i\<rparr>) s2)"
  have ki: "?k < n"
  proof -
    have "length (contents s ?c) = n" using storesD(3) [OF st s(1) x(2)] n(1) by simp
    then have "Suc i < n div ENTRY_SIZE" using slot by (simp add: unused_slot_def)
    then have "ENTRY_SIZE * Suc i < ENTRY_SIZE * (n div ENTRY_SIZE)" by (simp add: ENTRY_SIZE_def)
    then show ?thesis by (rule less_le_trans) simp
  qed
  have out: "m a = mem s2 a" if "n \<le> unat (a - dir)" for a
    unfolding m_def by (rule outside_enter [OF n(3) ki x(4) that])
  have b3: "bytes_at m dir n = enter (contents s ?c) i ?e"
    unfolding m_def bytes_at_enter [OF n(3) ki x(4)] s2(5) enter_def by (rule refl)
  have "agree fixed (set_file f (\<lambda>y. y\<lparr>ff_dir_index := int i\<rparr>) s2) s3"
    unfolding s3_def using dir(3) out by (intro agree_mem) (simp add: free_at_def)
  then have k3: "keeps s3" "contents s3 = contents s"
    using storesD(6) [OF st] storesD(6) [OF st s2(2) agree_file] s2(4) by metis+
  have m3: "mem s3 = m" "fatfile s3 = (fatfile s)(f := x\<lparr>ff_dir_index := int i\<rparr>)" "handle_heap s3 = handle_heap s" "pool s3 = ps"
    using f2 s(2) by (simp_all add: s3_def set_mem_def mem_def) (simp_all add: fatfile_def set_file_def)
  obtain s4 where s4: "fat_rwCluster D mount ?c dir FAT_WRITE s3 = Some (SUCCESS, s4)" "keeps s4" "same_files s3 s4"
    "contents s4 = (contents s)(?c := enter (contents s ?c) i ?e)" "mem s4 = m"
    using storesD(5) [OF st k3(1) x(2) dir(2)] unfolding k3(2) m3(1) n(1) [symmetric] b3 by blast
  have k5: "keeps (kfree dir s4)" "contents (kfree dir s4) = contents s4"
    using storesD(6) [OF st s4(2) agree_kfree] by simp_all
  let ?s = "set_file f (\<lambda>y. y\<lparr>ff_dir_index := int i\<rparr>) (set_mem ((mem s2)(dir + of_nat ?k := 0)) s2)"
  have put: "put_entry dir (int i) ?e ((mem s2)(dir + of_nat ?k := 0)) = m"
    by (simp add: put_entry_def m_def)
  have fs: "fatfile ?s f = x\<lparr>ff_dir_index := int i\<rparr>" "mem ?s = (mem s2)(dir + of_nat ?k := 0)" "set_mem m ?s = s3"
    using f2(1) s(2) by (simp_all add: s3_def fatfile_def set_mem_def set_file_def mem_def)
  have xi: "ff_entry (x\<lparr>ff_dir_index := int i\<rparr>) = ?e" "ff_dir_cluster (x\<lparr>ff_dir_index := int i\<rparr>) = ?c" by simp_all
  have up: "fat_updateFileEntry D f s = Some (SUCCESS, kfree dir s4)"
    unfolding fat_updateFileEntry_def Let_def s(2) x(1) v1(1) n(1) [symmetric] s1(1) prod.case w1(1) s2(1) bind.bind_lunit
      f2(1) v2 x(3) if_P [OF refl] free option.case fs
    by (simp only: xi put fs m3(2) fun_upd_same s4(1) bind.bind_lunit prod.case)
  have kf: "fatfile (kfree dir s4) = fatfile s4" "mem (kfree dir s4) = mem s4" "pool (kfree dir s4) = pool s4"
    "handle_heap (kfree dir s4) = handle_heap s4"
    by (simp_all add: fatfile_def kfree_def mem_def)
  have ff: "fatfile s4 = fatfile s3" "pool s4 = ps" "handle_heap s4 = handle_heap s"
    using s4(3) m3 by (simp_all add: same_files_def)
  have ms: "\<forall>a. n \<le> unat (a - dir) \<longrightarrow> mem s4 a = mem s a" using s4(5) s2(6) out by simp
  show ?thesis
    by (intro exI [of _ "kfree dir s4"] conjI up k5(1); unfold kf k5(2)) (rule ff ms s4(4) | simp only: ff m3(2))+
qed

section \<open>Creating a file\<close>

text \<open>The entry of a new file with the name \<open>b\<close> and \<open>rest\<close>, which is empty or starts with the dot.\<close>

definition created_entry :: "bytes \<Rightarrow> bytes \<Rightarrow> fat_entry" where
  "created_entry b rest = \<lparr>e_name = pad_to 8 (map toupper b), e_extension = pad_to 3 (stored_extension (tl rest)), e_attribute = 0x20,
     e_reserved = replicate 10 0, e_time = replicate 2 0, e_date = replicate 2 0, e_start_cluster = 0, e_file_size = 0\<rparr>"

lemma length_created_entry: "length b \<le> 8 \<Longrightarrow> length (bytes_of_fat_entry (created_entry b rest)) = ENTRY_SIZE"
  by (simp add: bytes_of_fat_entry_def created_entry_def pad_to_def stored_extension_def ENTRY_SIZE_def)

lemma stored_extension_upper: "stored_extension (tl (map toupper rest)) = stored_extension (tl rest)"
  by (cases rest) (auto simp: stored_extension_def last_map)

lemma le_replicate_zero: "le (replicate n 0) = 0"
  by (induction n) simp_all

lemma created_file_entry:
  assumes "0 \<notin> set b" "DOT \<notin> set b" "length b \<le> 8" "rest = [] \<or> hd rest = DOT" "0 \<notin> set rest"
  shows "created_file f vol (map toupper (b @ rest) @ 0 # t) s = set_file f (\<lambda>x. \<lparr>ff_mount = vol, ff_entry = created_entry b rest,
    ff_dir_cluster = uint (e_start_cluster (ff_entry x)), ff_dir_index = FAIL, ff_current_pos = 0\<rparr>) s"
proof -
  have n: "map toupper (b @ rest) @ 0 # t = map toupper b @ map toupper rest @ 0 # t" by simp
  have h: "map toupper rest = [] \<or> hd (map toupper rest) = DOT" using assms(4) by (cases rest) (auto simp: DOT_def toupper_def)
  have z: "0 \<notin> set (map toupper b)" "DOT \<notin> set (map toupper b)" "length (map toupper b) \<le> 8" "0 \<notin> set (map toupper rest)"
    using assms by (simp_all add: image_iff) (metis toupper_image(2) image_iff toupper_simps)+
  have zero: "fat_entry_of_bytes (replicate ENTRY_SIZE 0) = \<lparr>e_name = replicate 8 0, e_extension = replicate 3 0, e_attribute = 0,
     e_reserved = replicate 10 0, e_time = replicate 2 0, e_date = replicate 2 0, e_start_cluster = 0, e_file_size = 0\<rparr>"
    by (simp add: fat_entry_of_bytes_def ENTRY_SIZE_def le_replicate_zero)
  have all: "x\<lparr>ff_mount := a, ff_dir_index := j, ff_dir_cluster := k, ff_current_pos := p, ff_entry := e\<rparr> =
      \<lparr>ff_mount = a, ff_entry = e, ff_dir_cluster = k, ff_dir_index = j, ff_current_pos = p\<rparr>" for x a j k p e
    by (cases x) simp
  show ?thesis
    unfolding created_file_def Let_def setFileName_stores [OF n z(1-3) h z(4)] option.case prod.case
    by (simp add: created_entry_def zero all stored_extension_upper FAT_FREECLUSTER_def comp_def)
qed

text \<open>
  C37. Creating a file in the root directory, on a device that stores sectors (with one or two sectors per cluster). The name
  has at most eight characters and perhaps an extension; it is not there yet, nor does anything answer to the empty
  name; there is memory for the file and its name; and the cluster that the uninitialised entry of
  \<open>fat_file2entry\<close> names belongs to the volume and has an unused slot that is not its last. Then the call succeeds, but the new entry, with the name in
  capitals, only the last character of its extension, the archive bit, no cluster and no size, is not
  entered into the root directory: it goes to the first unused slot of the cluster of that
  uninitialised entry, whatever the stack held, and the first byte of the slot
  behind it is cleared. No other cluster is written, and no memory, the root directory
  included, but the cluster buffer.
\<close>

theorem create_in_garbage:
  assumes "mp_data_ptr (mp_heap s m) = vol" "vol \<noteq> NULL" "component (b @ rest)" "DOT \<notin> set b" "length b \<le> 8" "rest = [] \<or> hd rest = DOT"
    "pool s = f # d # cb # cb' # dir # ps" "f \<noteq> NULL" "d \<noteq> NULL"
    "fat_getIndex (mem s) (fm_rootdir v) (map toupper (b @ rest) @ 0 # t) = Some (FAIL, nm)"
    "fat_getIndex (mem s) (fm_rootdir v) (0 # tl (b @ rest) @ [0]) = Some (FAIL, nm')"
    "stores_sectors D (fm_device v) bps K B fixed sec pos keeps" "fat_layout vol v cl b0 spc bps keeps"
    "has_room spc bps b0 cl K B {dir}" "keeps s" "free_at fixed dir (spc * bps)"
    "uint (e_start_cluster g) \<in> set cl" "unused_slot (cluster_bytes sec b0 spc s (uint (e_start_cluster g))) i"
  shows "\<exists>s'. fat_create D g m (PATH_SLASH # (b @ rest) @ 0 # t) s = Some (SUCCESS, PATH_SLASH # map toupper (b @ rest) @ 0 # t, s') \<and>
    cluster_bytes sec b0 spc s' = (cluster_bytes sec b0 spc s)(uint (e_start_cluster g) :=
      enter (cluster_bytes sec b0 spc s (uint (e_start_cluster g))) i (created_entry b rest)) \<and>
    (\<forall>a. spc * bps \<le> unat (a - dir) \<longrightarrow> mem s' a = mem s a)"
proof -
  let ?C = "cluster_bytes sec b0 spc" and ?gc = "uint (e_start_cluster g)" and ?c = "map toupper (b @ rest)"
  have st: "stores_clusters D vol v cl {dir} fixed ?C keeps" by (rule sectors_store [OF assms(12,13,14)])
  have v: "volume s vol = v" by (rule storesD(1) [OF st assms(15)])
  have n: "spc * bps = nat (fm_cluster_size v)" using assms(13) unfolding fat_layout_def by (simp only: nat_int)
  have "length (?C s ?gc) = spc * bps" using storesD(3) [OF st assms(15,17)] n by simp
  then have "Suc i < (spc * bps) div ENTRY_SIZE" using assms(18) by (simp only: unused_slot_def)
  then have "spc * bps \<noteq> 0" by (metis div_0 not_less_zero)
  then have pos: "0 < spc * bps" "0 < fm_cluster_size v" using n by simp_all
  have small: "spc * bps < 2 ^ 31" using assms(13) by (auto simp: fat_layout_def)
  let ?file = "\<lambda>x. x\<lparr>ff_dir_cluster := FAIL, ff_dir_index := FAIL, ff_entry := g\<rparr>"
  obtain s4 where s4: "same_world s s4" "pool s4 = dir # ps"
    "fat_create D g m (PATH_SLASH # (b @ rest) @ 0 # t) s = do {
      (ret, s') \<leftarrow> create_in D vol f False (Some (?c @ 0 # t)) (kfree cb' (set_file f ?file s4));
      Some (ret, PATH_SLASH # ?c @ 0 # t, kfree f (kfree d s'))
    }"
    using create_root_calls [OF assms(1-3,7-9) pos(2) [folded v] assms(10,11) [folded v], of D g] by blast
  let ?s5 = "kfree cb' (set_file f ?file s4)"
  have c: "0 \<notin> set b" "0 \<notin> set rest" using assms(3) by (simp_all add: component_def)
  let ?x = "\<lparr>ff_mount = vol, ff_entry = created_entry b rest, ff_dir_cluster = ?gc, ff_dir_index = FAIL, ff_current_pos = 0\<rparr>"
  define s6 where "s6 = created_file f vol (?c @ 0 # t) ?s5"
  have s6: "s6 = set_file f (\<lambda>x. \<lparr>ff_mount = vol, ff_entry = created_entry b rest, ff_dir_cluster = uint (e_start_cluster (ff_entry x)),
      ff_dir_index = FAIL, ff_current_pos = 0\<rparr>) ?s5"
    unfolding s6_def by (rule created_file_entry [OF c(1) assms(4,5,6) c(2)])
  have ci: "create_in D vol f False (Some (?c @ 0 # t)) ?s5 = fat_updateFileEntry D f s6"
    unfolding s6_def by (rule created_file_value(2) [OF component_capitals [OF assms(3)] assms(8)])
  have x: "fatfile s6 f = ?x" "pool s6 = dir # ps" using s4(2) by (simp_all add: s6 kfree_def set_file_def fatfile_def)
  have "agree fixed s s6"
    using s4(1) by (simp add: s6 agree_def same_world_def kfree_def set_file_def mem_def volume_def)
  then have k6: "keeps s6" "?C s6 = ?C s" using storesD(6) [OF st assms(15)] by blast+
  have m6: "mem s6 = mem s" using s4(1) by (simp add: s6 same_world_def kfree_def set_file_def mem_def)
  obtain s7 where s7: "fat_updateFileEntry D f s6 = Some (SUCCESS, s7)" "keeps s7"
    "?C s7 = (?C s)(?gc := enter (?C s ?gc) i (created_entry b rest))" "\<forall>a. spc * bps \<le> unat (a - dir) \<longrightarrow> mem s7 a = mem s a"
    using updateFileEntry_stores [OF st k6(1) x(1) _ _ _ _ x(2) _ assms(16) n pos(1) small, of i] assms(17,18) k6(2) m6
      length_created_entry [OF assms(5)] by auto
  have "?C (kfree f (kfree d s7)) = ?C s7"
    using storesD(6) [OF st s7(2) agree_kfree] storesD(6) [OF st _ agree_kfree] by metis
  then have "?C (kfree f (kfree d s7)) = (?C s)(?gc := enter (?C s ?gc) i (created_entry b rest))" unfolding s7(3) .
  moreover have "fat_create D g m (PATH_SLASH # (b @ rest) @ 0 # t) s = Some (SUCCESS, PATH_SLASH # ?c @ 0 # t, kfree f (kfree d s7))"
    unfolding s4(3) ci s7(1) bind.bind_lunit prod.case by (rule refl)
  moreover have "\<forall>a. spc * bps \<le> unat (a - dir) \<longrightarrow> mem (kfree f (kfree d s7)) a = mem s a" using s7(4) by (simp add: mem_volume_free)
  ultimately show ?thesis by blast
qed

text \<open>
  On the example machine the stack holds an entry of cluster 5, whose sector is empty: the entry of /a.txt goes
  there, as A.T.
\<close>

definition create_start :: "disk fat vfs" where
  "create_start = (ex_fat chain_memory FAT_16 0 VFS_MODE_READWRITE (0, \<lambda>_. replicate 64 0))\<lparr>pool := [0x6100, 0x6200, 0x6300, 0x6400, 0x5000]\<rparr>"

lemma pool_update: "mem (s\<lparr>pool := p\<rparr>) = mem s" "volume (s\<lparr>pool := p\<rparr>) = volume s"
  by (simp_all add: mem_def volume_def)

lemma create_keeps: "store_keeps create_start"
  by (simp add: store_keeps_def create_start_def store_start_def pool_update sector_def ex_fat_def volume_def mem_def)

lemma chain_root: "fat_getIndex chain_memory 0x3000 name = Some (FAIL, name)"
proof -
  have "e_name (entry_of chain_memory 0x3000 0) ! 0 = 0"
    by (simp add: entry_of_def fat_entry_of_bytes_def ENTRY_SIZE_def chain_memory_def ex_memory_def)
  moreover have "(32 :: nat) = Suc 31" by simp
  ultimately show ?thesis unfolding fat_getIndex_def \<open>32 = Suc 31\<close> scan_entries.simps(2) by simp
qed

theorem create_in_garbage_witness:
  "\<exists>s'. fat_create ex_disk_drivers (ex_entry 5 0) 0x610 [PATH_SLASH, 0x61, DOT, 0x74, 0x78, 0x74, 0] create_start =
      Some (SUCCESS, [PATH_SLASH, 0x41, DOT, 0x54, 0x58, 0x54, 0], s') \<and>
    sector s' 4 = bytes_of_fat_entry (created_entry [0x61] [DOT, 0x74, 0x78, 0x74]) @ replicate 32 0"
proof -
  have v: "volume store_start 0x1000 = volume create_start 0x1000" "fm_rootdir (volume store_start 0x1000) = 0x3000"
    by (simp_all add: create_start_def store_start_def pool_update)
  have up: "map toupper ([0x61] @ [DOT, 0x74, 0x78, 0x74]) = [0x41, DOT, 0x54, 0x58, 0x54]" by (simp add: toupper_def DOT_def)
  have z: "cluster_bytes sector (-1) 1 create_start 5 = replicate 64 0"
    by (simp add: cluster_bytes_def cluster_sectors_def sector_def create_start_def ex_fat_def)
  have fr: "unused_slot (replicate 64 0) 0"
    by (simp add: unused_slot_def used_slot_def dir_slot_def fat_entry_of_bytes_def ENTRY_SIZE_def le_replicate_zero)
  have m: "mem create_start = chain_memory" "pool create_start = [0x6100, 0x6200, 0x6300, 0x6400, 0x5000]"
    "mp_data_ptr (mp_heap create_start 0x610) = 0x1000"
    by (simp_all add: create_start_def pool_update)
  have g: "uint (e_start_cluster (ex_entry 5 0)) = 5" by (simp add: ex_entry_def)
  have "\<exists>s'. fat_create ex_disk_drivers (ex_entry 5 0) 0x610 (PATH_SLASH # ([0x61] @ [DOT, 0x74, 0x78, 0x74]) @ 0 # []) create_start =
      Some (SUCCESS, PATH_SLASH # map toupper ([0x61] @ [DOT, 0x74, 0x78, 0x74]) @ 0 # [], s') \<and>
    cluster_bytes sector (-1) 1 s' = (cluster_bytes sector (-1) 1 create_start)(uint (e_start_cluster (ex_entry 5 0)) :=
      enter (cluster_bytes sector (-1) 1 create_start (uint (e_start_cluster (ex_entry 5 0)))) 0 (created_entry [0x61] [DOT, 0x74, 0x78, 0x74])) \<and>
    (\<forall>a. 1 * 64 \<le> unat (a - 0x5000) \<longrightarrow> mem s' a = mem create_start a)"
    by (rule create_in_garbage [OF m(3) _ _ _ _ _ m(2) _ _ _ _ store_sectors store_layout _ create_keeps])
      (simp_all add: m(1) v(2) chain_root component_def PATH_SLASH_def DOT_def has_room_def cluster_sectors_def store_free fr g z [unfolded One_nat_def])
  then obtain s' where s': "fat_create ex_disk_drivers (ex_entry 5 0) 0x610 (PATH_SLASH # ([0x61] @ [DOT, 0x74, 0x78, 0x74]) @ 0 # []) create_start =
      Some (SUCCESS, PATH_SLASH # [0x41, DOT, 0x54, 0x58, 0x54] @ 0 # [], s')"
    "cluster_bytes sector (-1) 1 s' 5 = enter (replicate 64 0) 0 (created_entry [0x61] [DOT, 0x74, 0x78, 0x74])"
    unfolding up z g by (elim exE conjE) simp
  have r: "(replicate 32 (0 :: u8))[0 := 0] = replicate 32 0" using list_update_id [of "replicate 32 (0 :: u8)" 0] by simp
  have "cluster_bytes sector (-1) 1 s' 5 = sector s' 4" by (simp add: cluster_bytes_def cluster_sectors_def)
  then have "sector s' 4 = bytes_of_fat_entry (created_entry [0x61] [DOT, 0x74, 0x78, 0x74]) @ replicate 32 0"
    using s'(2) by (simp add: enter_def ENTRY_SIZE_def r)
  then show ?thesis using s'(1) by (intro exI [of _ s']) simp
qed

end
