(* ===== verification/Race.thy ===== *)
theory Race
  imports Prelude "HOL-Library.Multiset"
begin

text \<open>
  The demonstration of a race condition (pthread_race_condition.c): \<open>main\<close> starts ten threads and
  gives each of them the address of its own loop variable \<open>i\<close>, which they read while it counts on.
  The program is a step relation: a step is a test, a call, an increment of \<open>main\<close> or a read or a
  print of a thread, in any order. Of \<open>pthread_create\<close> the model uses that it starts a thread or, when
  there are no resources for one, does not; the result is not looked at. After \<open>pthread_exit\<close> the
  variables of \<open>main\<close> are gone: what a thread then reads is any value.
\<close>

section \<open>The program\<close>

datatype main_at = At_test | At_create | At_increment | Exited

datatype myfunc_at = Started | Loaded int | Returned int

record race =
  main_pc :: main_at
  i_value :: int
  threads :: "myfunc_at list"
  printed :: "int list"

definition race_start :: race where
  "race_start = \<lparr>main_pc = At_test, i_value = 0, threads = [], printed = []\<rparr>"

text \<open>The steps of \<open>myfunc\<close> in thread \<open>k\<close>: reading \<open>i\<close>, and printing what it has read.\<close>

inductive myfunc_step :: "nat \<Rightarrow> race \<Rightarrow> race \<Rightarrow> bool" where
  read: "k < length (threads s) \<Longrightarrow> threads s ! k = Started \<Longrightarrow> main_pc s = Exited \<or> v = i_value s \<Longrightarrow>
    myfunc_step k s (s\<lparr>threads := (threads s)[k := Loaded v]\<rparr>)"
| print: "k < length (threads s) \<Longrightarrow> threads s ! k = Loaded v \<Longrightarrow>
    myfunc_step k s (s\<lparr>threads := (threads s)[k := Returned v], printed := printed s @ [v]\<rparr>)"

inductive race_step :: "race \<Rightarrow> race \<Rightarrow> bool" where
  enter: "main_pc s = At_test \<Longrightarrow> i_value s < 10 \<Longrightarrow> race_step s (s\<lparr>main_pc := At_create\<rparr>)"
| leave: "main_pc s = At_test \<Longrightarrow> \<not> i_value s < 10 \<Longrightarrow> race_step s (s\<lparr>main_pc := Exited\<rparr>)"
| create: "main_pc s = At_create \<Longrightarrow> race_step s (s\<lparr>main_pc := At_increment, threads := threads s @ [Started]\<rparr>)"
| refuse: "main_pc s = At_create \<Longrightarrow> race_step s (s\<lparr>main_pc := At_increment\<rparr>)"
| increment: "main_pc s = At_increment \<Longrightarrow> race_step s (s\<lparr>main_pc := At_test, i_value := i_value s + 1\<rparr>)"
| myfunc: "myfunc_step k s s' \<Longrightarrow> race_step s s'"

inductive_cases myfunc_stepE: "myfunc_step k s s'"
inductive_cases race_stepE: "race_step s s'"

section \<open>What holds in every state\<close>

text \<open>The value a thread has read.\<close>

definition has_read :: "race \<Rightarrow> nat \<Rightarrow> int \<Rightarrow> bool" where
  "has_read s k v \<longleftrightarrow> k < length (threads s) \<and> (threads s ! k = Loaded v \<or> threads s ! k = Returned v)"

fun value_of :: "myfunc_at \<Rightarrow> int list" where
  "value_of (Returned v) = [v]" | "value_of _ = []"

definition returned :: "myfunc_at list \<Rightarrow> int list" where
  "returned ts = concat (map value_of ts)"

definition counter_ok :: "race \<Rightarrow> bool" where
  "counter_ok s \<longleftrightarrow> 0 \<le> i_value s \<and> i_value s \<le> 10 \<and>
     (main_pc s \<in> {At_create, At_increment} \<longrightarrow> i_value s < 10) \<and> (main_pc s = Exited \<longrightarrow> i_value s = 10) \<and>
     int (length (threads s)) \<le> i_value s + (if main_pc s = At_increment then 1 else 0)"

definition values_ok :: "race \<Rightarrow> bool" where
  "values_ok s \<longleftrightarrow> main_pc s \<noteq> Exited \<longrightarrow> (\<forall>k v. has_read s k v \<longrightarrow> int k \<le> v \<and> v \<le> i_value s)"

definition output_ok :: "race \<Rightarrow> bool" where
  "output_ok s \<longleftrightarrow> mset (printed s) = mset (returned (threads s))"

definition race_inv :: "race \<Rightarrow> bool" where
  "race_inv s \<longleftrightarrow> counter_ok s \<and> values_ok s \<and> output_ok s"

lemma returned_update:
  "k < length ts \<Longrightarrow> value_of (ts ! k) = [] \<Longrightarrow> mset (returned (ts[k := t])) = mset (returned ts) + mset (value_of t)"
proof (induction ts arbitrary: k)
  case (Cons u ts)
  then show ?case by (cases k) (simp_all add: returned_def)
qed simp

lemma myfunc_main: "myfunc_step k s s' \<Longrightarrow> main_pc s' = main_pc s \<and> i_value s' = i_value s \<and> length (threads s') = length (threads s)"
  by (auto elim: myfunc_stepE)

lemma counter_ok_step: "race_step s s' \<Longrightarrow> counter_ok s \<Longrightarrow> counter_ok s'"
proof (induction rule: race_step.induct)
  case (myfunc k s s')
  then show ?case using myfunc_main [OF myfunc(1)] by (simp add: counter_ok_def)
qed (simp_all add: counter_ok_def)

text \<open>What a thread has read after a step it had read before, or it has read the counter.\<close>

lemma has_read_step:
  "race_step s s' \<Longrightarrow> has_read s' k v \<Longrightarrow> main_pc s' \<noteq> Exited \<Longrightarrow> has_read s k v \<or> k < length (threads s') \<and> v = i_value s'"
proof (induction rule: race_step.induct)
  case (create s)
  then show ?case by (cases "k < length (threads s)") (auto simp: has_read_def nth_append split: if_splits)
next
  case (myfunc j s s')
  from myfunc.hyps show ?case
  proof (cases rule: myfunc_step.cases)
    case (read w)
    then show ?thesis using myfunc.prems by (cases "k = j") (auto simp: has_read_def)
  next
    case (print w)
    then show ?thesis using myfunc.prems by (cases "k = j") (auto simp: has_read_def)
  qed
qed (simp_all add: has_read_def)

lemma i_value_mono: "race_step s s' \<Longrightarrow> i_value s \<le> i_value s' \<and> (main_pc s = Exited \<longrightarrow> main_pc s' = Exited)"
  by (induction rule: race_step.induct) (auto dest: myfunc_main)

lemma values_ok_step:
  assumes "race_step s s'" "counter_ok s" "values_ok s"
  shows "values_ok s'"
  unfolding values_ok_def
proof (intro impI allI)
  fix k v assume *: "main_pc s' \<noteq> Exited" "has_read s' k v"
  have c: "counter_ok s'" by (rule counter_ok_step [OF assms(1,2)])
  consider "has_read s k v" | "k < length (threads s')" "v = i_value s'" using has_read_step [OF assms(1) *(2,1)] by blast
  then show "int k \<le> v \<and> v \<le> i_value s'"
  proof cases
    case 1
    then have "int k \<le> v" "v \<le> i_value s" using assms(3) i_value_mono [OF assms(1)] *(1) by (auto simp: values_ok_def)
    then show ?thesis using i_value_mono [OF assms(1)] by linarith
  next
    case 2
    then show ?thesis using c by (auto simp: counter_ok_def split: if_splits)
  qed
qed

lemma output_ok_step: "race_step s s' \<Longrightarrow> output_ok s \<Longrightarrow> output_ok s'"
proof (induction rule: race_step.induct)
  case (myfunc k s s')
  then show ?case by (auto simp: output_ok_def returned_update elim!: myfunc_stepE)
qed (simp_all add: output_ok_def returned_def)

lemma race_inv_reachable: "race_step\<^sup>*\<^sup>* race_start s \<Longrightarrow> race_inv s"
proof (induction rule: rtranclp_induct)
  case base
  then show ?case by (simp add: race_inv_def counter_ok_def values_ok_def output_ok_def race_start_def has_read_def returned_def)
next
  case (step s s')
  then show ?case unfolding race_inv_def using counter_ok_step values_ok_step output_ok_step by blast
qed

text \<open>
  As long as \<open>main\<close> runs, the thread created as number \<open>k\<close> (from 0 on) reads, and prints, a number
  from \<open>k\<close> to the present value of the loop variable, which is at most 10; and what is printed is
  what the threads that have returned have read, once each.
\<close>

theorem race_values:
  assumes "race_step\<^sup>*\<^sup>* race_start s" "main_pc s \<noteq> Exited"
  shows "(\<forall>k v. has_read s k v \<longrightarrow> int k \<le> v \<and> v \<le> i_value s) \<and> i_value s \<le> 10 \<and>
    mset (printed s) = mset (returned (threads s))"
  using race_inv_reachable [OF assms(1)] assms(2)
  by (auto simp: race_inv_def counter_ok_def values_ok_def output_ok_def)

section \<open>What can be printed\<close>

definition read_some :: "(nat \<Rightarrow> bool) \<Rightarrow> race \<Rightarrow> nat \<Rightarrow> race" where
  "read_some P s n = s\<lparr>threads := map (\<lambda>k. if k < n \<and> P k \<and> threads s ! k = Started then Loaded (i_value s) else threads s ! k)
     [0..<length (threads s)]\<rparr>"

lemma read_some_steps: "n \<le> length (threads s) \<Longrightarrow> race_step\<^sup>*\<^sup>* s (read_some P s n)"
proof (induction n)
  case 0
  have "read_some P s 0 = s" by (simp add: read_some_def map_nth)
  then show ?case by simp
next
  case (Suc n)
  then have steps: "race_step\<^sup>*\<^sup>* s (read_some P s n)" and n: "n < length (threads s)" by simp_all
  show ?case
  proof (cases "P n \<and> threads s ! n = Started")
    case True
    let ?s = "read_some P s n"
    have "myfunc_step n ?s (?s\<lparr>threads := (threads ?s)[n := Loaded (i_value s)]\<rparr>)"
      by (rule myfunc_step.read) (use n True in \<open>simp_all add: read_some_def\<close>)
    moreover have "?s\<lparr>threads := (threads ?s)[n := Loaded (i_value s)]\<rparr> = read_some P s (Suc n)"
    proof -
      have "(threads ?s)[n := Loaded (i_value s)] = threads (read_some P s (Suc n))"
      proof (rule nth_equalityI)
        fix k assume "k < length ((threads ?s)[n := Loaded (i_value s)])"
        then have "k < length (threads s)" by (simp add: read_some_def)
        then show "(threads ?s)[n := Loaded (i_value s)] ! k = threads (read_some P s (Suc n)) ! k"
          using n True by (cases "k = n") (simp_all add: read_some_def less_Suc_eq)
      qed (simp add: read_some_def)
      then show ?thesis by (simp add: read_some_def)
    qed
    ultimately show ?thesis using steps race_step.myfunc by (metis rtranclp.rtrancl_into_rtrancl)
  next
    case False
    then have "(k < Suc n \<and> P k \<and> threads s ! k = Started) = (k < n \<and> P k \<and> threads s ! k = Started)" for k
      by (auto simp: less_Suc_eq)
    then have "read_some P s (Suc n) = read_some P s n" by (simp add: read_some_def)
    then show ?thesis using steps by simp
  qed
qed

definition print_some :: "int list \<Rightarrow> race \<Rightarrow> nat \<Rightarrow> race" where
  "print_some vs s n = s\<lparr>threads := map Returned (take n vs) @ map Loaded (drop n vs), printed := take n vs\<rparr>"

lemma print_some_steps:
  assumes "threads s = map Loaded vs" "printed s = []"
  shows "n \<le> length vs \<Longrightarrow> race_step\<^sup>*\<^sup>* s (print_some vs s n)"
proof (induction n)
  case 0
  have "print_some vs s 0 = s" using assms by (simp add: print_some_def)
  then show ?case by simp
next
  case (Suc n)
  let ?s = "print_some vs s n"
  have n: "n < length vs" using Suc.prems by simp
  then have rest: "drop n vs = vs ! n # drop (Suc n) vs" by (simp add: Cons_nth_drop_Suc)
  have "myfunc_step n ?s (?s\<lparr>threads := (threads ?s)[n := Returned (vs ! n)], printed := printed ?s @ [vs ! n]\<rparr>)"
    by (rule myfunc_step.print) (use n in \<open>simp_all add: print_some_def nth_append\<close>)
  moreover have "?s\<lparr>threads := (threads ?s)[n := Returned (vs ! n)], printed := printed ?s @ [vs ! n]\<rparr> = print_some vs s (Suc n)"
    using n by (simp add: print_some_def rest list_update_append take_Suc_conv_app_nth)
  ultimately show ?case using Suc race_step.myfunc by (metis Suc_leD rtranclp.rtrancl_into_rtrancl)
qed

text \<open>The state in which the values below \<open>c\<close> have been read, at the test of the loop.\<close>

definition read_below :: "int list \<Rightarrow> nat \<Rightarrow> race" where
  "read_below vs c = \<lparr>main_pc = At_test, i_value = int c,
     threads = map (\<lambda>k. if vs ! k < int c then Loaded (vs ! k) else Started) [0..<c], printed = []\<rparr>"

lemma read_below_steps:
  assumes "length vs = 10" "\<forall>k < 10. int k \<le> vs ! k"
  shows "c \<le> 10 \<Longrightarrow> race_step\<^sup>*\<^sup>* race_start (read_below vs c)"
proof (induction c)
  case 0
  then show ?case by (simp add: read_below_def race_start_def)
next
  case (Suc c)
  let ?s0 = "read_below vs c"
  let ?s1 = "?s0\<lparr>main_pc := At_create\<rparr>"
  let ?s2 = "?s1\<lparr>main_pc := At_increment, threads := threads ?s1 @ [Started]\<rparr>"
  let ?s3 = "read_some (\<lambda>k. vs ! k = int c) ?s2 (Suc c)"
  have "race_step ?s0 ?s1" by (rule race_step.enter) (use Suc.prems in \<open>simp_all add: read_below_def\<close>)
  moreover have "race_step ?s1 ?s2" by (rule race_step.create) simp
  moreover have "race_step\<^sup>*\<^sup>* ?s2 ?s3" by (rule read_some_steps) (simp add: read_below_def)
  moreover have "race_step ?s3 (?s3\<lparr>main_pc := At_test, i_value := i_value ?s3 + 1\<rparr>)"
    by (rule race_step.increment) (simp add: read_some_def)
  moreover have "?s3\<lparr>main_pc := At_test, i_value := i_value ?s3 + 1\<rparr> = read_below vs (Suc c)"
  proof -
    have "int c \<le> vs ! c" using assms(2) Suc.prems by simp
    then have "threads ?s3 ! k = threads (read_below vs (Suc c)) ! k" if "k < Suc c" for k
      using that by (cases "k = c") (auto simp: read_below_def read_some_def nth_append)
    then have "threads ?s3 = threads (read_below vs (Suc c))"
      by (intro nth_equalityI) (simp_all add: read_below_def read_some_def)
    then show ?thesis by (simp add: read_below_def read_some_def)
  qed
  ultimately show ?case using Suc by (metis (no_types, lifting) Suc_leD converse_rtranclp_into_rtranclp rtranclp_trans
      rtranclp.rtrancl_into_rtrancl)
qed

theorem race_values_witness:
  "race_step\<^sup>*\<^sup>* race_start (read_below [0, 1, 2, 3, 4, 5, 6, 7, 8, 9] 3) \<and> (1 :: int) \<le> i_value (read_below [0, 1, 2, 3, 4, 5, 6, 7, 8, 9] 3)"
proof -
  let ?vs = "[0, 1, 2, 3, 4, 5, 6, 7, 8, 9] :: int list"
  have run: "race_step\<^sup>*\<^sup>* race_start (read_below ?vs 3)"
    by (rule read_below_steps) (auto simp: less_Suc_eq numeral_eq_Suc)
  have alive: "main_pc (read_below ?vs 3) \<noteq> Exited" by (simp add: read_below_def)
  have "has_read (read_below ?vs 3) 1 1" by (simp add: has_read_def read_below_def)
  then show ?thesis using race_values [OF run alive] run by auto
qed

text \<open>
  The race is as wide as that: every ten numbers of which the one with index \<open>k\<close> is from \<open>k\<close> to 10 can
  be what a run prints, in this order, from ten times 10 to 0, 1, ..., 9.
\<close>

theorem race_prints_any:
  assumes "length vs = 10" "\<forall>k < 10. int k \<le> vs ! k \<and> vs ! k \<le> 10"
  shows "\<exists>s. race_step\<^sup>*\<^sup>* race_start s \<and> main_pc s = Exited \<and> threads s = map Returned vs \<and> printed s = vs"
proof -
  let ?s0 = "read_below vs 10"
  let ?s1 = "read_some (\<lambda>k. True) ?s0 10"
  let ?s2 = "?s1\<lparr>main_pc := Exited\<rparr>"
  have "race_step\<^sup>*\<^sup>* race_start ?s0" using read_below_steps [OF assms(1)] assms(2) by simp
  moreover have "race_step\<^sup>*\<^sup>* ?s0 ?s1" by (rule read_some_steps) (simp add: read_below_def)
  moreover have "race_step ?s1 ?s2" by (rule race_step.leave) (simp_all add: read_below_def read_some_def)
  moreover have "threads ?s2 ! k = Loaded (vs ! k)" if "k < 10" for k
    using that assms(2) by (auto simp: read_below_def read_some_def)
  then have loaded: "threads ?s2 = map Loaded vs"
    by (intro nth_equalityI) (simp_all add: read_below_def read_some_def assms(1))
  then have "race_step\<^sup>*\<^sup>* ?s2 (print_some vs ?s2 10)"
    by (rule print_some_steps) (simp_all add: read_below_def read_some_def assms(1))
  ultimately have "race_step\<^sup>*\<^sup>* race_start (print_some vs ?s2 10)" by (meson rtranclp.rtrancl_into_rtrancl rtranclp_trans)
  moreover have "main_pc (print_some vs ?s2 10) = Exited" "threads (print_some vs ?s2 10) = map Returned vs" "printed (print_some vs ?s2 10) = vs"
    using assms(1) by (simp_all add: print_some_def)
  ultimately show ?thesis by blast
qed

theorem race_prints_any_witness:
  "\<exists>s. race_step\<^sup>*\<^sup>* race_start s \<and> main_pc s = Exited \<and> threads s = map Returned (replicate 10 10) \<and> printed s = replicate 10 10"
  by (rule race_prints_any) simp_all

section \<open>Every run ends\<close>

text \<open>How many steps are left at most.\<close>

definition myfunc_steps :: "myfunc_at \<Rightarrow> int" where
  "myfunc_steps t = (case t of Started \<Rightarrow> 2 | Loaded _ \<Rightarrow> 1 | Returned _ \<Rightarrow> 0)"

definition main_steps :: "main_at \<Rightarrow> int \<Rightarrow> int" where
  "main_steps pc i = (case pc of At_test \<Rightarrow> 5 * (10 - i) + 1 | At_create \<Rightarrow> 5 * (10 - i) | At_increment \<Rightarrow> 5 * (10 - i) - 3 | Exited \<Rightarrow> 0)"

definition steps_left :: "race \<Rightarrow> int" where
  "steps_left s = main_steps (main_pc s) (i_value s) + sum_list (map myfunc_steps (threads s))"

lemma sum_list_update_int: "k < length xs \<Longrightarrow> sum_list (map f (xs[k := x])) = sum_list (map f xs) - f (xs ! k) + (f x :: int)"
proof (induction xs arbitrary: k)
  case (Cons y xs)
  then show ?case by (cases k) simp_all
qed simp

lemma steps_left_step: "race_step s s' \<Longrightarrow> counter_ok s \<Longrightarrow> steps_left s' < steps_left s"
proof (induction rule: race_step.induct)
  case (myfunc k s s')
  then show ?case by (auto simp: steps_left_def sum_list_update_int myfunc_steps_def elim!: myfunc_stepE)
qed (simp_all add: steps_left_def main_steps_def myfunc_steps_def counter_ok_def)

lemma steps_left_nonneg: "race_inv s \<Longrightarrow> 0 \<le> steps_left s"
proof -
  assume "race_inv s"
  then have "0 \<le> main_steps (main_pc s) (i_value s)"
    by (cases "main_pc s") (auto simp: race_inv_def counter_ok_def main_steps_def)
  moreover have "0 \<le> sum_list (map myfunc_steps (threads s))"
    by (rule sum_list_nonneg) (auto simp: myfunc_steps_def split: myfunc_at.split)
  ultimately show ?thesis by (simp add: steps_left_def)
qed

definition finished :: "race \<Rightarrow> bool" where
  "finished s \<longleftrightarrow> main_pc s = Exited \<and> (\<forall>t \<in> set (threads s). value_of t \<noteq> [])"

lemma finished_iff: "finished s \<longleftrightarrow> (\<forall>s'. \<not> race_step s s')"
proof
  assume "finished s"
  then show "\<forall>s'. \<not> race_step s s'" by (force simp: finished_def elim!: race_stepE myfunc_stepE dest: nth_mem)
next
  assume stuck: "\<forall>s'. \<not> race_step s s'"
  have "main_pc s = Exited"
    using stuck race_step.enter [of s] race_step.leave [of s] race_step.create [of s] race_step.increment [of s]
    by (cases "main_pc s"; cases "i_value s < 10") auto
  moreover have "value_of (threads s ! k) \<noteq> []" if "k < length (threads s)" for k
  proof (cases "threads s ! k")
    case Started
    from race_step.myfunc [OF myfunc_step.read [OF that this disjI2 [OF refl]]] show ?thesis using stuck by blast
  next
    case (Loaded v)
    from race_step.myfunc [OF myfunc_step.print [OF that this]] show ?thesis using stuck by blast
  qed simp
  ultimately show "finished s" by (auto simp: finished_def in_set_conv_nth)
qed

lemma returned_all: "\<forall>t \<in> set ts. value_of t \<noteq> [] \<Longrightarrow> length (returned ts) = length ts"
proof (induction ts)
  case (Cons t ts)
  then show ?case by (cases t) (simp_all add: returned_def)
qed (simp add: returned_def)

text \<open>
  C38. In whatever order the threads run, the program ends: no run is longer than 51 steps, and a run
  that cannot go on is one where \<open>main\<close> has left and every thread that was started, at most ten, has
  printed exactly one number.
\<close>

theorem race_ends:
  assumes "(race_step ^^ n) race_start s"
  shows "n \<le> 51 \<and> ((\<forall>s'. \<not> race_step s s') \<longleftrightarrow> finished s) \<and>
    (finished s \<longrightarrow> length (printed s) = length (threads s) \<and> length (threads s) \<le> 10)"
proof -
  have "steps_left t + int n \<le> steps_left race_start" if "(race_step ^^ n) race_start t" for n t
    using that
  proof (induction n arbitrary: t)
    case (Suc n)
    then obtain u where "(race_step ^^ n) race_start u" "race_step u t" by auto
    moreover from this have "counter_ok u" using race_inv_reachable relpowp_imp_rtranclp unfolding race_inv_def by metis
    ultimately show ?case using Suc.IH [of u] steps_left_step [of u t] by simp
  qed simp
  from this [OF assms] have left: "steps_left s + int n \<le> 51"
    by (simp add: steps_left_def race_start_def main_steps_def)
  have inv: "race_inv s" using assms race_inv_reachable relpowp_imp_rtranclp by metis
  have "n \<le> 51" using left steps_left_nonneg [OF inv] by simp
  moreover have "length (printed s) = length (threads s) \<and> length (threads s) \<le> 10" if "finished s"
  proof -
    have "mset (printed s) = mset (returned (threads s))" using inv by (simp add: race_inv_def output_ok_def)
    then have "length (printed s) = length (returned (threads s))" by (rule mset_eq_length)
    moreover have "length (returned (threads s)) = length (threads s)" using that returned_all by (simp add: finished_def)
    moreover have "int (length (threads s)) \<le> i_value s" "i_value s \<le> 10"
      using inv that by (simp_all add: race_inv_def counter_ok_def finished_def)
    then have "length (threads s) \<le> 10" by linarith
    ultimately show ?thesis by simp
  qed
  ultimately show ?thesis using finished_iff by blast
qed

theorem race_ends_witness:
  "\<exists>s. race_step race_start s \<and> \<not> finished s \<and> (\<exists>s'. race_step s s') \<and> (1 :: nat) \<le> 51"
proof -
  let ?s = "race_start\<lparr>main_pc := At_create\<rparr>"
  have s: "race_step race_start ?s" by (rule race_step.enter) (simp_all add: race_start_def)
  have "(race_step ^^ 1) race_start ?s" using s unfolding relpowp_1 .
  from race_ends [OF this] show ?thesis using s by (auto simp: finished_def)
qed

end
