(* ===== verification/Threads.thy ===== *)
theory Threads
  imports Prelude
begin

text \<open>
  The demonstration of threads (thread_implemention/pthread_usage.c): \<open>main\<close> starts two threads that print a
  line each, waits for one of them and leaves by \<open>pthread_exit\<close>. The program is a step relation over
  all interleavings. The name \<open>id\<close> of the thread \<open>main\<close> waits for is not declared in the source: its
  number \<open>j\<close> is an argument. Of \<open>pthread_create\<close> the model uses that it starts a thread or does not, of
  \<open>pthread_join\<close> that it waits for a running thread and returns at once, with an error, when there is none.
\<close>

section \<open>The program\<close>

datatype main_point = At_create nat | At_join | At_exit | Gone

datatype busy_at = Absent | Running | Over

record usage =
  main_point :: main_point
  thread :: "nat \<Rightarrow> busy_at"
  screen :: "string list"

definition usage_start :: usage where
  "usage_start = \<lparr>main_point = At_create 0, thread = (\<lambda>_. Absent), screen = []\<rparr>"

text \<open>What follows the call that creates thread \<open>k\<close>.\<close>

definition behind_create :: "nat \<Rightarrow> main_point" where
  "behind_create k = (if k = 0 then At_create 1 else At_join)"

inductive busy_step :: "nat \<Rightarrow> usage \<Rightarrow> usage \<Rightarrow> bool" where
  puts: "thread s k = Running \<Longrightarrow>
    busy_step k s (s\<lparr>thread := (thread s)(k := Over), screen := screen s @ [''Hello World'']\<rparr>)"

inductive usage_step :: "nat \<Rightarrow> usage \<Rightarrow> usage \<Rightarrow> bool" for j where
  create: "main_point s = At_create k \<Longrightarrow>
    usage_step j s (s\<lparr>main_point := behind_create k, thread := (thread s)(k := Running)\<rparr>)"
| refuse: "main_point s = At_create k \<Longrightarrow> usage_step j s (s\<lparr>main_point := behind_create k\<rparr>)"
| join: "main_point s = At_join \<Longrightarrow> thread s j \<noteq> Running \<Longrightarrow> usage_step j s (s\<lparr>main_point := At_exit\<rparr>)"
| exit: "main_point s = At_exit \<Longrightarrow> usage_step j s (s\<lparr>main_point := Gone\<rparr>)"
| busy: "busy_step k s s' \<Longrightarrow> usage_step j s s'"

inductive_cases busy_stepE: "busy_step k s s'"
inductive_cases usage_stepE: "usage_step j s s'"

section \<open>What holds in every state\<close>

text \<open>Which threads can have been started, and what the two of them have printed.\<close>

definition started :: "usage \<Rightarrow> nat" where
  "started s = length (filter (\<lambda>k. thread s k \<noteq> Absent) [0, 1])"

definition over :: "usage \<Rightarrow> nat" where
  "over s = length (filter (\<lambda>k. thread s k = Over) [0, 1])"

fun next_create :: "main_point \<Rightarrow> nat" where
  "next_create (At_create k) = k" | "next_create _ = 2"

definition usage_inv :: "nat \<Rightarrow> usage \<Rightarrow> bool" where
  "usage_inv j s \<longleftrightarrow> next_create (main_point s) \<le> 2 \<and> main_point s \<noteq> At_create 2 \<and> (\<forall>k \<ge> next_create (main_point s). thread s k = Absent) \<and>
     (main_point s \<in> {At_exit, Gone} \<longrightarrow> thread s j \<noteq> Running) \<and> screen s = replicate (over s) ''Hello World''"

lemma running_below: "usage_inv j s \<Longrightarrow> thread s k = Running \<Longrightarrow> k < next_create (main_point s) \<and> (k = 0 \<or> k = 1)"
proof -
  assume i: "usage_inv j s" and "thread s k = Running"
  then have "k < next_create (main_point s)" by (force simp: usage_inv_def not_less [symmetric])
  then show ?thesis using i by (auto simp: usage_inv_def)
qed

lemma usage_inv_step: "usage_step j s s' \<Longrightarrow> usage_inv j s \<Longrightarrow> usage_inv j s'"
proof (induction rule: usage_step.induct)
  case (create s k)
  then have "k = 0 \<or> k = 1" by (auto simp: usage_inv_def)
  with create show ?case by (auto simp: usage_inv_def behind_create_def over_def)
next
  case (refuse s k)
  then have "k = 0 \<or> k = 1" by (auto simp: usage_inv_def)
  with refuse show ?case by (auto simp: usage_inv_def behind_create_def over_def)
next
  case (busy k s s')
  from busy.hyps have s': "thread s k = Running" "s' = s\<lparr>thread := (thread s)(k := Over), screen := screen s @ [''Hello World'']\<rparr>"
    by (auto elim: busy_stepE)
  then have k: "k < next_create (main_point s)" "k = 0 \<or> k = 1" using running_below [OF busy.prems] by blast+
  then show ?case using busy.prems s' by (auto simp: usage_inv_def over_def replicate_append_same [symmetric])
qed (simp_all add: usage_inv_def over_def)

lemma usage_inv_reachable: "(usage_step j)\<^sup>*\<^sup>* usage_start s \<Longrightarrow> usage_inv j s"
  by (induction rule: rtranclp_induct) (use usage_inv_step in \<open>auto simp: usage_inv_def usage_start_def over_def\<close>)

section \<open>Every run ends\<close>

fun main_left :: "main_point \<Rightarrow> nat" where
  "main_left (At_create k) = 6 - 2 * k" | "main_left At_join = 2" | "main_left At_exit = 1" | "main_left Gone = 0"

definition runs_left :: "usage \<Rightarrow> nat" where
  "runs_left s = main_left (main_point s) + length (filter (\<lambda>k. thread s k = Running) [0, 1])"

lemma runs_left_step: "usage_step j s s' \<Longrightarrow> usage_inv j s \<Longrightarrow> runs_left s' < runs_left s"
proof (induction rule: usage_step.induct)
  case (create s k)
  then have "k = 0 \<or> k = 1" by (auto simp: usage_inv_def)
  with create show ?case by (auto simp: runs_left_def behind_create_def usage_inv_def)
next
  case (refuse s k)
  then have "k = 0 \<or> k = 1" by (auto simp: usage_inv_def)
  with refuse show ?case by (auto simp: runs_left_def behind_create_def)
next
  case (busy k s s')
  from busy.hyps have s': "thread s k = Running" "s' = s\<lparr>thread := (thread s)(k := Over), screen := screen s @ [''Hello World'']\<rparr>"
    by (auto elim: busy_stepE)
  then have "k = 0 \<or> k = 1" using running_below [OF busy.prems] by blast
  then show ?case using s' by (auto simp: runs_left_def)
qed (simp_all add: runs_left_def)

definition usage_finished :: "usage \<Rightarrow> bool" where
  "usage_finished s \<longleftrightarrow> main_point s = Gone \<and> thread s 0 \<noteq> Running \<and> thread s 1 \<noteq> Running"

lemma usage_finished_iff:
  assumes "usage_inv j s"
  shows "usage_finished s \<longleftrightarrow> (\<forall>s'. \<not> usage_step j s s')"
proof
  assume f: "usage_finished s"
  have "thread s k \<noteq> Running" for k
    using f assms by (cases "k < 2") (auto simp: usage_finished_def usage_inv_def less_2_cases_iff)
  then show "\<forall>s'. \<not> usage_step j s s'" using f by (auto simp: usage_finished_def elim!: usage_stepE busy_stepE)
next
  assume stuck: "\<forall>s'. \<not> usage_step j s s'"
  have idle: "thread s k \<noteq> Running" for k using stuck usage_step.busy [OF busy_step.puts] by blast
  then have "main_point s = Gone"
    using stuck usage_step.refuse [of s] usage_step.join [of s] usage_step.exit [of s] by (cases "main_point s") blast+
  then show "usage_finished s" using idle by (simp add: usage_finished_def)
qed

text \<open>
  C40. In whatever order the threads run, the program ends after at most six steps, \<open>main\<close> leaves only when
  the thread it waits for is not running, and at the end, which comes not before all the threads have
  returned, there is one line for each thread that was started.
\<close>

theorem usage_ends:
  assumes "(usage_step j ^^ n) usage_start s"
  shows "n \<le> 6 \<and> ((\<forall>s'. \<not> usage_step j s s') \<longleftrightarrow> usage_finished s) \<and> (main_point s = Gone \<longrightarrow> thread s j \<noteq> Running) \<and>
    (usage_finished s \<longrightarrow> screen s = replicate (started s) ''Hello World'')"
proof -
  have "runs_left t + n \<le> runs_left usage_start" if "(usage_step j ^^ n) usage_start t" for n t
    using that
  proof (induction n arbitrary: t)
    case (Suc n)
    then obtain u where u: "(usage_step j ^^ n) usage_start u" "usage_step j u t" by auto
    have "usage_inv j u" using u(1) usage_inv_reachable relpowp_imp_rtranclp by metis
    then show ?case using Suc.IH [OF u(1)] runs_left_step [OF u(2)] by simp
  qed simp
  from this [OF assms] have "n \<le> 6" by (simp add: runs_left_def usage_start_def)
  moreover have inv: "usage_inv j s" using assms usage_inv_reachable relpowp_imp_rtranclp by metis
  moreover have "started s = over s" if "usage_finished s"
    using that by (cases "thread s 0"; cases "thread s 1") (simp_all add: usage_finished_def started_def over_def)
  ultimately show ?thesis using usage_finished_iff [OF inv] by (auto simp: usage_inv_def)
qed

lemma relpowp_five: "R a b \<Longrightarrow> R b c \<Longrightarrow> R c d \<Longrightarrow> R d e \<Longrightarrow> R e f \<Longrightarrow> (R ^^ 5) a f"
  by (simp add: eval_nat_numeral, blast)

text \<open>A run in which only the first thread is started, and prints before \<open>main\<close> waits for it.\<close>

theorem usage_ends_witness:
  "\<exists>s. (usage_step 0 ^^ 5) usage_start s \<and> usage_finished s \<and> screen s = [''Hello World'']"
proof -
  let ?s1 = "usage_start\<lparr>main_point := behind_create 0, thread := (thread usage_start)(0 := Running)\<rparr>"
  let ?s2 = "?s1\<lparr>thread := (thread ?s1)(0 := Over), screen := screen ?s1 @ [''Hello World'']\<rparr>"
  let ?s3 = "?s2\<lparr>main_point := behind_create 1\<rparr>"
  let ?s4 = "?s3\<lparr>main_point := At_exit\<rparr>"
  let ?s5 = "?s4\<lparr>main_point := Gone\<rparr>"
  have 1: "usage_step 0 usage_start ?s1" by (rule usage_step.create) (simp add: usage_start_def)
  have 2: "usage_step 0 ?s1 ?s2" by (rule usage_step.busy [OF busy_step.puts]) simp
  have 3: "usage_step 0 ?s2 ?s3" by (rule usage_step.refuse) (simp add: behind_create_def)
  have 4: "usage_step 0 ?s3 ?s4" by (rule usage_step.join) (simp_all add: behind_create_def)
  have 5: "usage_step 0 ?s4 ?s5" by (rule usage_step.exit) simp
  have run: "(usage_step 0 ^^ 5) usage_start ?s5" by (rule relpowp_five [of "usage_step 0", OF 1 2 3 4 5])
  have "usage_finished ?s5" "started ?s5 = 1" by (simp_all add: usage_finished_def started_def usage_start_def)
  with usage_ends [OF run] run show ?thesis by auto
qed

end
