(* ===== verification/Overflow.thy ===== *)
theory Overflow
  imports Prelude "HOL-Library.Monad_Syntax"
begin

text \<open>
  The demonstration of a heap overflow (vulnerability/heap_buffer_overflow.c) on a flat byte memory,
  as a machine without protection runs it: \<open>gets\<close> writes a line of any length behind a block of ten
  bytes. The allocator is an argument with a state of its own; standard input and output are lists
  of bytes. A null pointer that is written or read through is \<^term>\<open>None\<close>.
\<close>

section \<open>The program\<close>

text \<open>Printing with \<open>%s\<close> goes through the memory up to the next null byte; without one it does not end.\<close>

partial_function (option) string_at :: "memory \<Rightarrow> u32 \<Rightarrow> bytes option" where
  "string_at m a = (if m a = 0 then Some [] else do { s \<leftarrow> string_at m (a + 1); Some (m a # s) })"

text \<open>\<open>strncpy\<close> from a literal without null bytes: exactly \<open>n\<close> bytes, with a null only if there is room.\<close>

definition strncpy :: "memory \<Rightarrow> u32 \<Rightarrow> bytes \<Rightarrow> nat \<Rightarrow> memory" where
  "strncpy m d src n = put_bytes m d (take n (src @ replicate (n - length src) 0))"

text \<open>\<open>gets\<close>: a line without its newline, and a null byte; nothing at the end of the input.\<close>

definition first_line :: "bytes \<Rightarrow> bytes" where
  "first_line input = takeWhile (\<lambda>b. b \<noteq> 0x0A) input"

definition gets :: "memory \<Rightarrow> u32 \<Rightarrow> bytes \<Rightarrow> memory" where
  "gets m d input = (if input = [] then m else put_bytes m d (first_line input @ [0]))"

definition overflow_main :: "(nat \<Rightarrow> 'h \<Rightarrow> u32 \<times> 'h) \<Rightarrow> 'h \<Rightarrow> bytes \<Rightarrow> memory \<Rightarrow> (bytes \<times> memory) option" where
  "overflow_main malloc h input m =
     (let (color_pref, h) = malloc 10 h;
          (user_name, h) = malloc 10 h
      in if user_name = NULL then None
      else let m = strncpy m user_name (str ''fred'') 4;
               out = str ''What is your favorite color?'' @ [0x0A]
      in if color_pref = NULL then None
      else let m = gets m color_pref input
      in do {
        color \<leftarrow> string_at m color_pref;
        let out = out @ str ''color_pref: '' @ color @ [0x0A];
        name \<leftarrow> string_at m user_name;
        Some (out @ str ''user_name: '' @ name @ [0x0A], m)
      })"

section \<open>Strings in memory\<close>

lemma string_at_iff:
  "string_at m a = Some s \<longleftrightarrow> (\<forall>i < length s. m (a + of_nat i) = s ! i \<and> s ! i \<noteq> 0) \<and> m (a + of_nat (length s)) = 0"
proof (induction s arbitrary: a)
  case Nil
  then show ?case by (subst string_at.simps) (auto simp: bind_eq_Some_conv)
next
  case (Cons x s)
  have "string_at m a = Some (x # s) \<longleftrightarrow> m a = x \<and> x \<noteq> 0 \<and> string_at m (a + 1) = Some s"
    by (subst string_at.simps) (auto simp: bind_eq_Some_conv)
  then show ?case unfolding Cons.IH by (auto simp: All_less_Suc2 add.assoc)
qed

lemma unat_nat_u32: "i < 2 ^ 32 \<Longrightarrow> unat (of_nat i :: u32) = i"
  by (simp add: unat_of_nat take_bit_nat_eq_self)

lemma put_bytes_in:
  assumes "unat (b - a) + i < length bs" "length bs \<le> 2 ^ 32"
  shows "put_bytes m a bs (b + of_nat i) = bs ! (unat (b - a) + i)"
proof -
  have "b + of_nat i - a = of_nat (unat (b - a) + i)" by simp
  then have "unat (b + of_nat i - a) = unat (b - a) + i" using assms unat_nat_u32 [of "unat (b - a) + i"] by (simp only:)
  then show ?thesis using assms(1) by (simp add: put_bytes_def)
qed

lemma put_bytes_out:
  assumes "length bs \<le> unat (b - a) + i" "unat (b - a) + i < 2 ^ 32"
  shows "put_bytes m a bs (b + of_nat i) = m (b + of_nat i)"
proof -
  have "b + of_nat i - a = of_nat (unat (b - a) + i)" by simp
  then have "unat (b + of_nat i - a) = unat (b - a) + i" using assms unat_nat_u32 [of "unat (b - a) + i"] by (simp only:)
  then show ?thesis using assms(1) by (simp add: put_bytes_def)
qed

text \<open>A string that starts inside of a text with a null byte at its end is a part of that text.\<close>

lemma string_inside:
  assumes "unat (b - a) \<le> length bs" "length bs < 2 ^ 32"
  shows "string_at (put_bytes m a (bs @ [0])) b = Some (cstr (drop (unat (b - a)) bs))"
proof -
  let ?d = "unat (b - a)" and ?s = "cstr (drop (unat (b - a)) bs)"
  have le: "length ?s \<le> length bs - ?d" using length_takeWhile_le [of "\<lambda>b. b \<noteq> 0" "drop ?d bs"] by (simp add: cstr_def)
  have inside: "put_bytes m a (bs @ [0]) (b + of_nat i) = (bs @ [0]) ! (?d + i)" if "i \<le> length bs - ?d" for i
    by (rule put_bytes_in) (use that assms in simp_all)
  have "put_bytes m a (bs @ [0]) (b + of_nat i) = ?s ! i \<and> ?s ! i \<noteq> 0" if i: "i < length ?s" for i
  proof -
    have "?s ! i = drop ?d bs ! i" using i by (simp add: cstr_def takeWhile_nth)
    moreover have "?s ! i \<noteq> 0" using i nth_mem [OF i] set_takeWhileD unfolding cstr_def by fast
    ultimately show ?thesis using i le assms(1) inside [of i] by (simp add: nth_append)
  qed
  moreover have "(bs @ [0]) ! (?d + length ?s) = 0"
  proof (cases "length ?s = length bs - ?d")
    case True
    then show ?thesis using assms(1) by (simp add: nth_append)
  next
    case False
    then have "length ?s < length (drop ?d bs)" using le by simp
    then have "drop ?d bs ! length ?s = 0" using nth_length_takeWhile [of "\<lambda>b. b \<noteq> 0" "drop ?d bs"] by (simp add: cstr_def)
    then show ?thesis using False le assms(1) by (simp add: nth_append)
  qed
  ultimately show ?thesis using inside [OF le] by (simp add: string_at_iff)
qed

text \<open>A string behind bytes that are not null, and one that only its own bytes decide about.\<close>

lemma string_at_append:
  assumes "string_at m (a + of_nat (length xs)) = Some s" "\<And>i. i < length xs \<Longrightarrow> m (a + of_nat i) = xs ! i \<and> xs ! i \<noteq> 0"
  shows "string_at m a = Some (xs @ s)"
proof -
  have s: "\<forall>i < length s. m (a + of_nat (length xs) + of_nat i) = s ! i \<and> s ! i \<noteq> 0" "m (a + of_nat (length xs) + of_nat (length s)) = 0"
    using assms(1) by (simp_all add: string_at_iff)
  have "m (a + of_nat i) = (xs @ s) ! i \<and> (xs @ s) ! i \<noteq> 0" if i: "i < length xs + length s" for i
  proof (cases "i < length xs")
    case True
    then show ?thesis using assms(2) by (simp add: nth_append)
  next
    case False
    then have eq: "a + of_nat i = a + of_nat (length xs) + of_nat (i - length xs)" by (simp add: of_nat_diff)
    have "i - length xs < length s" using i False by simp
    from s(1) [rule_format, OF this] show ?thesis unfolding eq using False by (simp add: nth_append)
  qed
  then show ?thesis using s(2) by (simp add: string_at_iff add.assoc)
qed

lemma string_at_cong:
  assumes "string_at m a = Some s" "\<And>i. i \<le> length s \<Longrightarrow> m' (a + of_nat i) = m (a + of_nat i)"
  shows "string_at m' a = Some s"
  using assms by (simp add: string_at_iff)

lemma bytes_at_put: "length bs \<le> 2 ^ 32 \<Longrightarrow> bytes_at (put_bytes m a bs) a (length bs) = bs"
  by (rule nth_equalityI) (use put_bytes_in [of a a _ bs m] in \<open>simp_all add: bytes_at_def\<close>)

text \<open>
  A text without null bytes at \<open>b\<close>, in front of the string \<open>rest\<close>, after other bytes have been written
  to \<open>a\<close> that end before \<open>b\<close>.
\<close>

lemma string_beside:
  assumes "string_at m (b + of_nat (length xs)) = Some rest" "0 \<notin> set xs" "length bs \<le> unat (b - a)"
    "unat (b - a) + length xs + length rest < 2 ^ 32"
  shows "string_at (put_bytes (put_bytes m b xs) a bs) b = Some (xs @ rest)"
proof -
  let ?m1 = "put_bytes m b xs"
  let ?m = "put_bytes ?m1 a bs"
  have out: "?m (b + of_nat i) = ?m1 (b + of_nat i)" if "i \<le> length xs + length rest" for i
    by (rule put_bytes_out) (use that assms(3,4) in simp_all)
  have "?m (b + of_nat i) = xs ! i \<and> xs ! i \<noteq> 0" if i: "i < length xs" for i
  proof -
    have "xs ! i \<noteq> 0" using assms(2) nth_mem [OF i] by metis
    then show ?thesis using i out [of i] put_bytes_in [of b b i xs m] assms(4) by simp
  qed
  moreover have "string_at ?m (b + of_nat (length xs)) = Some rest"
  proof (rule string_at_cong [OF assms(1)])
    fix i assume "i \<le> length rest"
    then have "?m (b + of_nat (length xs + i)) = ?m1 (b + of_nat (length xs + i))" using out [of "length xs + i"] by simp
    also have "\<dots> = m (b + of_nat (length xs + i))"
      by (rule put_bytes_out) (use \<open>i \<le> length rest\<close> assms(4) in simp_all)
    finally show "?m (b + of_nat (length xs) + of_nat i) = m (b + of_nat (length xs) + of_nat i)" by (simp add: add.assoc)
  qed
  ultimately show ?thesis by (rule string_at_append [rotated])
qed

section \<open>What the program prints\<close>

text \<open>
  C39. What the program prints and writes, for any line: the color is the line; the name is still fred, with
  whatever the heap holds behind its four bytes, exactly as long as the line is shorter than the
  distance of the two blocks, and otherwise what the line has from there on. The line and its null
  byte are written behind \<open>color_pref\<close> however small the block is, and nothing else but the name.
\<close>

theorem heap_overflow_output:
  assumes "malloc 10 h = (color_pref, h1)" "malloc 10 h1 = (user_name, h2)" "color_pref \<noteq> NULL" "user_name \<noteq> NULL" "input \<noteq> []"
  defines "d \<equiv> unat (user_name - color_pref)" and "line \<equiv> first_line input"
  assumes "string_at m (user_name + 4) = Some rest" "d + 4 + length rest < 2 ^ 32" "length line < 2 ^ 32"
  shows "\<exists>m'. overflow_main malloc h input m = Some (str ''What is your favorite color?'' @ [0x0A] @ str ''color_pref: '' @ cstr line @ [0x0A] @
      str ''user_name: '' @ (if length line < d then str ''fred'' @ rest else cstr (drop d line)) @ [0x0A], m') \<and>
    bytes_at m' color_pref (length line + 1) = line @ [0] \<and>
    (\<forall>a. length line < unat (a - color_pref) \<and> 4 \<le> unat (a - user_name) \<longrightarrow> m' a = m a)"
proof -
  let ?m1 = "put_bytes m user_name (str ''fred'')"
  let ?m = "put_bytes ?m1 color_pref (line @ [0])"
  have fred: "str ''fred'' = [0x66, 0x72, 0x65, 0x64]" by (simp add: str_def)
  have g: "gets (strncpy m user_name (str ''fred'') 4) color_pref input = ?m"
    using assms(5) by (simp add: gets_def strncpy_def fred line_def)
  have color: "string_at ?m color_pref = Some (cstr line)"
    using string_inside [of color_pref color_pref line ?m1] assms(10) by simp
  have name: "string_at ?m user_name = Some (if length line < d then str ''fred'' @ rest else cstr (drop d line))"
  proof (cases "length line < d")
    case True
    then show ?thesis
      using string_beside [of m user_name "str ''fred''" rest "line @ [0]" color_pref] assms(8,9) by (simp add: fred d_def)
  next
    case False
    then show ?thesis using string_inside [of user_name color_pref line ?m1] assms(10) by (simp add: d_def)
  qed
  have "bytes_at ?m color_pref (length line + 1) = line @ [0]"
    using bytes_at_put [of "line @ [0]" ?m1 color_pref] assms(10) by simp
  moreover have "?m a = m a" if "length line < unat (a - color_pref)" "4 \<le> unat (a - user_name)" for a
    using that by (simp add: put_bytes_def fred)
  ultimately show ?thesis
    using assms(1-4) color name by (simp add: overflow_main_def g Let_def)
qed

text \<open>Two neighbouring blocks 16 bytes apart in a memory of zeros, and a line of 20 times x.\<close>

definition ex_malloc :: "nat \<Rightarrow> u32 list \<Rightarrow> u32 \<times> u32 list" where
  "ex_malloc n h = (case h of [] \<Rightarrow> (NULL, []) | a # as \<Rightarrow> (a, as))"

theorem heap_overflow_output_witness:
  "\<exists>m'. overflow_main ex_malloc [0x1000, 0x1010] (replicate 20 0x78 @ [0x0A]) (\<lambda>_. 0) =
    Some (str ''What is your favorite color?'' @ [0x0A] @ str ''color_pref: '' @ replicate 20 0x78 @ [0x0A] @
      str ''user_name: '' @ replicate 4 0x78 @ [0x0A], m')"
proof -
  have line: "first_line (replicate 20 0x78 @ [0x0A]) = replicate 20 0x78" 
    unfolding first_line_def by (subst takeWhile_append2) auto
  have "string_at (\<lambda>_. 0) (0x1010 + 4) = Some []" by (simp add: string_at_iff)
  from heap_overflow_output [of ex_malloc "[0x1000, 0x1010]" "0x1000" "[0x1010]" "0x1010" "[]" "replicate 20 0x78 @ [0x0A]", OF _ _ _ _ _ this]
  show ?thesis unfolding line by (simp add: ex_malloc_def cstr_def, blast)
qed

end
