(* ===== verification/Spec2Isabelle.thy ===== *)
theory Spec2Isabelle
  imports PhysicalInit Dma Mmu SimCreat SimReadProps DfsProps HeapProps PagingProps FatCreateProps Race Threads Overflow
begin

text \<open>
  A model of the C programs of the repository SystemRelatedProjects: the kernel MimicOS (memory
  management and file systems), the simulated disk under src/kernal/file_system, the user-space MMU
  emulator and the demonstrations of threads and of a heap overflow.

  \<^bold>\<open>Parts and theories.\<close> Prelude holds the machine types, byte-addressed memory, the log of calls that
  leave the modelled code, and their lemmas. Every component has a theory of definitions, in the order
  of the source, and theories of properties:

  \<^item> Physical, PhysicalInit (kernel/mm/physical.c): the page bitmap in memory, its allocator and the
    boot memory map. The interface is the locale of PageAllocator, which Physical interprets. Proved:
    distinct pages, exact effect on the set of taken pages, the pages left free at boot.
  \<^item> Heap, HeapProps (kernel/mm/mm.c): the list of heap items in memory, first fit, splitting, merging.
    Proved: a well-formedness invariant over all runs with sizes that do not wrap around (up to
    0xFFFFFFF0), from the empty heap of \<open>mm_init\<close> on, as far as the address space goes; that
    larger sizes destroy it; a refinement of freeing, what growing loses.
  \<^item> Paging, PageMem, PagingProps (kernel/mm/paging.c): directory and table entries as bit-fields.
    Getting and setting an entry call each other without a bound in the source; the model has a depth
    of calls. Depth 2 is enough for an entry with a table, 3 without one when a page is free, and
    none without a free page, which is proved.
  \<^item> Dma (kernel/mm/dma.c): the port writes of a transfer, in order.
  \<^item> Mmu (kernal/mem_management/mm/mmu.c): two-level translation; the interface is the locale of
    AddressSpace. Proved: what is inserted is what is translated, and nothing else changes.
  \<^item> BlockDev, SimCodec (block.c), SimFs, SimFsProps, SimFind, SimCreat, SimRead, SimReadProps (simdisk.c,
    file.c): the disk image as bytes, inodes and directories as encoded there, formatting, paths,
    opening, creating and reading. What my_read uses without declaring it is state (fp, length) or an
    argument (tempp, fpoff). What uninitialised buffers hold is the argument \<open>garbage\<close>: only half of a
    directory buffer is filled by reading a block, and the properties say what the searches do with the other half,
    whatever it holds. The host's \<open>write\<close> always writes the whole block. Proved: which reads deliver the
    blocks of a file, and which have no defined behaviour; where find arrives; what creating writes.
  \<^item> Vfs, VfsProps (kernel/fs/vfs.c): drivers and mount points as lists of pointers over typed stores;
    what drivers do is an argument (their call tables), and opening is shown to treat its handle right
    for any driver. Chain holds the locale of a registry, a list
    with a newest element, which Vfs and Dfs interpret.
  \<^item> Dfs, DfsProps (kernel/fs/dfs.c): the device file system as a driver of the switch. The I/O
    subsystem below it is an argument; what it answers differs from device to device.
  \<^item> FatTable (structures, table, clusters), FatName (names and paths), Fat (operations and the driver) for
    kernel/fs/fat.c. A volume's state is the \<open>world\<close> of the switch: memory (boot sector, table,
    directories and buffers as bytes), the typed structures, and the device. The device is reached
    through the switch, with its driver \<open>D\<close> as an argument; the uninitialised entry of
    \<open>fat_file2entry\<close> is the argument \<open>garbage\<close>. FatTableProps, FatNameProps, FatPathProps, FatProps,
    FatChain and FatCreateProps hold the properties (FatReadProps, FatStore and FatWriteProps the lemmas on
    reading, on devices and on writing that the last two rest on), FatExample the machine of their witnesses.
  \<^item> Race (pthread_race_condition.c), Threads (pthread_usage.c): step relations over the interleavings
    of \<open>main\<close> and its threads. Proved: that every run ends, and with which output.
  \<^item> Overflow (heap_buffer_overflow.c): the program on a flat memory without protection, and what it
    prints and overwrites for a line of any length.

  \<^bold>\<open>How they interact.\<close> The file systems are called through the call tables of Vfs: \<open>dfs_driver\<close> and
  \<open>fat_driver\<close> are the tables the two drivers register, and FAT reads its device by \<open>vfs_read\<close> and
  \<open>vfs_seek\<close> of the same state. In the file systems the kernel heap is the list of blocks it hands out
  next; paging and the heap get pages from the allocator of Physical.

  \<^bold>\<open>Conventions.\<close> Undefined behaviour (a null pointer followed, a division by zero, an access behind a
  buffer that is modelled as a list) is \<^term>\<open>None\<close>; so is a loop that does not end, which is a
  \<open>partial_function\<close>. Integers are words or \<open>int\<close> with \<open>wrap32\<close> where they can wrap around.
  Other bounds are those of the code: a byte of sectors (256 rounds in \<open>rw_sectors\<close>), 32 entries in
  \<open>fat_getIndex\<close>, the 2 GB of positions of a file in the properties of seeking and reading.

  \<^bold>\<open>What the properties of FAT show.\<close> Reading from the start of a cluster delivers the contents of the
  cluster chain; writing in place replaces them, and what was written is read back, through
  the switch as well. The device is any one that stores sectors and a cluster has one or two of them
  (\<open>stores_sectors\<close>, \<open>fat_layout\<close>: hypotheses the machine of the witnesses is proved to fulfil). The
  table is read as the packed numbers it means. Seeking keeps the position inside the file. Listing
  answers the live entries. Several properties state what the code does instead of
  what it means: the offsets inside a cluster from three sectors on, rounds from the middle of a
  cluster, names compared by prefix, extensions cut to one character, opening (in every mode), and the
  cluster to which the entry of a new file is written.

  \<^bold>\<open>Not modelled.\<close> The empty my_remove, my_rename and directory.c of the simulated disk;
  debugging output; locks and interrupts beyond the log of their calls; headers that only declare functions or tables whose code is not in the repository (interrupt.h,
  segmentation.h, port.h, io.h); empty files; the demonstrations of a stack overflow and of a
  format string, to which C gives no meaning and which depend on the machine's stack. Names the source
  uses without declaring them (\<open>new_cluster\<close>, \<open>res\<close>, \<open>dir_idx\<close>, FAT_CLUSTER32) are read as those they
  stand for; the undeclared \<open>id\<close> of pthread_usage.c is an argument.
\<close>

end
